(* ===== verification/Py_Text.thy ===== *)
theory Py_Text
  imports Phx_Prelude
begin

text \<open>
  The UTF-8 codec of Python's \<open>str.encode("utf-8")\<close> and \<open>bytes.decode("utf-8")\<close>, in its
  strict form (surrogates, overlong forms and truncated sequences are errors) and with
  \<open>errors="ignore"\<close>, and the decimal rendering \<open>str(n)\<close> of an integer. The binary
  codec, the close-reason truncation and the reference counter of the client use these.
\<close>

section \<open>Encoding one code point\<close>

definition surrogate :: "nat \<Rightarrow> bool" where
  "surrogate c \<longleftrightarrow> 0xD800 \<le> c \<and> c \<le> 0xDFFF"

definition encodable :: "nat \<Rightarrow> bool" where
  "encodable c \<longleftrightarrow> c < 0x110000 \<and> \<not> surrogate c"

definition utf8_cp :: "nat \<Rightarrow> nat list" where
  "utf8_cp c =
     (if c < 0x80 then [c]
      else if c < 0x800 then [0xC0 + c div 64, 0x80 + c mod 64]
      else if c < 0x10000 then
        [0xE0 + c div 4096, 0x80 + c div 64 mod 64, 0x80 + c mod 64]
      else
        [0xF0 + c div 262144, 0x80 + c div 4096 mod 64, 0x80 + c div 64 mod 64,
         0x80 + c mod 64])"

text \<open>\<open>None\<close> is the \<open>UnicodeEncodeError\<close> of a lone surrogate.\<close>

definition utf8_encode :: "pystr \<Rightarrow> byte list option" where
  "utf8_encode s =
     (if list_all encodable s then Some (map of_nat (concat (map utf8_cp s))) else None)"

section \<open>Decoding\<close>

definition cont :: "nat \<Rightarrow> bool" where
  "cont b \<longleftrightarrow> 0x80 \<le> b \<and> b < 0xC0"

text \<open>Read one code point at the front; \<open>None\<close> when no well-formed sequence starts there.\<close>

fun utf8_next :: "nat list \<Rightarrow> (nat \<times> nat list) option" where
  "utf8_next [] = None"
| "utf8_next (a # bs) =
     (if a < 0x80 then Some (a, bs)
      else if a < 0xC0 then None
      else if a < 0xE0 then
        (case bs of
           b # r \<Rightarrow>
             (let c = (a - 0xC0) * 64 + (b - 0x80)
              in if cont b \<and> 0x80 \<le> c then Some (c, r) else None)
         | _ \<Rightarrow> None)
      else if a < 0xF0 then
        (case bs of
           b # b' # r \<Rightarrow>
             (let c = (a - 0xE0) * 4096 + (b - 0x80) * 64 + (b' - 0x80)
              in if cont b \<and> cont b' \<and> 0x800 \<le> c \<and> \<not> surrogate c then Some (c, r) else None)
         | _ \<Rightarrow> None)
      else if a < 0xF8 then
        (case bs of
           b # b' # b'' # r \<Rightarrow>
             (let c = (a - 0xF0) * 262144 + (b - 0x80) * 4096 + (b' - 0x80) * 64 + (b'' - 0x80)
              in if cont b \<and> cont b' \<and> cont b'' \<and> 0x10000 \<le> c \<and> c < 0x110000
                 then Some (c, r) else None)
         | _ \<Rightarrow> None)
      else None)"

lemma utf8_next_shorter: "utf8_next bs = Some (c, r) \<Longrightarrow> length r < length bs"
  by (cases bs) (auto simp: Let_def split: if_splits list.splits)

text \<open>Strict decoding: an ill-formed sequence is a \<open>UnicodeDecodeError\<close> (\<open>None\<close>).\<close>

function utf8_decode_nats :: "nat list \<Rightarrow> pystr option" where
  "utf8_decode_nats bs =
     (if bs = [] then Some []
      else case utf8_next bs of
             None \<Rightarrow> None
           | Some (c, r) \<Rightarrow> map_option ((#) c) (utf8_decode_nats r))"
  by pat_completeness auto
termination
  by (relation "measure length") (auto dest: utf8_next_shorter)

text \<open>With \<open>errors="ignore"\<close> a byte that starts no well-formed sequence is skipped.\<close>

function utf8_decode_nats_ignore :: "nat list \<Rightarrow> pystr" where
  "utf8_decode_nats_ignore bs =
     (if bs = [] then []
      else case utf8_next bs of
             None \<Rightarrow> utf8_decode_nats_ignore (tl bs)
           | Some (c, r) \<Rightarrow> c # utf8_decode_nats_ignore r)"
  by pat_completeness auto
termination
  by (relation "measure length") (auto dest: utf8_next_shorter)

declare utf8_decode_nats.simps [simp del]
declare utf8_decode_nats_ignore.simps [simp del]

definition utf8_decode :: "byte list \<Rightarrow> pystr option" where
  "utf8_decode bs = utf8_decode_nats (map unat bs)"

definition utf8_decode_ignore :: "byte list \<Rightarrow> pystr" where
  "utf8_decode_ignore bs = utf8_decode_nats_ignore (map unat bs)"

section \<open>Round trips\<close>

lemma utf8_cp_bytes: "encodable c \<Longrightarrow> b \<in> set (utf8_cp c) \<Longrightarrow> b < 256"
  by (auto simp: utf8_cp_def encodable_def split: if_splits)

lemma utf8_cp_nonempty [simp]: "utf8_cp c \<noteq> []"
  by (simp add: utf8_cp_def)

lemma utf8_cp_length: "1 \<le> length (utf8_cp c) \<and> length (utf8_cp c) \<le> 4"
  by (simp add: utf8_cp_def)

lemma div_mod_64:
  fixes c :: nat
  shows "c div 64 * 64 + c mod 64 = c"
    and "c div 4096 * 4096 + c div 64 mod 64 * 64 + c mod 64 = c"
    and "c div 262144 * 262144 + c div 4096 mod 64 * 4096 + c div 64 mod 64 * 64 + c mod 64 = c"
proof -
  have d: "c div 4096 = c div 64 div 64" "c div 262144 = c div 64 div 64 div 64"
    by (simp_all flip: div_mult2_eq)
  have a: "x div 64 * 64 + x mod 64 = x" for x :: nat
    by simp
  show "c div 64 * 64 + c mod 64 = c" by simp
  show "c div 4096 * 4096 + c div 64 mod 64 * 64 + c mod 64 = c"
    using a [of c] a [of "c div 64"] unfolding d by linarith
  show "c div 262144 * 262144 + c div 4096 mod 64 * 4096 + c div 64 mod 64 * 64 + c mod 64 = c"
    using a [of c] a [of "c div 64"] a [of "c div 64 div 64"] unfolding d by linarith
qed

lemma utf8_next_cp:
  assumes "encodable c"
  shows "utf8_next (utf8_cp c @ r) = Some (c, r)"
proof -
  have lim: "c < 0x110000" "\<not> surrogate c"
    using assms by (auto simp: encodable_def)
  consider "c < 0x80" | "0x80 \<le> c" "c < 0x800" | "0x800 \<le> c" "c < 0x10000" | "0x10000 \<le> c"
    by linarith
  then show ?thesis
  proof cases
    case 1
    then show ?thesis by (simp add: utf8_cp_def)
  next
    case 2
    then have "c div 64 < 32" by simp
    with 2 show ?thesis by (simp add: utf8_cp_def cont_def div_mod_64)
  next
    case 3
    then have "c div 4096 < 16" by simp
    with 3 lim show ?thesis by (simp add: utf8_cp_def cont_def div_mod_64)
  next
    case 4
    with lim have "c div 262144 < 8" by simp
    with 4 lim show ?thesis by (simp add: utf8_cp_def cont_def div_mod_64)
  qed
qed


lemma utf8_decode_nats_cp:
  "encodable c \<Longrightarrow>
   utf8_decode_nats (utf8_cp c @ r) = map_option ((#) c) (utf8_decode_nats r)"
  by (subst utf8_decode_nats.simps) (simp add: utf8_next_cp)

lemma utf8_decode_nats_concat:
  "list_all encodable s \<Longrightarrow> utf8_decode_nats (concat (map utf8_cp s)) = Some s"
proof (induction s)
  case Nil
  show ?case by (simp add: utf8_decode_nats.simps)
next
  case (Cons c s)
  then show ?case by (simp add: utf8_decode_nats_cp)
qed

lemma unat_byte_list:
  "(\<And>b. b \<in> set bs \<Longrightarrow> b < 256) \<Longrightarrow> map unat (map (of_nat :: nat \<Rightarrow> byte) bs) = bs"
  by (simp add: map_idI unat_of_nat)

lemma utf8_bytes_bound:
  "list_all encodable s \<Longrightarrow> b \<in> set (concat (map utf8_cp s)) \<Longrightarrow> b < 256"
  by (auto simp: list_all_iff dest: utf8_cp_bytes)

lemma utf8_encode_unat:
  "utf8_encode s = Some bs \<Longrightarrow> map unat bs = concat (map utf8_cp s) \<and> list_all encodable s"
  unfolding utf8_encode_def
  by (metis (no_types, lifting) option.distinct(1) option.inject unat_byte_list utf8_bytes_bound)

lemma utf8_roundtrip: "utf8_encode s = Some bs \<Longrightarrow> utf8_decode bs = Some s"
  by (auto simp: utf8_decode_def utf8_decode_nats_concat dest!: utf8_encode_unat)

lemma utf8_encode_length:
  "utf8_encode s = Some bs \<Longrightarrow> length bs = (\<Sum>c\<leftarrow>s. length (utf8_cp c))"
  by (auto simp: utf8_encode_def length_concat o_def split: if_splits)

lemma utf8_encode_Nil [simp]: "utf8_encode [] = Some []"
  by (simp add: utf8_encode_def)

lemma utf8_decode_Nil [simp]: "utf8_decode [] = Some []"
  by (simp add: utf8_decode_def utf8_decode_nats.simps)

lemma utf8_encode_eq_Nil: "utf8_encode s = Some [] \<longleftrightarrow> s = []"
  using utf8_roundtrip [of s "[]"] by auto

lemma utf8_encode_take:
  "utf8_encode s = Some bs \<Longrightarrow> \<exists>bs'. utf8_encode (take n s) = Some bs'"
  by (auto simp: utf8_encode_def list_all_iff split: if_splits dest: in_set_takeD)

text \<open>Strict decoding accepts nothing but encodings, so it is injective.\<close>

lemma div_mod_add_64:
  "x < 64 \<Longrightarrow> (y * 64 + x) div 64 = y" "x < 64 \<Longrightarrow> (y * 64 + x) mod 64 = x" for x y :: nat
  by simp_all

lemma unat_byte: "unat (b :: byte) < 256"
  using unsigned_less [of b, where ?'a = nat] by simp

lemma utf8_next_encodes:
  assumes "utf8_next bs = Some (c, r)" "\<forall>b\<in>set bs. b < 256"
  shows "encodable c \<and> bs = utf8_cp c @ r"
proof -
  obtain a q where bs: "bs = a # q" using assms(1) by (cases bs) auto
  consider "a < 0x80" | "0xC0 \<le> a" "a < 0xE0" | "0xE0 \<le> a" "a < 0xF0" | "0xF0 \<le> a" "a < 0xF8"
    using assms(1) bs by (fastforce split: if_splits)
  then show ?thesis
  proof cases
    case 1
    with assms bs show ?thesis by (auto simp: encodable_def surrogate_def utf8_cp_def)
  next
    case 2
    with assms bs obtain b where q: "q = b # r" "cont b" "0x80 \<le> c"
      and c: "c = (a - 0xC0) * 64 + (b - 0x80)"
      by (auto simp: Let_def split: list.splits if_splits)
    from q(2) have b: "b - 0x80 < 64" "0x80 \<le> b" by (auto simp: cont_def)
    have "c div 64 = a - 0xC0" "c mod 64 = b - 0x80"
      unfolding c using b(1) by (rule div_mod_add_64)+
    moreover have "c < 0x800" using c b 2 by linarith
    ultimately show ?thesis
      using 2 q bs b by (auto simp: utf8_cp_def encodable_def surrogate_def)
  next
    case 3
    with assms bs obtain b b' where q: "q = b # b' # r" "cont b" "cont b'" "0x800 \<le> c"
      "\<not> surrogate c" and c: "c = (a - 0xE0) * 4096 + (b - 0x80) * 64 + (b' - 0x80)"
      by (auto simp: Let_def split: list.splits if_splits)
    from q(2,3) have b: "b - 0x80 < 64" "0x80 \<le> b" "b' - 0x80 < 64" "0x80 \<le> b'"
      by (auto simp: cont_def)
    have c64: "c = ((a - 0xE0) * 64 + (b - 0x80)) * 64 + (b' - 0x80)" using c by simp
    have d: "c div 64 = (a - 0xE0) * 64 + (b - 0x80)" "c mod 64 = b' - 0x80"
      unfolding c64 using b(3) by (rule div_mod_add_64)+
    have s: "c div 4096 = c div 64 div 64" by (simp flip: div_mult2_eq)
    have "c div 4096 = a - 0xE0" "c div 64 mod 64 = b - 0x80"
      unfolding s d using b(1) by (rule div_mod_add_64)+
    moreover have "c < 0x10000" using c b 3 by linarith
    ultimately show ?thesis
      using 3 q bs b d by (auto simp: utf8_cp_def encodable_def)
  next
    case 4
    with assms bs obtain b b' b'' where q: "q = b # b' # b'' # r" "cont b" "cont b'" "cont b''"
      "0x10000 \<le> c" "c < 0x110000"
      and c: "c = (a - 0xF0) * 262144 + (b - 0x80) * 4096 + (b' - 0x80) * 64 + (b'' - 0x80)"
      by (auto simp: Let_def split: list.splits if_splits)
    from q(2-4) have b: "b - 0x80 < 64" "0x80 \<le> b" "b' - 0x80 < 64" "0x80 \<le> b'"
      "b'' - 0x80 < 64" "0x80 \<le> b''"
      by (auto simp: cont_def)
    have c64: "c = (((a - 0xF0) * 64 + (b - 0x80)) * 64 + (b' - 0x80)) * 64 + (b'' - 0x80)"
      using c by simp
    have d: "c div 64 = ((a - 0xF0) * 64 + (b - 0x80)) * 64 + (b' - 0x80)"
      "c mod 64 = b'' - 0x80"
      unfolding c64 using b(5) by (rule div_mod_add_64)+
    have s: "c div 4096 = c div 64 div 64" "c div 262144 = c div 64 div 64 div 64"
      by (simp_all flip: div_mult2_eq)
    have e: "c div 4096 = (a - 0xF0) * 64 + (b - 0x80)" "c div 64 mod 64 = b' - 0x80"
      unfolding s(1) d using b(3) by (rule div_mod_add_64)+
    have s': "c div 262144 = c div 4096 div 64" unfolding s ..
    have "c div 262144 = a - 0xF0" "c div 4096 mod 64 = b - 0x80"
      unfolding s' e using b(1) by (rule div_mod_add_64)+
    with e d have "utf8_cp c = [a, b, b', b'']"
      using 4 q(5) b by (simp add: utf8_cp_def)
    with q bs show ?thesis by (simp add: encodable_def surrogate_def)
  qed
qed

lemma utf8_decode_nats_encodes:
  "utf8_decode_nats bs = Some s \<Longrightarrow> \<forall>b\<in>set bs. b < 256 \<Longrightarrow>
   list_all encodable s \<and> bs = concat (map utf8_cp s)"
proof (induction bs arbitrary: s rule: utf8_decode_nats.induct)
  case (1 bs)
  show ?case
  proof (cases "bs = []")
    case True
    with 1 show ?thesis by (simp add: utf8_decode_nats.simps)
  next
    case False
    with "1.prems"(1) obtain c r s' where n: "utf8_next bs = Some (c, r)"
      and s': "utf8_decode_nats r = Some s'" "s = c # s'"
      by (subst (asm) utf8_decode_nats.simps) (auto split: option.splits)
    have e: "encodable c" "bs = utf8_cp c @ r"
      using utf8_next_encodes [OF n "1.prems"(2)] by auto
    with "1.IH" [OF False n refl s'(1)] "1.prems"(2) s'(2) show ?thesis by auto
  qed
qed

lemma utf8_decode_encode: "utf8_decode bs = Some s \<Longrightarrow> utf8_encode s = Some bs"
proof -
  assume a: "utf8_decode bs = Some s"
  have b: "\<forall>b\<in>set (map unat bs). b < 256"
    by (auto simp: unat_byte)
  have "list_all encodable s" "map unat bs = concat (map utf8_cp s)"
    using utf8_decode_nats_encodes [OF a [unfolded utf8_decode_def] b] by auto
  moreover have "map of_nat (map unat bs) = bs"
    by (simp add: map_idI)
  ultimately show ?thesis by (simp add: utf8_encode_def)
qed

section \<open>Decoding a truncated encoding\<close>

text \<open>
  \<open>fit n s\<close> is the longest prefix of \<open>s\<close> whose encoding has at most \<open>n\<close> bytes; decoding the
  first \<open>n\<close> bytes of an encoding with \<open>errors="ignore"\<close> gives exactly that prefix.
\<close>

fun fit :: "nat \<Rightarrow> pystr \<Rightarrow> pystr" where
  "fit n [] = []"
| "fit n (c # s) =
     (if length (utf8_cp c) \<le> n then c # fit (n - length (utf8_cp c)) s else [])"

lemma utf8_ignore_cp:
  "encodable c \<Longrightarrow>
   utf8_decode_nats_ignore (utf8_cp c @ r) = c # utf8_decode_nats_ignore r"
  by (subst utf8_decode_nats_ignore.simps) (simp add: utf8_next_cp)

lemma utf8_ignore_Nil [simp]: "utf8_decode_nats_ignore [] = []"
  by (simp add: utf8_decode_nats_ignore.simps)

lemma utf8_ignore_skip:
  "utf8_next (b # bs) = None \<Longrightarrow>
   utf8_decode_nats_ignore (b # bs) = utf8_decode_nats_ignore bs"
  by (subst utf8_decode_nats_ignore.simps) simp

lemma utf8_next_cont: "cont b \<Longrightarrow> utf8_next (b # bs) = None"
  by (simp add: cont_def)

lemma utf8_ignore_conts: "list_all cont bs \<Longrightarrow> utf8_decode_nats_ignore bs = []"
  by (induction bs) (simp_all add: utf8_ignore_skip [OF utf8_next_cont])

lemma utf8_next_short:
  assumes "0xC0 \<le> a" "length bs < (if a < 0xE0 then 1 else if a < 0xF0 then 2 else 3)"
  shows "utf8_next (a # bs) = None"
  using assms by (cases bs rule: list.exhaust [case_product list.exhaust])
    (auto split: list.splits if_splits)

lemma utf8_cp_shape:
  assumes "encodable c" and "0x80 \<le> c"
  obtains a bs where "utf8_cp c = a # bs" "list_all cont bs" "0xC0 \<le> a"
    "length bs = (if a < 0xE0 then 1 else if a < 0xF0 then 2 else 3)"
proof -
  have lim: "c < 0x110000" using assms(1) by (simp add: encodable_def)
  have m: "cont (0x80 + x mod 64)" for x :: nat by (simp add: cont_def)
  have d: "c < 0x800 \<Longrightarrow> c div 64 < 32" "c < 0x10000 \<Longrightarrow> c div 4096 < 16" by simp_all
  show thesis
    by (rule that [of "hd (utf8_cp c)" "tl (utf8_cp c)"])
      (use assms(2) d m in \<open>auto simp: utf8_cp_def\<close>)
qed

lemma utf8_ignore_partial:
  assumes "encodable c" and "n < length (utf8_cp c)"
  shows "utf8_decode_nats_ignore (take n (utf8_cp c)) = []"
proof (cases "c < 0x80")
  case True
  with assms(2) show ?thesis by (simp add: utf8_cp_def)
next
  case False
  then obtain a bs where c: "utf8_cp c = a # bs" "list_all cont bs" "0xC0 \<le> a"
    "length bs = (if a < 0xE0 then 1 else if a < 0xF0 then 2 else 3)"
    using utf8_cp_shape assms(1) by (metis linorder_not_less)
  show ?thesis
  proof (cases n)
    case (Suc k)
    with assms(2) c have "utf8_next (a # take k bs) = None"
      by (intro utf8_next_short) auto
    moreover have "list_all cont (take k bs)"
      using c(2) by (auto simp: list_all_iff dest: in_set_takeD)
    ultimately show ?thesis
      using Suc c(1) by (simp add: utf8_ignore_skip utf8_ignore_conts)
  qed simp
qed

lemma utf8_ignore_take:
  "list_all encodable s \<Longrightarrow>
   utf8_decode_nats_ignore (take n (concat (map utf8_cp s))) = fit n s"
proof (induction s arbitrary: n)
  case Nil
  show ?case by simp
next
  case (Cons c s)
  show ?case
  proof (cases "length (utf8_cp c) \<le> n")
    case True
    then have "take n (concat (map utf8_cp (c # s)))
        = utf8_cp c @ take (n - length (utf8_cp c)) (concat (map utf8_cp s))"
      by simp
    with True Cons show ?thesis by (simp add: utf8_ignore_cp)
  next
    case False
    with Cons.prems show ?thesis by (simp add: utf8_ignore_partial)
  qed
qed

lemma fit_prefix: "\<exists>k. fit n s = take k s"
proof (induction s arbitrary: n)
  case (Cons c s)
  then obtain k where "fit (n - length (utf8_cp c)) s = take k s" by blast
  then show ?case
    by (cases "length (utf8_cp c) \<le> n") (auto intro: exI [of _ "Suc k"] exI [of _ 0])
qed simp

lemma fit_length: "(\<Sum>c\<leftarrow>fit n s. length (utf8_cp c)) \<le> n"
proof (induction s arbitrary: n)
  case (Cons c s)
  from Cons.IH [of "n - length (utf8_cp c)"] show ?case by auto
qed simp

lemma fit_maximal:
  "(\<Sum>c\<leftarrow>take k s. length (utf8_cp c)) \<le> n \<Longrightarrow> length (take k s) \<le> length (fit n s)"
proof (induction s arbitrary: k n)
  case (Cons c s)
  show ?case
  proof (cases k)
    case (Suc k')
    with Cons.prems
    have "length (utf8_cp c) \<le> n"
      and "(\<Sum>x\<leftarrow>take k' s. length (utf8_cp x)) \<le> n - length (utf8_cp c)"
      by auto
    with Cons.IH [of k' "n - length (utf8_cp c)"] Suc show ?thesis by simp
  qed simp
qed simp

section \<open>Decimal text\<close>

fun str_nat :: "nat \<Rightarrow> pystr" where
  "str_nat n = (if n < 10 then [48 + n] else str_nat (n div 10) @ [48 + n mod 10])"

declare str_nat.simps [simp del]

definition str_int :: "int \<Rightarrow> pystr" where
  "str_int i = (if i < 0 then 45 # str_nat (nat (- i)) else str_nat (nat i))"

definition read_nat :: "pystr \<Rightarrow> nat" where
  "read_nat s = foldl (\<lambda>a d. a * 10 + (d - 48)) 0 s"

lemma read_str_nat: "read_nat (str_nat n) = n"
proof (induction n rule: str_nat.induct)
  case (1 n)
  show ?case
  proof (cases "n < 10")
    case True
    then show ?thesis by (subst str_nat.simps) (simp add: read_nat_def)
  next
    case False
    with "1.IH" have "read_nat (str_nat (n div 10)) = n div 10" by simp
    with False show ?thesis by (subst str_nat.simps) (simp add: read_nat_def)
  qed
qed

lemma str_nat_inject [simp]: "str_nat m = str_nat n \<longleftrightarrow> m = n"
  by (metis read_str_nat)

lemma str_nat_nonempty [simp]: "str_nat n \<noteq> []"
  by (subst str_nat.simps) simp

text \<open>The contract between the two directions of a text codec, used by the frame codec.\<close>

locale text_codec =
  fixes enc :: "pystr \<Rightarrow> byte list option" and dec :: "byte list \<Rightarrow> pystr option"
  assumes dec_enc: "enc s = Some bs \<Longrightarrow> dec bs = Some s"
    and enc_empty: "enc s = Some [] \<longleftrightarrow> s = []"
begin

lemma enc_inject: "enc s = Some bs \<Longrightarrow> enc t = Some bs \<Longrightarrow> s = t"
  by (metis dec_enc option.inject)

end

interpretation utf8: text_codec utf8_encode utf8_decode
  by unfold_locales (auto simp: utf8_encode_eq_Nil dest: utf8_roundtrip)

end
