(* ===== verification/Messages.thy ===== *)
theory Messages
  imports Py_Text
begin

text \<open>
  The data that travels: the exception classes, JSON values, payloads, event names, the
  message model and its constructor, and the replies a push resolves to
  (\<open>exceptions.py\<close>, \<open>protocol.py\<close>, \<open>messages.py\<close>, \<open>utils.py\<close>, \<open>replies.py\<close>).
\<close>

section \<open>Exceptions\<close>

text \<open>
  The classes of \<open>exceptions.py\<close> and the built-in classes the code raises or catches, with
  their message (a closed connection with the close frames received and sent, a refused
  handshake with its HTTP status). A cause chained by \<open>raise from\<close> is not kept. \<open>UnicodeError\<close>,
  \<open>JSONDecodeError\<close> and pydantic's \<open>ValidationError\<close> are subclasses of \<open>ValueError\<close>.
\<close>

datatype exn =
    ClientError pystr
  | ChannelError pystr
  | PushTimeoutError pystr
  | SocketError pystr
  | TimeoutError
  | ValueError pystr
  | TypeError pystr
  | RuntimeError pystr
  | OverflowError
  | RecursionError
  | ConnectionClosed "(int \<times> pystr) option" "(int \<times> pystr) option"
  | InvalidStatus int
  | CancelledError
  | OtherError pystr

text \<open>\<open>isinstance(e, ChannelError)\<close>: a push timeout is a channel error.\<close>

fun is_channel_error :: "exn \<Rightarrow> bool" where
  "is_channel_error (ChannelError _) = True"
| "is_channel_error (PushTimeoutError _) = True"
| "is_channel_error _ = False"

fun is_socket_error :: "exn \<Rightarrow> bool" where
  "is_socket_error (SocketError _) = True"
| "is_socket_error _ = False"

fun is_client_error :: "exn \<Rightarrow> bool" where
  "is_client_error (ClientError _) = True"
| "is_client_error e = (is_channel_error e \<or> is_socket_error e)"

text \<open>\<open>CancelledError\<close> is not an \<open>Exception\<close>, only a \<open>BaseException\<close>.\<close>

definition is_exception :: "exn \<Rightarrow> bool" where
  "is_exception e \<longleftrightarrow> e \<noteq> CancelledError"

fun exn_text :: "exn \<Rightarrow> pystr" where
  "exn_text (ClientError s) = s"
| "exn_text (ChannelError s) = s"
| "exn_text (PushTimeoutError s) = s"
| "exn_text (SocketError s) = s"
| "exn_text (ValueError s) = s"
| "exn_text (TypeError s) = s"
| "exn_text (RuntimeError s) = s"
| "exn_text (OtherError s) = s"
| "exn_text _ = []"

section \<open>Protocol versions\<close>

datatype protocol_version = V1 | V2

fun protocol_text :: "protocol_version \<Rightarrow> pystr" where
  "protocol_text V1 = lit ''1.0''"
| "protocol_text V2 = lit ''2.0''"

fun vsn :: "protocol_version \<Rightarrow> pystr" where
  "vsn V1 = lit ''1.0.0''"
| "vsn V2 = lit ''2.0.0''"

definition default_protocol_version :: protocol_version where
  "default_protocol_version = V2"

text \<open>\<open>ProtocolVersion(value)\<close>: an unknown text is a \<open>ValueError\<close>.\<close>

definition protocol_version_of :: "pystr \<Rightarrow> exn + protocol_version" where
  "protocol_version_of s =
     (if s = protocol_text V1 then Inr V1
      else if s = protocol_text V2 then Inr V2
      else Inl (ValueError s))"

section \<open>JSON values and payloads\<close>

text \<open>
  A JSON value as Python holds it. A float is kept as its text; \<open>JOther\<close> is any other
  object an application may put in a payload.
\<close>

datatype json =
    JNull
  | JBool bool
  | JInt int
  | JFloat pystr
  | JStr pystr
  | JList "json list"
  | JDict "(pystr \<times> json) list"
  | JOther nat

datatype payload = PDict "(pystr, json) dict" | PBytes "byte list"

text \<open>What a caller may pass as a payload, before it is checked.\<close>

datatype pyval = VDict "(pystr, json) dict" | VBytes "byte list" | VBytesSubclass "byte list" | VOther

fun require_payload :: "pyval \<Rightarrow> exn + payload" where
  "require_payload (VDict d) = Inr (PDict d)"
| "require_payload (VBytes b) = Inr (PBytes b)"
| "require_payload _ = Inl (TypeError (lit ''Payload must be a dict or bytes''))"

section \<open>Events\<close>

datatype system_event = SysClose | SysError | SysJoin | SysReply | SysLeave

fun system_event_text :: "system_event \<Rightarrow> pystr" where
  "system_event_text SysClose = lit ''phx_close''"
| "system_event_text SysError = lit ''phx_error''"
| "system_event_text SysJoin = lit ''phx_join''"
| "system_event_text SysReply = lit ''phx_reply''"
| "system_event_text SysLeave = lit ''phx_leave''"

definition system_events :: "system_event list" where
  "system_events = [SysClose, SysError, SysJoin, SysReply, SysLeave]"

lemma system_event_text_inject [simp]:
  "system_event_text a = system_event_text b \<longleftrightarrow> a = b"
  by (cases a; cases b) simp_all

lemma system_events_all [simp]: "e \<in> set system_events"
  by (cases e) (simp_all add: system_events_def)

text \<open>
  An event name: a member of \<open>SystemEvent\<close> or a plain string. \<open>SystemEvent\<close> is a
  \<open>StrEnum\<close>, so the two compare by their text.
\<close>

datatype event = System system_event | Custom pystr

fun event_text :: "event \<Rightarrow> pystr" where
  "event_text (System e) = system_event_text e"
| "event_text (Custom s) = s"

definition event_is :: "event \<Rightarrow> system_event \<Rightarrow> bool" where
  "event_is e se \<longleftrightarrow> event_text e = system_event_text se"

definition client_lifecycle :: "event \<Rightarrow> bool" where
  "client_lifecycle e \<longleftrightarrow> event_is e SysError \<or> event_is e SysClose"

definition phoenix_topic :: pystr where
  "phoenix_topic = lit ''phoenix''"

definition heartbeat_event :: pystr where
  "heartbeat_event = lit ''heartbeat''"

text \<open>\<open>SystemEvent(value)\<close> finds the member with that text.\<close>

definition system_event_of :: "pystr \<Rightarrow> system_event option" where
  "system_event_of s = find (\<lambda>e. system_event_text e = s) system_events"

fun parse_event :: "event \<Rightarrow> event" where
  "parse_event (System e) = System e"
| "parse_event (Custom s) =
     (case system_event_of s of Some e \<Rightarrow> System e | None \<Rightarrow> Custom s)"

lemma system_event_of_text [simp]: "system_event_of (system_event_text e) = Some e"
  by (cases e) (simp_all add: system_event_of_def system_events_def)

lemma system_event_of_Some: "system_event_of s = Some e \<Longrightarrow> s = system_event_text e"
  by (auto simp: system_event_of_def find_Some_iff)

lemma system_event_of_None:
  "system_event_of s = None \<longleftrightarrow> (\<forall>e. s \<noteq> system_event_text e)"
  by (metis not_None_eq system_event_of_Some system_event_of_text)

lemma parse_event_text [simp]: "event_text (parse_event e) = event_text e"
  by (cases e) (auto split: option.splits dest: system_event_of_Some)

text \<open>
  A canonical event: what \<open>parse_event\<close> returns. On canonical events the comparison by
  text and the comparison of members agree.
\<close>

definition canonical :: "event \<Rightarrow> bool" where
  "canonical e \<longleftrightarrow> parse_event e = e"

lemma parse_event_canonical [simp]: "canonical (parse_event e)"
  by (cases e) (auto simp: canonical_def split: option.splits)

lemma canonical_eq_iff:
  assumes "canonical a" "canonical b"
  shows "a = b \<longleftrightarrow> event_text a = event_text b"
  using assms
  by (cases a; cases b)
    (auto simp: canonical_def split: option.splits dest: system_event_of_Some)

lemma canonical_event_is: "canonical e \<Longrightarrow> event_is e se \<longleftrightarrow> e = System se"
  using canonical_eq_iff [of e "System se"] by (simp add: event_is_def canonical_def)

lemma event_is_System [simp]: "event_is (System a) b \<longleftrightarrow> a = b"
  by (simp add: event_is_def)

section \<open>Messages\<close>

text \<open>
  \<open>SystemMessage\<close> and \<open>UserMessage\<close> have the same fields; which of the two a message is
  shows in its event.
\<close>

record message =
  m_topic :: pystr
  m_event :: event
  m_ref :: "pystr option"
  m_join_ref :: "pystr option"
  m_payload :: payload

definition make_message ::
  "event \<Rightarrow> pystr \<Rightarrow> pystr option \<Rightarrow> payload option \<Rightarrow> pystr option \<Rightarrow> message" where
  "make_message event topic ref payload join_ref =
     \<lparr>m_topic = topic, m_event = parse_event event, m_ref = ref, m_join_ref = join_ref,
      m_payload = (case payload of None \<Rightarrow> PDict [] | Some p \<Rightarrow> p)\<rparr>"

fun is_system_message :: "message \<Rightarrow> bool" where
  "is_system_message m = (case m_event m of System _ \<Rightarrow> True | Custom _ \<Rightarrow> False)"

text \<open>The part of the topic after the first colon.\<close>

definition subtopic :: "message \<Rightarrow> pystr option" where
  "subtopic m =
     (if 58 \<notin> set (m_topic m) then None
      else Some (tl (dropWhile (\<lambda>c. c \<noteq> 58) (m_topic m))))"

lemma make_message_canonical [simp]: "canonical (m_event (make_message e t r p j))"
  by (simp add: make_message_def)

lemma make_message_sel [simp]:
  "m_topic (make_message e t r p j) = t"
  "event_text (m_event (make_message e t r p j)) = event_text e"
  "m_ref (make_message e t r p j) = r"
  "m_join_ref (make_message e t r p j) = j"
  "m_payload (make_message e t r (Some q) j) = q"
  by (simp_all add: make_message_def)

text \<open>
  A \<open>Ref\<close> field: \<open>None\<close> and strings are kept. Any other value is left to pydantic, the
  parameter \<open>coerce\<close>: with \<open>coerce_numbers_to_str\<close> it renders a number as text and rejects
  the rest.
\<close>

fun validate_ref :: "(json \<Rightarrow> exn + pystr) \<Rightarrow> json \<Rightarrow> exn + pystr option" where
  "validate_ref coerce JNull = Inr None"
| "validate_ref coerce (JStr s) = Inr (Some s)"
| "validate_ref coerce j = andThen (coerce j) (\<lambda>s. Inr (Some s))"

section \<open>Replies\<close>

record reply =
  r_status :: pystr
  r_response :: payload

fun reply_from_message :: "message \<Rightarrow> pystr option \<Rightarrow> exn + reply" where
  "reply_from_message m (Some status) =
     (case m_payload m of
        PBytes b \<Rightarrow> Inr \<lparr>r_status = status, r_response = PBytes b\<rparr>
      | PDict _ \<Rightarrow> Inl (TypeError (lit ''Binary reply requires a bytes payload'')))"
| "reply_from_message m None =
     (case m_payload m of
        PBytes _ \<Rightarrow> Inl (TypeError (lit ''Text reply requires a response envelope''))
      | PDict d \<Rightarrow>
          (case (dict_get d (lit ''status''), dict_get d (lit ''response'')) of
             (Some (JStr s), Some (JDict r)) \<Rightarrow> Inr \<lparr>r_status = s, r_response = PDict r\<rparr>
           | _ \<Rightarrow> Inl (TypeError
                 (lit ''Reply must contain a string status and a response map''))))"

text \<open>The payload's \<open>status\<close> entry is the string \<open>s\<close>.\<close>

definition status_is :: "payload \<Rightarrow> string \<Rightarrow> bool" where
  "status_is p s \<longleftrightarrow>
     (case p of PDict d \<Rightarrow> dict_get d (lit ''status'') = Some (JStr (lit s)) | PBytes _ \<Rightarrow> False)"

lemma reply_from_message_error:
  "reply_from_message m b = Inl e \<Longrightarrow> \<exists>s. e = TypeError s"
  by (cases "(m, b)" rule: reply_from_message.cases)
    (auto split: payload.splits option.splits json.splits)

end
