(* ===== verification/Json_Text.thy ===== *)
theory Json_Text
  imports Messages
begin

text \<open>
  The two functions of Python's \<open>json\<close> module the codec calls, \<open>dumps\<close> with its default
  options (ASCII output, \<open>", "\<close> and \<open>": "\<close> as separators) and \<open>loads\<close> on a string.
  A float is its JSON text, an integer of more than 4300 digits is refused in both
  directions as the interpreter does, and the recursion limit is not modelled. The main
  fact is that \<open>loads\<close> reads back what \<open>dumps\<close> writes.
\<close>

section \<open>Writing\<close>

definition hex_digit :: "nat \<Rightarrow> nat" where
  "hex_digit d = (if d < 10 then 48 + d else 87 + d)"

text \<open>The escape \<open>\uXXXX\<close>.\<close>

definition u16 :: "nat \<Rightarrow> pystr" where
  "u16 n = [92, 117, hex_digit (n div 4096), hex_digit (n div 256 mod 16),
            hex_digit (n div 16 mod 16), hex_digit (n mod 16)]"

definition escape_char :: "nat \<Rightarrow> pystr" where
  "escape_char c =
     (if c = 34 then [92, 34]
      else if c = 92 then [92, 92]
      else if c = 10 then [92, 110]
      else if c = 13 then [92, 114]
      else if c = 9 then [92, 116]
      else if c = 12 then [92, 102]
      else if c = 8 then [92, 98]
      else if 32 \<le> c \<and> c \<le> 126 then [c]
      else if c < 0x10000 then u16 c
      else u16 (0xD800 + (c - 0x10000) div 1024) @ u16 (0xDC00 + (c - 0x10000) mod 1024))"

definition quote :: "pystr \<Rightarrow> pystr" where
  "quote s = 34 # concat (map escape_char s) @ [34]"

fun join :: "pystr \<Rightarrow> pystr list \<Rightarrow> pystr" where
  "join sep [] = []"
| "join sep [x] = x"
| "join sep (x # y # xs) = x @ sep @ join sep (y # xs)"

definition int_max_digits :: nat where
  "int_max_digits = 4300"

definition int_too_long :: "pystr \<Rightarrow> bool" where
  "int_too_long digits \<longleftrightarrow> int_max_digits < length digits"

fun dumps :: "json \<Rightarrow> exn + pystr"
  and dumps_list :: "json list \<Rightarrow> exn + pystr list"
  and dumps_dict :: "(pystr \<times> json) list \<Rightarrow> exn + pystr list" where
  "dumps JNull = Inr (lit ''null'')"
| "dumps (JBool b) = Inr (if b then lit ''true'' else lit ''false'')"
| "dumps (JInt n) =
     (if int_too_long (str_nat (nat \<bar>n\<bar>)) then Inl (ValueError (lit ''Exceeds the limit''))
      else Inr (str_int n))"
| "dumps (JFloat t) = Inr t"
| "dumps (JStr s) = Inr (quote s)"
| "dumps (JList xs) = andThen (dumps_list xs) (\<lambda>ts. Inr ([91] @ join [44, 32] ts @ [93]))"
| "dumps (JDict d) = andThen (dumps_dict d) (\<lambda>ts. Inr ([123] @ join [44, 32] ts @ [125]))"
| "dumps (JOther n) = Inl (TypeError (lit ''Object is not JSON serializable''))"
| "dumps_list [] = Inr []"
| "dumps_list (x # xs) = andThen (dumps x) (\<lambda>t. andThen (dumps_list xs) (\<lambda>ts. Inr (t # ts)))"
| "dumps_dict [] = Inr []"
| "dumps_dict ((k, v) # d) =
     andThen (dumps v) (\<lambda>t. andThen (dumps_dict d) (\<lambda>ts. Inr ((quote k @ [58, 32] @ t) # ts)))"

section \<open>Reading\<close>

definition is_ws :: "nat \<Rightarrow> bool" where
  "is_ws c \<longleftrightarrow> c = 32 \<or> c = 9 \<or> c = 10 \<or> c = 13"

definition skip_ws :: "pystr \<Rightarrow> pystr" where
  "skip_ws s = dropWhile is_ws s"

definition is_digit :: "nat \<Rightarrow> bool" where
  "is_digit c \<longleftrightarrow> 48 \<le> c \<and> c \<le> 57"

definition hex_value :: "nat \<Rightarrow> nat option" where
  "hex_value c =
     (if 48 \<le> c \<and> c \<le> 57 then Some (c - 48)
      else if 97 \<le> c \<and> c \<le> 102 then Some (c - 87)
      else if 65 \<le> c \<and> c \<le> 70 then Some (c - 55)
      else None)"

text \<open>Four hexadecimal digits at the front.\<close>

fun read_u16 :: "pystr \<Rightarrow> (nat \<times> pystr) option" where
  "read_u16 (a # b # c # d # r) =
     (case (hex_value a, hex_value b, hex_value c, hex_value d) of
        (Some w, Some x, Some y, Some z) \<Rightarrow> Some (w * 4096 + x * 256 + y * 16 + z, r)
      | _ \<Rightarrow> None)"
| "read_u16 _ = None"

text \<open>The character after \<open>\u\<close>, joining a surrogate pair written as two escapes.\<close>

definition read_unicode :: "pystr \<Rightarrow> (nat \<times> pystr) option" where
  "read_unicode s =
     (case read_u16 s of
        None \<Rightarrow> None
      | Some (u, r) \<Rightarrow>
          if 0xD800 \<le> u \<and> u \<le> 0xDBFF \<and> take 2 r = [92, 117] then
            (case read_u16 (drop 2 r) of
               None \<Rightarrow> None
             | Some (v, r') \<Rightarrow>
                 if 0xDC00 \<le> v \<and> v \<le> 0xDFFF
                 then Some (0x10000 + (u - 0xD800) * 1024 + (v - 0xDC00), r')
                 else Some (u, r))
          else Some (u, r))"

definition simple_escape :: "nat \<Rightarrow> nat option" where
  "simple_escape e =
     (if e = 34 then Some 34 else if e = 92 then Some 92 else if e = 47 then Some 47
      else if e = 98 then Some 8 else if e = 102 then Some 12 else if e = 110 then Some 10
      else if e = 114 then Some 13 else if e = 116 then Some 9 else None)"

lemma read_u16_shorter: "read_u16 s = Some (u, r) \<Longrightarrow> length r < length s"
  by (cases s rule: read_u16.cases) (auto split: option.splits)

lemma read_unicode_shorter: "read_unicode s = Some (u, r) \<Longrightarrow> length r < length s"
  by (force simp: read_unicode_def split: option.splits prod.splits if_splits
      dest: read_u16_shorter)

text \<open>The rest of a string literal, after its opening quote.\<close>

function scan_string :: "pystr \<Rightarrow> (pystr \<times> pystr) option" where
  "scan_string s =
     (case s of
        [] \<Rightarrow> None
      | c # r \<Rightarrow>
          if c = 34 then Some ([], r)
          else if c < 32 then None
          else if c = 92 then
            (case r of
               [] \<Rightarrow> None
             | e # r' \<Rightarrow>
                 (case (if e = 117 then read_unicode r'
                        else map_option (\<lambda>u. (u, r')) (simple_escape e)) of
                    None \<Rightarrow> None
                  | Some (u, r'') \<Rightarrow> map_option (apfst ((#) u)) (scan_string r'')))
          else map_option (apfst ((#) c)) (scan_string r))"
  by pat_completeness auto
termination
  by (relation "measure length")
    (auto split: if_splits dest: read_unicode_shorter)

declare scan_string.simps [simp del]

text \<open>
  A number: sign, integer part, then an optional fraction and an optional exponent. Each
  part is split off the front, with what follows it.
\<close>

definition split_sign :: "nat list \<Rightarrow> pystr \<Rightarrow> pystr \<times> pystr" where
  "split_sign signs s =
     (case s of c # r \<Rightarrow> if c \<in> set signs then ([c], r) else ([], s) | [] \<Rightarrow> ([], s))"

definition split_digits :: "pystr \<Rightarrow> pystr \<times> pystr" where
  "split_digits s = (takeWhile is_digit s, dropWhile is_digit s)"

definition split_int :: "pystr \<Rightarrow> pystr \<times> pystr" where
  "split_int s =
     (case s of c # r \<Rightarrow> if c = 48 then ([c], r) else split_digits s | [] \<Rightarrow> ([], s))"

definition split_frac :: "pystr \<Rightarrow> pystr \<times> pystr" where
  "split_frac s =
     (case s of
        c # r \<Rightarrow>
          (case split_digits r of
             (ds, r') \<Rightarrow> if c = 46 \<and> ds \<noteq> [] then (c # ds, r') else ([], s))
      | [] \<Rightarrow> ([], s))"

definition split_exp :: "pystr \<Rightarrow> pystr \<times> pystr" where
  "split_exp s =
     (case s of
        c # r \<Rightarrow>
          (case split_sign [43, 45] r of
             (sg, r') \<Rightarrow>
               (case split_digits r' of
                  (ds, r'') \<Rightarrow>
                    if (c = 101 \<or> c = 69) \<and> ds \<noteq> [] then (c # sg @ ds, r'') else ([], s)))
      | [] \<Rightarrow> ([], s))"

definition scan_number :: "pystr \<Rightarrow> (json \<times> pystr) option" where
  "scan_number s =
     (case split_sign [45] s of
        (sg, s1) \<Rightarrow>
          (case split_int s1 of
             (ip, s2) \<Rightarrow>
               (case split_frac s2 of
                  (fr, s3) \<Rightarrow>
                    (case split_exp s3 of
                       (ex, s4) \<Rightarrow>
                         if ip = [] then None
                         else if fr = [] \<and> ex = [] then
                           (if int_too_long ip then None
                            else Some (JInt (if sg = [] then int (read_nat ip)
                                             else - int (read_nat ip)), s4))
                         else Some (JFloat (sg @ ip @ fr @ ex), s4)))))"

text \<open>The fixed words, tried in the order of the scanner.\<close>

definition json_words :: "(pystr \<times> json) list" where
  "json_words =
     [(lit ''null'', JNull), (lit ''true'', JBool True), (lit ''false'', JBool False),
      (lit ''NaN'', JFloat (lit ''NaN'')), (lit ''Infinity'', JFloat (lit ''Infinity'')),
      (lit ''-Infinity'', JFloat (lit ''-Infinity''))]"

definition scan_word :: "pystr \<Rightarrow> (json \<times> pystr) option" where
  "scan_word s =
     map_option (\<lambda>(w, v). (v, drop (length w) s))
       (find (\<lambda>(w, v). take (length w) s = w) json_words)"

definition scan_scalar :: "pystr \<Rightarrow> (json \<times> pystr) option" where
  "scan_scalar s = (case scan_word s of Some r \<Rightarrow> Some r | None \<Rightarrow> scan_number s)"

text \<open>A dictionary keeps the position of a repeated key and its last value.\<close>

definition dict_of :: "(pystr \<times> json) list \<Rightarrow> (pystr, json) dict" where
  "dict_of ms = fold (\<lambda>(k, v) d. dict_set k v d) ms []"

fun p_value :: "nat \<Rightarrow> pystr \<Rightarrow> (json \<times> pystr) option"
  and p_elems :: "nat \<Rightarrow> pystr \<Rightarrow> (json list \<times> pystr) option"
  and p_members :: "nat \<Rightarrow> pystr \<Rightarrow> ((pystr \<times> json) list \<times> pystr) option" where
  "p_value 0 s = None"
| "p_value (Suc n) s =
     (case s of
        [] \<Rightarrow> None
      | c # r \<Rightarrow>
          if c = 34 then map_option (apfst JStr) (scan_string r)
          else if c = 91 then
            (if take 1 (skip_ws r) = [93] then Some (JList [], drop 1 (skip_ws r))
             else map_option (apfst JList) (p_elems n (skip_ws r)))
          else if c = 123 then
            (if take 1 (skip_ws r) = [125] then Some (JDict [], drop 1 (skip_ws r))
             else map_option (apfst (\<lambda>ms. JDict (dict_of ms))) (p_members n (skip_ws r)))
          else scan_scalar s)"
| "p_elems 0 s = None"
| "p_elems (Suc n) s =
     (case p_value n s of
        None \<Rightarrow> None
      | Some (v, r) \<Rightarrow>
          (case skip_ws r of
             [] \<Rightarrow> None
           | d # r' \<Rightarrow>
               if d = 93 then Some ([v], r')
               else if d = 44 then map_option (apfst ((#) v)) (p_elems n (skip_ws r'))
               else None))"
| "p_members 0 s = None"
| "p_members (Suc n) s =
     (case s of
        [] \<Rightarrow> None
      | c # q \<Rightarrow>
          if c \<noteq> 34 then None
          else
            (case scan_string q of
               None \<Rightarrow> None
             | Some (k, r1) \<Rightarrow>
                 if take 1 (skip_ws r1) \<noteq> [58] then None
                 else
                   (case p_value n (skip_ws (drop 1 (skip_ws r1))) of
                      None \<Rightarrow> None
                    | Some (v, r) \<Rightarrow>
                        (case skip_ws r of
                           [] \<Rightarrow> None
                         | d # r' \<Rightarrow>
                             if d = 125 then Some ([(k, v)], r')
                             else if d = 44 then
                               map_option (apfst ((#) (k, v))) (p_members n (skip_ws r'))
                             else None))))"

text \<open>
  The nesting of calls is at most twice the length of the text, so this much fuel is
  enough (\<open>p_value_enough\<close> below).
\<close>

definition loads_fuel :: "pystr \<Rightarrow> nat" where
  "loads_fuel s = 2 * length s + 1"

definition loads :: "pystr \<Rightarrow> exn + json" where
  "loads s =
     (if take 1 s = [0xFEFF] then Inl (ValueError (lit ''Unexpected UTF-8 BOM''))
      else case p_value (loads_fuel (skip_ws s)) (skip_ws s) of
             None \<Rightarrow> Inl (ValueError (lit ''Expecting value''))
           | Some (v, r) \<Rightarrow>
               if skip_ws r = [] then Inr v else Inl (ValueError (lit ''Extra data'')))"


section \<open>The reader consumes text, and its fuel is enough\<close>

lemma skip_ws_length: "length (skip_ws s) \<le> length s"
  by (simp add: skip_ws_def length_dropWhile_le)

lemma scan_string_Nil [simp]: "scan_string [] = None"
  by (simp add: scan_string.simps)

lemma scan_string_quote [simp]: "scan_string (34 # r) = Some ([], r)"
  by (simp add: scan_string.simps)

lemma scan_string_plain:
  "32 \<le> c \<Longrightarrow> c \<noteq> 34 \<Longrightarrow> c \<noteq> 92 \<Longrightarrow>
   scan_string (c # r) = map_option (apfst ((#) c)) (scan_string r)"
  by (subst scan_string.simps) simp

lemma scan_string_escape:
  "scan_string (92 # e # r) =
     (case (if e = 117 then read_unicode r else map_option (\<lambda>u. (u, r)) (simple_escape e)) of
        None \<Rightarrow> None
      | Some (u, r') \<Rightarrow> map_option (apfst ((#) u)) (scan_string r'))"
  by (subst scan_string.simps) simp

lemma scan_string_shorter: "scan_string s = Some (t, r) \<Longrightarrow> length r < length s"
proof (induction s arbitrary: t r rule: length_induct)
  case (1 s)
  then have IH: "scan_string q = Some (t', r') \<Longrightarrow> length q < length s \<Longrightarrow> length r' < length q"
    for q t' r' by blast
  from "1.prems" obtain c q where s: "s = c # q" by (cases s) auto
  consider "c = 34" | "c < 32" | "c = 92" | "32 \<le> c" "c \<noteq> 34" "c \<noteq> 92" by linarith
  then show ?case
  proof cases
    case 3
    with "1.prems" s obtain e q' where q: "q = e # q'"
      by (cases q) (auto simp: scan_string.simps [of "[92]"])
    with "1.prems" s 3 obtain u q'' t' where
      u: "(if e = 117 then read_unicode q'
           else map_option (\<lambda>u. (u, q')) (simple_escape e)) = Some (u, q'')"
      and t': "scan_string q'' = Some (t', r)"
      by (auto simp: scan_string_escape split: option.splits if_splits)
    from u have "length q'' \<le> length q'"
      by (auto split: if_splits dest: read_unicode_shorter)
    with IH [OF t'] s q show ?thesis by simp
  next
    case 4
    with "1.prems" s obtain t' where "scan_string q = Some (t', r)"
      by (auto simp: scan_string_plain)
    from IH [OF this] s show ?thesis by simp
  qed (use "1.prems" s in \<open>auto simp: scan_string.simps [of "c # q"]\<close>)
qed

lemma scan_word_shorter: "scan_word s = Some (v, r) \<Longrightarrow> length r < length s"
  by (cases s) (auto simp: scan_word_def json_words_def lit_def split: if_splits)

lemma split_sign_append: "split_sign g s = (a, r) \<Longrightarrow> a @ r = s"
  by (auto simp: split_sign_def split: list.splits if_splits)

lemma split_digits_append: "split_digits s = (a, r) \<Longrightarrow> a @ r = s"
  by (auto simp: split_digits_def)

lemma split_int_append: "split_int s = (a, r) \<Longrightarrow> a @ r = s"
  by (auto simp: split_int_def split: list.splits if_splits dest: split_digits_append)

lemma split_frac_append: "split_frac s = (a, r) \<Longrightarrow> a @ r = s"
  by (auto simp: split_frac_def split: list.splits if_splits prod.splits
      dest: split_digits_append)

lemma split_exp_append: "split_exp s = (a, r) \<Longrightarrow> a @ r = s"
  by (auto simp: split_exp_def split: list.splits if_splits prod.splits
      dest!: split_digits_append split_sign_append)

lemmas split_appends =
  split_sign_append split_int_append split_frac_append split_exp_append

lemma scan_number_shorter: "scan_number s = Some (v, r) \<Longrightarrow> length r < length s"
  by (auto simp: scan_number_def split: prod.splits if_splits dest!: split_appends)

lemma scan_scalar_shorter: "scan_scalar s = Some (v, r) \<Longrightarrow> length r < length s"
  by (auto simp: scan_scalar_def split: option.splits
      dest: scan_word_shorter scan_number_shorter)

text \<open>Inversion: which branch produced a result.\<close>

lemma p_value_cases:
  assumes "p_value n s = Some (v, r)"
  obtains (str) k q t where "n = Suc k" "s = 34 # q" "scan_string q = Some (t, r)" "v = JStr t"
  | (empty_list) k q where "n = Suc k" "s = 91 # q" "skip_ws q = 93 # r" "v = JList []"
  | (list) k q vs where "n = Suc k" "s = 91 # q" "p_elems k (skip_ws q) = Some (vs, r)"
      "v = JList vs"
  | (empty_dict) k q where "n = Suc k" "s = 123 # q" "skip_ws q = 125 # r" "v = JDict []"
  | (dict) k q ms where "n = Suc k" "s = 123 # q" "p_members k (skip_ws q) = Some (ms, r)"
      "v = JDict (dict_of ms)"
  | (scalar) k where "n = Suc k" "scan_scalar s = Some (v, r)"
proof -
  obtain k where n: "n = Suc k" using assms by (cases n) auto
  obtain c q where s: "s = c # q" using assms n by (cases s) auto
  have take1: "w = a # drop 1 w" if "take 1 w = [a]" for w and a :: nat
    using that by (cases w) auto
  show thesis
    using assms n s str empty_list list empty_dict dict scalar take1 [of "skip_ws q"]
    by (auto split: if_splits)
qed

lemma p_elems_cases:
  assumes "p_elems n s = Some (vs, r)"
  obtains k v r1 d r' where "n = Suc k" "p_value k s = Some (v, r1)" "skip_ws r1 = d # r'"
    "d = 93 \<and> vs = [v] \<and> r = r' \<or>
     d = 44 \<and> (\<exists>us. p_elems k (skip_ws r') = Some (us, r) \<and> vs = v # us)"
proof -
  obtain k where "n = Suc k" using assms by (cases n) auto
  with assms that show thesis
    by (auto split: option.splits prod.splits list.splits if_splits)
qed

lemma p_members_cases:
  assumes "p_members n s = Some (ms, r)"
  obtains k q key r1 r2 v r3 d r' where "n = Suc k" "s = 34 # q"
    "scan_string q = Some (key, r1)" "skip_ws r1 = 58 # r2"
    "p_value k (skip_ws r2) = Some (v, r3)" "skip_ws r3 = d # r'"
    "d = 125 \<and> ms = [(key, v)] \<and> r = r' \<or>
     d = 44 \<and> (\<exists>us. p_members k (skip_ws r') = Some (us, r) \<and> ms = (key, v) # us)"
proof -
  obtain k where n: "n = Suc k" using assms by (cases n) auto
  obtain q where s: "s = 34 # q" using assms n by (cases s) (auto split: if_splits)
  obtain key r1 where k: "scan_string q = Some (key, r1)"
    using assms n s by (auto split: option.splits)
  obtain r2 where r1: "skip_ws r1 = 58 # r2"
    using assms n s k by (cases "skip_ws r1") (auto split: if_splits)
  show thesis
    using assms n s k r1 that
    by (auto split: option.splits prod.splits list.splits if_splits)
qed

lemma take_1_eq: "take (Suc 0) w = [a] \<longleftrightarrow> (\<exists>r. w = a # r)"
  by (cases w) auto

lemma skip_ws_Cons: "skip_ws s = c # r \<Longrightarrow> length r < length s"
  using skip_ws_length [of s] by simp

lemma p_shorter:
  "(p_value n s = Some (v, r) \<longrightarrow> length r < length s) \<and>
   (p_elems n s = Some (vs, r) \<longrightarrow> length r < length s) \<and>
   (p_members n s = Some (ms, r) \<longrightarrow> length r < length s)"
proof (induction n arbitrary: s v vs ms r)
  case (Suc n)
  have IH: "p_value n a = Some (x, b) \<Longrightarrow> length b < length a"
    "p_elems n a = Some (xs, b) \<Longrightarrow> length b < length a"
    "p_members n a = Some (xms, b) \<Longrightarrow> length b < length a" for a b x xs xms
    using Suc by blast+
  note L = IH [THEN order_less_le_trans, OF _ skip_ws_length] skip_ws_Cons
    scan_string_shorter scan_scalar_shorter
  have "length r < length s" if a: "p_value (Suc n) s = Some (v, r)"
    using a by (cases rule: p_value_cases) (auto dest: L less_SucI)
  moreover have "length r < length s" if a: "p_elems (Suc n) s = Some (vs, r)"
    using a by (cases rule: p_elems_cases) (fastforce dest: L IH)
  moreover have "length r < length s" if a: "p_members (Suc n) s = Some (ms, r)"
    using a by (cases rule: p_members_cases) (fastforce dest: L)
  ultimately show ?case by blast
qed simp

lemma p_stable:
  "(2 * length s \<le> n \<longrightarrow> p_value (Suc n) s = p_value n s) \<and>
   (2 * length s + 1 \<le> n \<longrightarrow> p_elems (Suc n) s = p_elems n s) \<and>
   (2 * length s + 1 \<le> n \<longrightarrow> p_members (Suc n) s = p_members n s)"
proof (induction n arbitrary: s)
  case (Suc n)
  have V: "p_value (Suc n) a = p_value n a" if "2 * length a \<le> n" for a
    using Suc that by blast
  have E: "p_elems (Suc n) (skip_ws a) = p_elems n (skip_ws a)" if "2 * length a + 1 \<le> n" for a
    using Suc [of "skip_ws a"] that skip_ws_length [of a] by simp
  have M: "p_members (Suc n) (skip_ws a) = p_members n (skip_ws a)"
    if "2 * length a + 1 \<le> n" for a
    using Suc [of "skip_ws a"] that skip_ws_length [of a] by simp
  have "p_value (Suc (Suc n)) s = p_value (Suc n) s" if "2 * length s \<le> Suc n"
  proof (cases s)
    case (Cons c q)
    with that E [of q] M [of q] show ?thesis
      by (simp del: p_elems.simps p_members.simps)
  qed simp
  moreover have "p_elems (Suc (Suc n)) s = p_elems (Suc n) s" if le: "2 * length s + 1 \<le> Suc n"
  proof (cases "p_value n s")
    case (Some vr)
    obtain v r where vr: "vr = (v, r)" by (cases vr)
    with Some have "length r < length s" using p_shorter by blast
    then have "p_elems (Suc n) (skip_ws r') = p_elems n (skip_ws r')" if "skip_ws r = d # r'" for d r'
      using skip_ws_Cons [OF that] le by (intro E) simp
    with Some vr V [of s] le show ?thesis
      by (auto simp del: p_value.simps p_elems.simps
          simp: p_elems.simps(2) [of "Suc n"] p_elems.simps(2) [of n] split: list.splits)
  qed (use V [of s] le in \<open>simp del: p_value.simps\<close>)
  moreover have "p_members (Suc (Suc n)) s = p_members (Suc n) s"
    if le: "2 * length s + 1 \<le> Suc n"
  proof (cases "\<exists>q k r1 r2. s = 34 # q \<and> scan_string q = Some (k, r1) \<and> skip_ws r1 = 58 # r2")
    case True
    then obtain q k r1 r2 where q: "s = 34 # q" "scan_string q = Some (k, r1)"
      "skip_ws r1 = 58 # r2" by blast
    then have r2: "2 * length (skip_ws r2) + 2 \<le> n"
      using skip_ws_Cons [OF q(3)] scan_string_shorter [OF q(2)] skip_ws_length [of r2] le by simp
    have "p_members (Suc n) (skip_ws r') = p_members n (skip_ws r')"
      if "p_value n (skip_ws r2) = Some (v, r)" "skip_ws r = d # r'" for v r d r'
    proof (rule M)
      have "length r < length (skip_ws r2)" using p_shorter that(1) by blast
      then show "2 * length r' + 1 \<le> n" using skip_ws_Cons [OF that(2)] r2 by simp
    qed
    with q V [of "skip_ws r2"] r2 show ?thesis
      by (auto simp del: p_value.simps p_members.simps
          simp: p_members.simps(2) [of "Suc n"] p_members.simps(2) [of n]
          split: list.splits option.splits)
  next
    case False
    then have none: "p_members (Suc m) s = None" for m
      by (auto simp: take_1_eq split: list.splits option.splits)
    show ?thesis unfolding none ..
  qed
  ultimately show ?case by blast
qed simp

lemma p_value_enough: "2 * length s \<le> n \<Longrightarrow> p_value n s = p_value (loads_fuel s) s"
proof (induction n rule: nat_induct_at_least [of "2 * length s"])
  case base
  then show ?case using p_stable [of s "2 * length s"] by (simp add: loads_fuel_def)
next
  case (Suc n)
  then show ?case using p_stable [of s n] by simp
qed

lemma p_mono:
  "(p_value n s = Some v \<longrightarrow> p_value (Suc n) s = Some v) \<and>
   (p_elems n s = Some vs \<longrightarrow> p_elems (Suc n) s = Some vs) \<and>
   (p_members n s = Some ms \<longrightarrow> p_members (Suc n) s = Some ms)"
proof (induction n arbitrary: s v vs ms)
  case (Suc n)
  have I: "p_value n a = Some x \<Longrightarrow> p_value (Suc n) a = Some x"
    "p_elems n a = Some xs \<Longrightarrow> p_elems (Suc n) a = Some xs"
    "p_members n a = Some xms \<Longrightarrow> p_members (Suc n) a = Some xms" for a x xs xms
    using Suc by blast+
  note [simp del] = p_value.simps p_elems.simps p_members.simps
  have "p_value (Suc (Suc n)) s = Some v" if "p_value (Suc n) s = Some v"
    using that I
    by (auto simp: p_value.simps(2) [of n s] p_value.simps(2) [of "Suc n" s]
        split: list.splits if_splits)
  moreover have "p_elems (Suc (Suc n)) s = Some vs" if a: "p_elems (Suc n) s = Some vs"
    using that I
    by (auto simp: p_elems.simps(2) [of n s] p_elems.simps(2) [of "Suc n" s]
        split: list.splits if_splits option.splits prod.splits)
  moreover have "p_members (Suc (Suc n)) s = Some ms" if a: "p_members (Suc n) s = Some ms"
    using that I
    by (auto simp: p_members.simps(2) [of n s] p_members.simps(2) [of "Suc n" s]
        split: list.splits if_splits option.splits prod.splits)
  ultimately show ?case by blast
qed simp

section \<open>Scalars are read back\<close>

text \<open>What may follow a value: nothing a number could continue with.\<close>

definition delim :: "pystr \<Rightarrow> bool" where
  "delim s \<longleftrightarrow>
     (case s of [] \<Rightarrow> True
      | c # _ \<Rightarrow> \<not> is_digit c \<and> c \<noteq> 46 \<and> c \<noteq> 69 \<and> c \<noteq> 101 \<and> c \<noteq> 43 \<and> c \<noteq> 45)"

lemma delim_simps [simp]:
  "delim []" "delim (44 # r)" "delim (93 # r)" "delim (125 # r)"
  by (simp_all add: delim_def is_digit_def)

lemma split_sign_delim:
  "set g \<subseteq> {43, 45} \<Longrightarrow> delim rest \<Longrightarrow> split_sign g s = (a, r) \<Longrightarrow>
   split_sign g (s @ rest) = (a, r @ rest)"
  by (auto simp: split_sign_def delim_def split: list.splits if_splits)

lemma split_digits_delim:
  "delim rest \<Longrightarrow> split_digits s = (a, r) \<Longrightarrow> split_digits (s @ rest) = (a, r @ rest)"
  by (induction s arbitrary: a) (auto simp: split_digits_def delim_def split: list.splits)

lemma split_int_delim:
  assumes "delim rest" "split_int s = (a, r)"
  shows "split_int (s @ rest) = (a, r @ rest)"
proof (cases s)
  case Nil
  with assms show ?thesis
    by (auto simp: split_int_def delim_def is_digit_def split_digits_def split: list.splits)
next
  case (Cons c q)
  with assms split_digits_delim [of rest s] show ?thesis
    by (auto simp: split_int_def split: if_splits)
qed

lemma split_frac_delim:
  assumes "delim rest" "split_frac s = (a, r)"
  shows "split_frac (s @ rest) = (a, r @ rest)"
proof (cases s)
  case Nil
  with assms show ?thesis
    by (auto simp: split_frac_def delim_def split: list.splits prod.splits)
next
  case (Cons c q)
  obtain ds q' where "split_digits q = (ds, q')" by (cases "split_digits q")
  with Cons assms split_digits_delim [of rest q ds q'] show ?thesis
    by (auto simp: split_frac_def split: if_splits)
qed

lemma split_exp_delim:
  assumes "delim rest" "split_exp s = (a, r)"
  shows "split_exp (s @ rest) = (a, r @ rest)"
proof (cases s)
  case Nil
  with assms show ?thesis
    by (auto simp: split_exp_def delim_def split: list.splits prod.splits)
next
  case (Cons c q)
  obtain sg q1 where 1: "split_sign [43, 45] q = (sg, q1)" by (cases "split_sign [43, 45] q")
  obtain ds q2 where 2: "split_digits q1 = (ds, q2)" by (cases "split_digits q1")
  have "split_sign [43, 45] (q @ rest) = (sg, q1 @ rest)"
    using split_sign_delim [OF _ assms(1) 1] by simp
  with Cons assms 1 2 split_digits_delim [OF assms(1) 2] show ?thesis
    by (auto simp: split_exp_def split: if_splits)
qed

lemma scan_number_delim:
  assumes "delim rest" "scan_number s = Some (v, [])"
  shows "scan_number (s @ rest) = Some (v, rest)"
proof -
  obtain sg s1 where 1: "split_sign [45] s = (sg, s1)" by (cases "split_sign [45] s")
  obtain ip s2 where 2: "split_int s1 = (ip, s2)" by (cases "split_int s1")
  obtain fr s3 where 3: "split_frac s2 = (fr, s3)" by (cases "split_frac s2")
  obtain ex s4 where 4: "split_exp s3 = (ex, s4)" by (cases "split_exp s3")
  have "split_sign [45] (s @ rest) = (sg, s1 @ rest)"
    using split_sign_delim [OF _ assms(1) 1] by simp
  then show ?thesis
    using assms 1 2 3 4 split_int_delim [OF assms(1) 2] split_frac_delim [OF assms(1) 3]
      split_exp_delim [OF assms(1) 4]
    by (auto simp: scan_number_def split: if_splits)
qed

text \<open>A number's text starts with a digit, or with a minus sign and a digit.\<close>

definition number_start :: "pystr \<Rightarrow> bool" where
  "number_start s \<longleftrightarrow>
     (case s of [] \<Rightarrow> False
      | c # r \<Rightarrow> is_digit c \<or> c = 45 \<and> (case r of [] \<Rightarrow> False | d # _ \<Rightarrow> is_digit d))"

lemma split_int_start: "split_int s = (a, r) \<Longrightarrow> a \<noteq> [] \<Longrightarrow> \<exists>c q. s = c # q \<and> is_digit c"
  by (cases s) (auto simp: split_int_def split_digits_def is_digit_def split: if_splits)

lemma scan_number_start: "scan_number s = Some (v, r) \<Longrightarrow> number_start (s @ t)"
  by (auto simp: scan_number_def number_start_def split_sign_def is_digit_def
      split: prod.splits if_splits list.splits dest!: split_int_start)

lemma number_start_word: "number_start s \<Longrightarrow> scan_word s = None"
  by (cases s)
    (auto simp: number_start_def scan_word_def json_words_def lit_def is_digit_def
      split: list.splits)

lemma number_start_head:
  "number_start (c # r) \<Longrightarrow> \<not> is_ws c \<and> c \<noteq> 34 \<and> c \<noteq> 91 \<and> c \<noteq> 93 \<and> c \<noteq> 123 \<and> c \<noteq> 125"
  by (auto simp: number_start_def is_digit_def is_ws_def)

lemma p_value_number:
  assumes "scan_number s = Some (v, [])" "delim rest"
  shows "p_value 1 (s @ rest) = Some (v, rest)"
proof -
  have n: "number_start (s @ rest)" using scan_number_start assms(1) .
  then obtain c q where c: "s @ rest = c # q" by (cases "s @ rest") (auto simp: number_start_def)
  have "scan_scalar (s @ rest) = Some (v, rest)"
    using number_start_word [OF n] scan_number_delim [OF assms(2,1)] by (simp add: scan_scalar_def)
  with number_start_head n c show ?thesis by simp
qed

lemma str_nat_digits: "list_all is_digit (str_nat n)"
proof (induction n rule: str_nat.induct)
  case (1 n)
  have "list_all is_digit [48 + n mod 10]" "n < 10 \<Longrightarrow> is_digit (48 + n)"
    by (simp_all add: is_digit_def)
  with 1 show ?case by (subst str_nat.simps) simp
qed

lemma str_nat_head: "0 < n \<Longrightarrow> hd (str_nat n) \<noteq> 48"
proof (induction n rule: str_nat.induct)
  case (1 n)
  then show ?case by (subst str_nat.simps) auto
qed

lemma split_int_str_nat: "split_int (str_nat n) = (str_nat n, [])"
proof (cases "n = 0")
  case True
  then show ?thesis by (simp add: str_nat.simps split_int_def)
next
  case False
  obtain c q where c: "str_nat n = c # q" by (cases "str_nat n") auto
  with False str_nat_head [of n] have "c \<noteq> 48" by simp
  moreover have "takeWhile is_digit (str_nat n) = str_nat n"
    using str_nat_digits [of n] by (simp add: list_all_iff)
  moreover have "dropWhile is_digit (str_nat n) = []"
    using str_nat_digits [of n] by (simp add: list_all_iff)
  ultimately show ?thesis using c by (simp add: split_int_def split_digits_def)
qed

lemma scan_number_int:
  assumes "\<not> int_too_long (str_nat (nat \<bar>i\<bar>))"
  shows "scan_number (str_int i) = Some (JInt i, [])"
proof -
  have e: "split_frac [] = ([], [])" "split_exp [] = ([], [])"
    by (simp_all add: split_frac_def split_exp_def)
  have h: "\<exists>c q. str_nat n = c # q \<and> c \<noteq> 45" for n
    using str_nat_digits [of n] by (cases "str_nat n") (auto simp: is_digit_def)
  show ?thesis
  proof (cases "i < 0")
    case True
    with assms show ?thesis
      by (simp add: str_int_def scan_number_def split_sign_def split_int_str_nat e read_str_nat)
  next
    case False
    obtain c q where "str_nat (nat i) = c # q" "c \<noteq> 45" using h by blast
    then have "split_sign [45] (str_nat (nat i)) = ([], str_nat (nat i))"
      by (simp add: split_sign_def)
    with False assms show ?thesis
      by (simp add: str_int_def scan_number_def split_int_str_nat e read_str_nat)
  qed
qed

section \<open>Strings are read back\<close>

lemma hex_value_digit: "d < 16 \<Longrightarrow> hex_value (hex_digit d) = Some d"
  by (auto simp: hex_value_def hex_digit_def)

lemma u16_digits:
  fixes n :: nat
  shows "n div 4096 * 4096 + n div 256 mod 16 * 256 + n div 16 mod 16 * 16 + n mod 16 = n"
proof -
  have d: "n div 256 = n div 16 div 16" "n div 4096 = n div 16 div 16 div 16"
    by (simp_all flip: div_mult2_eq)
  have a: "x div 16 * 16 + x mod 16 = x" for x :: nat by simp
  show ?thesis
    using a [of n] a [of "n div 16"] a [of "n div 16 div 16"] unfolding d by linarith
qed

lemma read_u16_u16: "n < 65536 \<Longrightarrow> read_u16 (drop 2 (u16 n) @ r) = Some (n, r)"
proof -
  assume "n < 65536"
  then have "n div 4096 < 16" by simp
  then have "hex_value (hex_digit (n div 4096)) = Some (n div 4096)"
    by (rule hex_value_digit)
  then show ?thesis
    using u16_digits [of n] by (simp add: u16_def hex_value_digit)
qed

lemma u16_split: "u16 n = 92 # 117 # drop 2 (u16 n)"
  by (simp add: u16_def)

lemma scan_escape_char:
  assumes "encodable c"
  shows "scan_string (escape_char c @ r) = map_option (apfst ((#) c)) (scan_string r)"
proof -
  have lim: "c < 0x110000" "\<not> surrogate c"
    using assms by (auto simp: encodable_def)
  note E = scan_string_escape simple_escape_def
  have one: "scan_string (u16 c @ r) = map_option (apfst ((#) c)) (scan_string r)"
    if "c < 0x10000"
  proof -
    have "read_unicode (drop 2 (u16 c) @ r) = Some (c, r)"
      using that lim(2) read_u16_u16 [of c r] by (auto simp: read_unicode_def surrogate_def)
    then show ?thesis by (subst u16_split) (simp add: scan_string_escape)
  qed
  have two: "scan_string (u16 (0xD800 + (c - 0x10000) div 1024)
      @ u16 (0xDC00 + (c - 0x10000) mod 1024) @ r) = map_option (apfst ((#) c)) (scan_string r)"
    if "0x10000 \<le> c"
  proof -
    define h where "h = 0xD800 + (c - 0x10000) div 1024"
    define l where "l = 0xDC00 + (c - 0x10000) mod 1024"
    have "(c - 0x10000) div 1024 < 1024" using lim(1) by simp
    then have h: "0xD800 \<le> h" "h \<le> 0xDBFF" and l: "0xDC00 \<le> l" "l \<le> 0xDFFF"
      by (auto simp: h_def l_def)
    have whole: "0x10000 + (h - 0xD800) * 1024 + (l - 0xDC00) = c"
      using that by (simp add: h_def l_def)
    have "take 2 (u16 l @ r) = [92, 117]" by (simp add: u16_def)
    moreover have "read_u16 (drop 2 (u16 l @ r)) = Some (l, r)"
      using l read_u16_u16 [of l r] by (simp add: u16_def)
    ultimately have "read_unicode (drop 2 (u16 h) @ u16 l @ r) = Some (c, r)"
      using h l whole read_u16_u16 [of h "u16 l @ r"] by (simp add: read_unicode_def)
    then have "scan_string (u16 h @ u16 l @ r) = map_option (apfst ((#) c)) (scan_string r)"
      by (subst u16_split) (simp add: scan_string_escape)
    then show ?thesis unfolding h_def l_def .
  qed
  show ?thesis
    using one two by (auto simp: escape_char_def E scan_string_plain)
qed

lemma scan_quote:
  "list_all encodable s \<Longrightarrow> scan_string (concat (map escape_char s) @ 34 # r) = Some (s, r)"
  by (induction s) (simp_all add: scan_escape_char)

section \<open>Every value is read back\<close>

text \<open>
  The values \<open>loads\<close> can give back: no foreign object, no lone surrogate, floats in JSON
  notation, distinct keys.
\<close>

definition float_text :: "pystr \<Rightarrow> bool" where
  "float_text t \<longleftrightarrow>
     t \<in> {lit ''NaN'', lit ''Infinity'', lit ''-Infinity''} \<or>
     scan_number t = Some (JFloat t, [])"

fun json_ok :: "json \<Rightarrow> bool" where
  "json_ok (JFloat t) = float_text t"
| "json_ok (JStr s) = list_all encodable s"
| "json_ok (JList xs) = list_all json_ok xs"
| "json_ok (JDict d) =
     (distinct (map fst d) \<and> list_all (\<lambda>kv. list_all encodable (fst kv) \<and> json_ok (snd kv)) d)"
| "json_ok (JOther _) = False"
| "json_ok _ = True"

lemma dict_of_distinct: "distinct (map fst ms) \<Longrightarrow> dict_of ms = ms"
proof -
  have "distinct (map fst (acc @ ms)) \<Longrightarrow> fold (\<lambda>(k, v) d. dict_set k v d) ms acc = acc @ ms"
    for acc
  proof (induction ms arbitrary: acc)
    case (Cons m ms)
    obtain k v where m: "m = (k, v)" by (cases m)
    with Cons.prems have "k \<notin> fst ` set acc" by auto
    with Cons.IH [of "acc @ [m]"] Cons.prems m show ?case by (simp add: dict_set_new)
  qed simp
  from this [of "[]"] show "distinct (map fst ms) \<Longrightarrow> ?thesis" by (simp add: dict_of_def)
qed

lemma p_value_word:
  "(w, v) \<in> set json_words \<Longrightarrow> delim rest \<Longrightarrow> p_value 1 (w @ rest) = Some (v, rest)"
  by (auto simp: json_words_def lit_def scan_scalar_def scan_word_def)

lemma p_value_float: "float_text t \<Longrightarrow> delim rest \<Longrightarrow> p_value 1 (t @ rest) = Some (JFloat t, rest)"
  using p_value_number [of t "JFloat t"] p_value_word [of t "JFloat t"]
  by (auto simp: float_text_def json_words_def)

text \<open>The first character of a written value.\<close>

definition value_head :: "pystr \<Rightarrow> bool" where
  "value_head s \<longleftrightarrow> (case s of [] \<Rightarrow> False | c # _ \<Rightarrow> \<not> is_ws c \<and> c \<noteq> 93 \<and> c \<noteq> 125)"

lemma value_head_append: "value_head s \<Longrightarrow> value_head (s @ r)"
  by (cases s) (auto simp: value_head_def)

lemma skip_ws_head: "value_head s \<Longrightarrow> skip_ws s = s"
  by (cases s) (auto simp: value_head_def skip_ws_def)

lemma number_start_value: "number_start s \<Longrightarrow> value_head s"
  by (cases s) (auto simp: value_head_def number_start_def is_digit_def is_ws_def)

lemma dumps_head:
  assumes "dumps j = Inr t" "json_ok j"
  shows "value_head t"
proof (cases j)
  case (JInt i)
  with assms(1) have "scan_number t = Some (JInt i, [])"
    by (auto simp: scan_number_int split: if_splits)
  from scan_number_start [OF this, of "[]"] show ?thesis by (simp add: number_start_value)
next
  case (JFloat f)
  with assms have f: "t = f" "float_text f" by auto
  then show ?thesis
    using scan_number_start [of f "JFloat f" "[]" "[]"]
    by (auto simp: float_text_def value_head_def lit_def is_ws_def
        dest: number_start_value [unfolded value_head_def])
qed (use assms in \<open>auto simp: value_head_def lit_def is_ws_def quote_def andThen_Inr_iff\<close>)

text \<open>More fuel is harmless, so the fuel of two calls can be taken together.\<close>

lemma p_mono_le:
  assumes "m \<le> n"
  shows "p_value m s = Some v \<Longrightarrow> p_value n s = Some v"
    and "p_elems m s = Some vs \<Longrightarrow> p_elems n s = Some vs"
    and "p_members m s = Some ms \<Longrightarrow> p_members n s = Some ms"
proof -
  have "(p_value m s = Some v \<longrightarrow> p_value n s = Some v) \<and>
    (p_elems m s = Some vs \<longrightarrow> p_elems n s = Some vs) \<and>
    (p_members m s = Some ms \<longrightarrow> p_members n s = Some ms)"
    using assms
  proof (induction n rule: dec_induct)
    case (step n)
    then show ?case using p_mono [of n s v vs ms] by blast
  qed simp
  then show "p_value m s = Some v \<Longrightarrow> p_value n s = Some v"
    "p_elems m s = Some vs \<Longrightarrow> p_elems n s = Some vs"
    "p_members m s = Some ms \<Longrightarrow> p_members n s = Some ms" by blast+
qed

definition reads_value :: "pystr \<Rightarrow> json \<Rightarrow> bool" where
  "reads_value t j \<longleftrightarrow> (\<forall>rest. delim rest \<longrightarrow> (\<exists>n. p_value n (t @ rest) = Some (j, rest)))"

lemma reads_valueI:
  "(\<And>rest. delim rest \<Longrightarrow> p_value n (t @ rest) = Some (j, rest)) \<Longrightarrow> reads_value t j"
  unfolding reads_value_def by blast

definition reads_elems :: "pystr list \<Rightarrow> json list \<Rightarrow> bool" where
  "reads_elems ts xs \<longleftrightarrow>
     (\<forall>rest. \<exists>n. p_elems n (join [44, 32] ts @ 93 # rest) = Some (xs, rest))"

definition reads_members :: "pystr list \<Rightarrow> (pystr \<times> json) list \<Rightarrow> bool" where
  "reads_members ts d \<longleftrightarrow>
     (\<forall>rest. \<exists>n. p_members n (join [44, 32] ts @ 125 # rest) = Some (d, rest))"

lemma join_Cons: "ts \<noteq> [] \<Longrightarrow> join sep (t # ts) = t @ sep @ join sep ts"
  by (cases ts) auto

lemma join_head: "ts \<noteq> [] \<Longrightarrow> value_head (hd ts) \<Longrightarrow> value_head (join sep ts)"
  by (cases ts; cases "tl ts") (auto simp: value_head_append)

lemma skip_ws_simps [simp]:
  "skip_ws (32 # s) = skip_ws s" "skip_ws (44 # s) = 44 # s"
  "skip_ws (93 # s) = 93 # s" "skip_ws (125 # s) = 125 # s" "skip_ws (58 # s) = 58 # s"
  "skip_ws (34 # s) = 34 # s" "skip_ws [] = []"
  by (simp_all add: skip_ws_def is_ws_def)

lemma reads_elems_Cons:
  assumes v: "reads_value t x"
    and es: "ts \<noteq> [] \<Longrightarrow> reads_elems ts xs \<and> value_head (hd ts)"
    and len: "length xs = length ts"
  shows "reads_elems (t # ts) (x # xs)"
  unfolding reads_elems_def
proof
  fix rest
  show "\<exists>n. p_elems n (join [44, 32] (t # ts) @ 93 # rest) = Some (x # xs, rest)"
  proof (cases "ts = []")
    case True
    obtain n where "p_value n (t @ 93 # rest) = Some (x, 93 # rest)"
      using v by (force simp: reads_value_def)
    with True len show ?thesis by (intro exI [of _ "Suc n"]) simp
  next
    case False
    let ?j = "join [44, 32] ts @ 93 # rest"
    obtain n where n: "p_value n (t @ 44 # 32 # ?j) = Some (x, 44 # 32 # ?j)"
      using v by (force simp: reads_value_def)
    obtain m where m: "p_elems m ?j = Some (xs, rest)"
      using es False by (force simp: reads_elems_def)
    have "skip_ws ?j = ?j"
      using es False by (intro skip_ws_head value_head_append join_head) auto
    then show ?thesis
      using p_mono_le(1) [OF _ n, of "max n m"] p_mono_le(2) [OF _ m, of "max n m"] False
      by (intro exI [of _ "Suc (max n m)"]) (simp add: join_Cons)
  qed
qed

lemma reads_members_Cons:
  assumes k: "list_all encodable k" and v: "reads_value t x" "value_head t"
    and es: "ts \<noteq> [] \<Longrightarrow> reads_members ts d \<and> value_head (hd ts)"
    and len: "length d = length ts"
  shows "reads_members ((quote k @ [58, 32] @ t) # ts) ((k, x) # d)"
  unfolding reads_members_def
proof
  fix rest
  have q: "quote k @ r = 34 # concat (map escape_char k) @ 34 # r" for r
    by (simp add: quote_def)
  have s: "skip_ws (t @ r) = t @ r" for r
    using v(2) by (intro skip_ws_head value_head_append)
  show "\<exists>n. p_members n (join [44, 32] ((quote k @ [58, 32] @ t) # ts) @ 125 # rest)
      = Some ((k, x) # d, rest)"
  proof (cases "ts = []")
    case True
    obtain n where "p_value n (t @ 125 # rest) = Some (x, 125 # rest)"
      using v by (force simp: reads_value_def)
    with True len k s show ?thesis
      by (intro exI [of _ "Suc n"]) (simp add: q scan_quote)
  next
    case False
    let ?j = "join [44, 32] ts @ 125 # rest"
    obtain n where n: "p_value n (t @ 44 # 32 # ?j) = Some (x, 44 # 32 # ?j)"
      using v by (force simp: reads_value_def)
    obtain m where m: "p_members m ?j = Some (d, rest)"
      using es False by (force simp: reads_members_def)
    have "skip_ws ?j = ?j"
      using es False by (intro skip_ws_head value_head_append join_head) auto
    then show ?thesis
      using p_mono_le(1) [OF _ n, of "max n m"] p_mono_le(3) [OF _ m, of "max n m"] False k s
      by (intro exI [of _ "Suc (max n m)"]) (simp add: join_Cons q scan_quote)
  qed
qed

lemma quote_head: "value_head (quote k @ r)"
  by (simp add: quote_def value_head_def is_ws_def)

lemma dumps_length:
  "dumps_list xs = Inr ts \<Longrightarrow> length ts = length xs"
  "dumps_dict d = Inr ts \<Longrightarrow> length ts = length d"
proof -
  show "dumps_list xs = Inr ts \<Longrightarrow> length ts = length xs"
    by (induction xs arbitrary: ts) (auto simp: andThen_Inr_iff)
  show "dumps_dict d = Inr ts \<Longrightarrow> length ts = length d"
    by (induction d arbitrary: ts) (auto simp: andThen_Inr_iff)
qed

lemma dumps_reads:
  "(\<forall>t. dumps j = Inr t \<longrightarrow> json_ok j \<longrightarrow> reads_value t j)"
  "(\<forall>ts. dumps_list xs = Inr ts \<longrightarrow> list_all json_ok xs \<longrightarrow> xs \<noteq> [] \<longrightarrow>
      reads_elems ts xs \<and> value_head (hd ts))"
  "(\<forall>ts. dumps_dict d = Inr ts \<longrightarrow>
      list_all (\<lambda>kv. list_all encodable (fst kv) \<and> json_ok (snd kv)) d \<longrightarrow> d \<noteq> [] \<longrightarrow>
      reads_members ts d \<and> value_head (hd ts))"
proof (induction j and xs and d rule: dumps_dumps_list_dumps_dict.induct)
  case 1
  show ?case by (auto intro!: reads_valueI p_value_word simp: json_words_def)
next
  case (2 b)
  show ?case by (auto intro!: reads_valueI p_value_word simp: json_words_def)
next
  case (3 i)
  show ?case by (auto intro!: reads_valueI p_value_number scan_number_int split: if_splits)
next
  case (4 t)
  show ?case by (auto intro!: reads_valueI p_value_float)
next
  case (5 s)
  have "p_value 1 (quote s @ r) = Some (JStr s, r)" if "list_all encodable s" for r
    using that by (simp add: quote_def scan_quote)
  then show ?case by (auto intro!: reads_valueI simp del: p_value.simps)
next
  case (6 xs)
  show ?case
  proof (intro allI impI)
    fix t assume t: "dumps (JList xs) = Inr t" and ok: "json_ok (JList xs)"
    then obtain ts where ts: "dumps_list xs = Inr ts" "t = 91 # join [44, 32] ts @ [93]"
      by (auto simp: andThen_Inr_iff)
    show "reads_value t (JList xs)"
    proof (cases "xs = []")
      case True
      with ts have "p_value 1 (t @ r) = Some (JList xs, r)" for r by simp
      then show ?thesis by (rule reads_valueI)
    next
      case False
      with 6 ts ok have e: "reads_elems ts xs" "value_head (hd ts)" "ts \<noteq> []"
        using dumps_length(1) [OF ts(1)] by auto
      show ?thesis unfolding reads_value_def
      proof (intro allI impI)
        fix rest :: pystr
        let ?j = "join [44, 32] ts @ 93 # rest"
        have h: "value_head ?j" using e by (intro value_head_append join_head)
        obtain n where "p_elems n ?j = Some (xs, rest)" using e by (force simp: reads_elems_def)
        with skip_ws_head [OF h] h show "\<exists>n. p_value n (t @ rest) = Some (JList xs, rest)"
          by (intro exI [of _ "Suc n"]) (auto simp: ts(2) value_head_def take_1_eq)
      qed
    qed
  qed
next
  case (7 d)
  show ?case
  proof (intro allI impI)
    fix t assume t: "dumps (JDict d) = Inr t" and ok: "json_ok (JDict d)"
    then obtain ts where ts: "dumps_dict d = Inr ts" "t = 123 # join [44, 32] ts @ [125]"
      by (auto simp: andThen_Inr_iff)
    show "reads_value t (JDict d)"
    proof (cases "d = []")
      case True
      with ts have "p_value 1 (t @ r) = Some (JDict d, r)" for r by simp
      then show ?thesis by (rule reads_valueI)
    next
      case False
      with 7 ts ok have e: "reads_members ts d" "value_head (hd ts)" "ts \<noteq> []"
        using dumps_length(2) [OF ts(1)] by auto
      show ?thesis unfolding reads_value_def
      proof (intro allI impI)
        fix rest :: pystr
        let ?j = "join [44, 32] ts @ 125 # rest"
        have h: "value_head ?j" using e by (intro value_head_append join_head)
        obtain n where "p_members n ?j = Some (d, rest)"
          using e by (force simp: reads_members_def)
        with skip_ws_head [OF h] h ok show "\<exists>n. p_value n (t @ rest) = Some (JDict d, rest)"
          by (intro exI [of _ "Suc n"])
            (auto simp: ts(2) value_head_def take_1_eq dict_of_distinct)
      qed
    qed
  qed
next
  case (10 x xs)
  show ?case
  proof (intro allI impI)
    fix ts assume d: "dumps_list (x # xs) = Inr ts" and ok: "list_all json_ok (x # xs)"
    then obtain t us where u: "dumps x = Inr t" "dumps_list xs = Inr us" "ts = t # us"
      by (auto simp: andThen_Inr_iff)
    with 10 ok dumps_length(1) [OF u(2)] have "reads_elems ts (x # xs)"
      by (auto intro!: reads_elems_Cons)
    with dumps_head [OF u(1)] ok u(3)
    show "reads_elems ts (x # xs) \<and> value_head (hd ts)" by simp
  qed
next
  case (12 k v d)
  show ?case
  proof (intro allI impI)
    fix ts assume dd: "dumps_dict ((k, v) # d) = Inr ts"
      and ok: "list_all (\<lambda>kv. list_all encodable (fst kv) \<and> json_ok (snd kv)) ((k, v) # d)"
    then obtain t us where u: "dumps v = Inr t" "dumps_dict d = Inr us"
      "ts = (quote k @ [58, 32] @ t) # us"
      by (auto simp: andThen_Inr_iff)
    with 12 ok dumps_length(2) [OF u(2)] dumps_head [OF u(1)] have "reads_members ts ((k, v) # d)"
      by (auto intro!: reads_members_Cons simp del: append.simps)
    with u(3) quote_head show "reads_members ts ((k, v) # d) \<and> value_head (hd ts)" by simp
  qed
qed simp_all

lemma loads_dumps:
  assumes "dumps j = Inr t" "json_ok j"
  shows "loads t = Inr j"
proof -
  have h: "value_head t" using assms by (rule dumps_head)
  have "reads_value t j" using dumps_reads(1) assms by blast
  then obtain n where n: "p_value n (t @ []) = Some (j, [])"
    unfolding reads_value_def using delim_simps(1) by blast
  then have "p_value (max n (2 * length t)) t = Some (j, [])"
    using p_mono_le(1) [of n "max n (2 * length t)" t] by simp
  then have v: "p_value (loads_fuel t) t = Some (j, [])"
    using p_value_enough [of t "max n (2 * length t)"] by simp
  have "take 1 t \<noteq> [0xFEFF]"
  proof
    assume "take 1 t = [0xFEFF]"
    then obtain r where "t = 0xFEFF # r" by (auto simp: take_1_eq)
    with n show False
      by (cases n) (auto simp: scan_scalar_def scan_word_def json_words_def lit_def
          scan_number_def split_sign_def split_int_def split_digits_def is_digit_def
          split: if_splits prod.splits)
  qed
  with v skip_ws_head [OF h] show ?thesis by (simp add: loads_def)
qed

text \<open>The contract of a text codec of JSON values, discharged by the two functions.\<close>

locale json_codec =
  fixes ser :: "json \<Rightarrow> exn + pystr" and par :: "pystr \<Rightarrow> exn + json"
    and ok :: "json \<Rightarrow> bool"
  assumes par_ser: "ser j = Inr t \<Longrightarrow> ok j \<Longrightarrow> par t = Inr j"
begin

lemma ser_inject: "ser a = Inr t \<Longrightarrow> ser b = Inr t \<Longrightarrow> ok a \<Longrightarrow> ok b \<Longrightarrow> a = b"
  using par_ser by (metis Inr_inject)

end

interpretation json_text: json_codec dumps loads json_ok
  by unfold_locales (rule loads_dumps)

end
