(* ===== verification/Codec.thy ===== *)
theory Codec
  imports Json_Text
begin

text \<open>
  The frame codec of \<open>codec.py\<close>: text frames of both protocol versions, binary frames in
  the layout \<open>kind, one length byte per header field, the fields, the payload\<close>, and the two
  entry points \<open>decode_message\<close> and \<open>encode_message\<close>. Client and server binary pushes differ:
  the client's carries four header fields, the server's three.
\<close>

section \<open>Kinds and frames\<close>

definition max_header_field_bytes :: nat where
  "max_header_field_bytes = 255"

datatype binary_kind = PUSH | REPLY | BROADCAST

fun kind_byte :: "binary_kind \<Rightarrow> byte" where
  "kind_byte PUSH = 0"
| "kind_byte REPLY = 1"
| "kind_byte BROADCAST = 2"

definition kind_of :: "byte \<Rightarrow> exn + binary_kind" where
  "kind_of b =
     (if b = kind_byte PUSH then Inr PUSH
      else if b = kind_byte REPLY then Inr REPLY
      else if b = kind_byte BROADCAST then Inr BROADCAST
      else Inl (ValueError (lit ''not a valid BinaryKind'')))"

fun server_header_fields :: "binary_kind \<Rightarrow> nat" where
  "server_header_fields PUSH = 3"
| "server_header_fields REPLY = 4"
| "server_header_fields BROADCAST = 2"

text \<open>A websocket message: text, bytes, or an object that is neither.\<close>

datatype ws_frame = TextFrame pystr | BinaryFrame "byte list" | OtherFrame

record decoded_message =
  d_message :: message
  d_binary_reply_status :: "pystr option"

record raw_frame =
  f_join_ref :: json
  f_ref :: json
  f_topic :: json
  f_event :: json
  f_payload :: json

section \<open>Text frames\<close>

fun json_type_name :: "json \<Rightarrow> pystr" where
  "json_type_name JNull = lit ''NoneType''"
| "json_type_name (JBool _) = lit ''bool''"
| "json_type_name (JInt _) = lit ''int''"
| "json_type_name (JFloat _) = lit ''float''"
| "json_type_name (JStr _) = lit ''str''"
| "json_type_name (JList _) = lit ''list''"
| "json_type_name (JDict _) = lit ''dict''"
| "json_type_name (JOther _) = lit ''object''"

text \<open>\<open>parsed.get(key)\<close>: a missing key reads as \<open>None\<close>.\<close>

definition get_field :: "(pystr, json) dict \<Rightarrow> string \<Rightarrow> json" where
  "get_field d k = (case dict_get d (lit k) of None \<Rightarrow> JNull | Some v \<Rightarrow> v)"

fun decode_v1 :: "json \<Rightarrow> exn + raw_frame" where
  "decode_v1 (JDict d) =
     Inr \<lparr>f_join_ref = get_field d ''join_ref'', f_ref = get_field d ''ref'',
          f_topic = get_field d ''topic'', f_event = get_field d ''event'',
          f_payload = get_field d ''payload''\<rparr>"
| "decode_v1 j =
     Inl (TypeError (lit ''Protocol v1 expects object format, got '' @ json_type_name j))"

fun decode_v2 :: "json \<Rightarrow> exn + raw_frame" where
  "decode_v2 (JList [join_ref, ref, topic, event, payload]) =
     Inr \<lparr>f_join_ref = join_ref, f_ref = ref, f_topic = topic, f_event = event,
          f_payload = payload\<rparr>"
| "decode_v2 (JList _) =
     Inl (ValueError (lit ''Protocol v2 expects 5-element array ''
       @ lit ''[join_ref, ref, topic, event, payload]''))"
| "decode_v2 j =
     Inl (TypeError (lit ''Protocol v2 expects array format, got '' @ json_type_name j))"

fun require_text :: "json \<Rightarrow> string \<Rightarrow> exn + pystr" where
  "require_text (JStr s) field =
     (if s = [] then Inl (TypeError (lit (''Message '' @ field @ '' must be a non-empty string'')))
      else Inr s)"
| "require_text _ field =
     Inl (TypeError (lit (''Message '' @ field @ '' must be a non-empty string'')))"

definition decode_text ::
  "(json \<Rightarrow> exn + pystr) \<Rightarrow> pystr \<Rightarrow> protocol_version \<Rightarrow> exn + decoded_message" where
  "decode_text coerce raw version =
     andThen (loads raw) (\<lambda>parsed.
     andThen (if version = V2 then decode_v2 parsed else decode_v1 parsed) (\<lambda>frame.
     andThen (require_text (f_topic frame) ''topic'') (\<lambda>topic.
     andThen (require_text (f_event frame) ''event'') (\<lambda>event.
     andThen (validate_ref coerce (f_ref frame)) (\<lambda>ref.
     andThen (validate_ref coerce (f_join_ref frame)) (\<lambda>join_ref.
     Inr \<lparr>d_message =
            make_message (Custom event) topic ref
              (Some (case f_payload frame of JDict d \<Rightarrow> PDict d | _ \<Rightarrow> PDict [])) join_ref,
          d_binary_reply_status = None\<rparr>))))))"

section \<open>Binary frames\<close>

text \<open>The loop over the header sizes: each field is cut off the front and decoded.\<close>

fun split_fields :: "byte list \<Rightarrow> byte list \<Rightarrow> exn + (pystr list \<times> byte list)" where
  "split_fields [] raw = Inr ([], raw)"
| "split_fields (sz # szs) raw =
     (case utf8_decode (take (unat sz) raw) of
        None \<Rightarrow> Inl (ValueError (lit ''invalid utf-8''))
      | Some text \<Rightarrow>
          andThen (split_fields szs (drop (unat sz) raw)) (\<lambda>(texts, rest).
            Inr (text # texts, rest)))"

definition binary_fields :: "byte list \<Rightarrow> nat \<Rightarrow> exn + (pystr list \<times> byte list)" where
  "binary_fields raw count =
     (let header_end = 1 + count;
          sizes = take count (drop 1 raw)
      in if length raw < header_end then Inl (ValueError (lit ''Truncated binary frame header''))
         else if length raw < header_end + sum_list (map unat sizes) then
           Inl (ValueError (lit ''Truncated binary frame fields''))
         else split_fields sizes (drop header_end raw))"

text \<open>\<open>value or None\<close> on a string.\<close>

definition or_none :: "pystr \<Rightarrow> pystr option" where
  "or_none s = (if s = [] then None else Some s)"

definition decode_kind ::
  "binary_kind \<Rightarrow> pystr list \<Rightarrow>
   exn + (pystr option \<times> pystr option \<times> pystr \<times> event \<times> pystr option)" where
  "decode_kind kind texts =
     (case (kind, texts) of
        (PUSH, [join_ref, topic, event]) \<Rightarrow>
          Inr (or_none join_ref, None, topic, Custom event, None)
      | (REPLY, [join_ref, ref, topic, status]) \<Rightarrow>
          Inr (or_none join_ref, or_none ref, topic, System SysReply, Some status)
      | (BROADCAST, [topic, event]) \<Rightarrow> Inr (None, None, topic, Custom event, None)
      | _ \<Rightarrow> Inl (ValueError (lit ''Unsupported binary frame kind'')))"

definition decode_binary :: "byte list \<Rightarrow> exn + decoded_message" where
  "decode_binary raw =
     (if raw = [] then Inl (ValueError (lit ''Empty binary frame''))
      else
        andThen (kind_of (hd raw)) (\<lambda>kind.
        andThen (binary_fields raw (server_header_fields kind)) (\<lambda>(texts, payload).
        andThen (decode_kind kind texts) (\<lambda>(join_ref, ref, topic, event, status).
        andThen (require_text (JStr topic) ''topic'') (\<lambda>topic.
        andThen (require_text (JStr (event_text event)) ''event'') (\<lambda>_.
        Inr \<lparr>d_message = make_message event topic ref (Some (PBytes payload)) join_ref,
             d_binary_reply_status = status\<rparr>))))))"

definition decode_message ::
  "(json \<Rightarrow> exn + pystr) \<Rightarrow> ws_frame \<Rightarrow> protocol_version \<Rightarrow> exn + decoded_message" where
  "decode_message coerce raw version =
     (case raw of
        BinaryFrame bs \<Rightarrow>
          if version \<noteq> V2 then Inl (TypeError (lit ''Binary frames require protocol V2''))
          else decode_binary bs
      | TextFrame s \<Rightarrow> decode_text coerce s version
      | OtherFrame \<Rightarrow> Inl (TypeError (lit ''Frames must be str or bytes'')))"

section \<open>Encoding\<close>

text \<open>The bytes of a binary frame: kind, field lengths, fields, payload.\<close>

definition pack_frame :: "binary_kind \<Rightarrow> byte list list \<Rightarrow> byte list \<Rightarrow> byte list" where
  "pack_frame kind fs payload =
     kind_byte kind # map (\<lambda>f. of_nat (length f)) fs @ concat fs @ payload"

definition or_empty :: "pystr option \<Rightarrow> pystr" where
  "or_empty r = (case r of None \<Rightarrow> [] | Some s \<Rightarrow> s)"

definition encode_utf8 :: "pystr \<Rightarrow> exn + byte list" where
  "encode_utf8 s =
     (case utf8_encode s of
        None \<Rightarrow> Inl (ValueError (lit ''surrogates not allowed'')) | Some bs \<Rightarrow> Inr bs)"

definition is_control_frame :: "message \<Rightarrow> bool" where
  "is_control_frame m \<longleftrightarrow>
     event_is (m_event m) SysJoin \<or> event_is (m_event m) SysLeave \<or>
     m_topic m = phoenix_topic \<and> event_text (m_event m) = heartbeat_event"

definition header_texts :: "message \<Rightarrow> pystr list" where
  "header_texts m =
     [or_empty (m_join_ref m), or_empty (m_ref m), m_topic m, event_text (m_event m)]"

definition encode_binary :: "message \<Rightarrow> byte list \<Rightarrow> exn + byte list" where
  "encode_binary m payload =
     (if is_control_frame m then
        Inl (TypeError (lit ''Channel control frames require a JSON object payload''))
      else
        andThen (mapR encode_utf8 (header_texts m)) (\<lambda>fs.
          if list_ex (\<lambda>f. max_header_field_bytes < length f) fs then
            Inl (ValueError (lit ''Binary frame header fields must fit in 255 UTF-8 bytes''))
          else Inr (pack_frame PUSH fs payload)))"

fun json_of_ref :: "pystr option \<Rightarrow> json" where
  "json_of_ref None = JNull"
| "json_of_ref (Some s) = JStr s"

definition text_frame :: "message \<Rightarrow> (pystr, json) dict \<Rightarrow> protocol_version \<Rightarrow> json" where
  "text_frame m d version =
     (if version = V2 then
        JList [json_of_ref (m_join_ref m), json_of_ref (m_ref m), JStr (m_topic m),
               JStr (event_text (m_event m)), JDict d]
      else
        JDict [(lit ''topic'', JStr (m_topic m)),
               (lit ''event'', JStr (event_text (m_event m))),
               (lit ''ref'', json_of_ref (m_ref m)),
               (lit ''payload'', JDict d)])"

text \<open>Only a \<open>TypeError\<close>, a \<open>ValueError\<close> or a \<open>RecursionError\<close> of \<open>dumps\<close> is translated.\<close>

definition dumps_checked :: "json \<Rightarrow> exn + pystr" where
  "dumps_checked frame =
     (case dumps frame of
        Inr t \<Rightarrow> Inr t
      | Inl e \<Rightarrow>
          (case e of
             TypeError _ \<Rightarrow> Inl (TypeError (lit ''Cannot serialize message as JSON''))
           | ValueError _ \<Rightarrow> Inl (TypeError (lit ''Cannot serialize message as JSON''))
           | RecursionError \<Rightarrow> Inl (TypeError (lit ''Cannot serialize message as JSON''))
           | _ \<Rightarrow> Inl e))"

definition encode_message :: "message \<Rightarrow> protocol_version \<Rightarrow> exn + ws_frame" where
  "encode_message m version =
     (case m_payload m of
        PBytes payload \<Rightarrow>
          if version \<noteq> V2 then Inl (TypeError (lit ''Binary frames require protocol V2''))
          else andThen (encode_binary m payload) (\<lambda>bs. Inr (BinaryFrame bs))
      | PDict d \<Rightarrow> andThen (dumps_checked (text_frame m d version)) (\<lambda>t. Inr (TextFrame t)))"

section \<open>The layout of binary frames\<close>

lemma unat_length_byte: "length f \<le> 255 \<Longrightarrow> unat (of_nat (length f) :: byte) = length f"
  by (simp add: unat_of_nat)

lemma split_fields_pack:
  "list_all2 (\<lambda>s f. utf8_encode s = Some f \<and> length f \<le> 255) texts fs \<Longrightarrow>
   split_fields (map (\<lambda>f. of_nat (length f)) fs) (concat fs @ payload)
     = Inr (texts, payload)"
proof (induction rule: list_all2_induct)
  case (Cons s ss f fs)
  then have "utf8_decode f = Some s" "unat (of_nat (length f) :: byte) = length f"
    by (auto simp: unat_length_byte utf8_roundtrip)
  with Cons.IH show ?case by simp
qed simp

lemma sum_field_lengths:
  "list_all (\<lambda>f. length f \<le> 255) fs \<Longrightarrow>
   sum_list (map unat (map (\<lambda>f. of_nat (length f) :: byte) fs)) = length (concat fs)"
  by (induction fs) (simp_all add: unat_length_byte)

lemma binary_fields_pack:
  assumes "list_all2 (\<lambda>s f. utf8_encode s = Some f \<and> length f \<le> 255) texts fs"
  shows "binary_fields (pack_frame kind fs payload) (length texts) = Inr (texts, payload)"
proof -
  have len: "length texts = length fs" using assms by (rule list_all2_lengthD)
  have "list_all (\<lambda>f. length f \<le> 255) fs"
    using assms by (auto simp: list_all2_conv_all_nth list_all_length)
  from sum_field_lengths [OF this] split_fields_pack [OF assms, of payload] len
  show ?thesis by (simp add: binary_fields_def pack_frame_def)
qed

lemma encode_utf8_Inr: "encode_utf8 s = Inr f \<longleftrightarrow> utf8_encode s = Some f"
  by (auto simp: encode_utf8_def split: option.splits)

lemma list_all2_conj_right:
  "list_all2 (\<lambda>x y. A x y \<and> P y) xs ys \<longleftrightarrow> list_all2 A xs ys \<and> list_all P ys"
proof (induction xs arbitrary: ys)
  case (Cons x xs)
  then show ?case by (cases ys) auto
qed auto

lemma mapR_encode_utf8:
  "mapR encode_utf8 xs = Inr fs \<longleftrightarrow> list_all2 (\<lambda>s f. utf8_encode s = Some f) xs fs"
  by (induction xs arbitrary: fs) (auto simp: andThen_Inr_iff encode_utf8_Inr list_all2_Cons1)

lemma encode_binary_Inr:
  "encode_binary m payload = Inr bs \<longleftrightarrow>
   \<not> is_control_frame m \<and>
   (\<exists>fs. list_all2 (\<lambda>s f. utf8_encode s = Some f \<and> length f \<le> 255) (header_texts m) fs
      \<and> bs = pack_frame PUSH fs payload)"
proof -
  have "\<not> list_ex (\<lambda>f. max_header_field_bytes < length f) fs \<longleftrightarrow> list_all (\<lambda>f. length f \<le> 255) fs"
    for fs :: "byte list list"
    by (auto simp: max_header_field_bytes_def list_ex_iff list_all_iff not_less)
  then show ?thesis
    unfolding list_all2_conj_right
    by (auto simp: encode_binary_def andThen_Inr_iff mapR_encode_utf8 split: if_splits)
qed

section \<open>What the client reads from the server's binary frames\<close>

lemma kind_of_byte [simp]: "kind_of (kind_byte k) = Inr k"
  by (cases k) (simp_all add: kind_of_def)

lemma kind_byte_inject [simp]: "kind_byte a = kind_byte b \<longleftrightarrow> a = b"
  by (cases a; cases b) simp_all

lemma kind_of_Inr: "kind_of b = Inr k \<longleftrightarrow> b = kind_byte k"
  by (cases k) (auto simp: kind_of_def split: if_splits)

lemma split_fields_Inr:
  "split_fields szs raw = Inr (texts, rest) \<Longrightarrow> sum_list (map unat szs) \<le> length raw \<Longrightarrow>
   \<exists>fs. list_all2 (\<lambda>s f. utf8_encode s = Some f \<and> length f \<le> 255) texts fs \<and>
        szs = map (\<lambda>f. of_nat (length f)) fs \<and> raw = concat fs @ rest"
proof (induction szs arbitrary: raw texts)
  case Nil
  then show ?case by auto
next
  case (Cons z szs)
  let ?f = "take (unat z) raw"
  from Cons.prems(1) obtain s ss where
    s: "utf8_decode ?f = Some s" "split_fields szs (drop (unat z) raw) = Inr (ss, rest)"
      "texts = s # ss"
    by (auto simp: andThen_Inr_iff split: option.splits)
  have "sum_list (map unat szs) \<le> length (drop (unat z) raw)"
    using Cons.prems(2) by (simp add: le_diff_conv2)
  from Cons.IH [OF s(2) this] obtain fs where
    fs: "list_all2 (\<lambda>s f. utf8_encode s = Some f \<and> length f \<le> 255) ss fs"
      "szs = map (\<lambda>f. of_nat (length f)) fs" "drop (unat z) raw = concat fs @ rest"
    by auto
  have "unat z \<le> 255" using unat_byte [of z] by simp
  moreover have "length ?f = unat z" using Cons.prems(2) by simp
  moreover have "raw = ?f @ concat fs @ rest"
    using fs(3) by (metis append_take_drop_id)
  ultimately show ?case
    using s fs utf8_decode_encode [OF s(1)]
    by (intro exI [of _ "?f # fs"]) (simp del: append_take_drop_id)
qed

lemma binary_fields_Inr:
  assumes "binary_fields raw n = Inr (texts, rest)" "raw \<noteq> []"
  obtains fs where "length texts = n"
    "list_all2 (\<lambda>s f. utf8_encode s = Some f \<and> length f \<le> 255) texts fs"
    "raw = hd raw # map (\<lambda>f. of_nat (length f)) fs @ concat fs @ rest"
proof -
  let ?szs = "take n (drop 1 raw)"
  have len: "Suc n \<le> length raw" "Suc n + sum_list (map unat ?szs) \<le> length raw"
    and sf: "split_fields ?szs (drop (Suc n) raw) = Inr (texts, rest)"
    using assms by (auto simp: binary_fields_def Let_def split: if_splits)
  have "sum_list (map unat ?szs) \<le> length (drop (Suc n) raw)"
    using len by simp
  from split_fields_Inr [OF sf this] obtain fs where
    fs: "list_all2 (\<lambda>s f. utf8_encode s = Some f \<and> length f \<le> 255) texts fs"
      "?szs = map (\<lambda>f. of_nat (length f)) fs" "drop (Suc n) raw = concat fs @ rest"
    by auto
  have "raw = hd raw # ?szs @ drop (Suc n) raw"
    using assms(2) by (cases raw) auto
  then have "raw = hd raw # map (\<lambda>f. of_nat (length f)) fs @ concat fs @ rest"
    unfolding fs(2,3) .
  moreover have "length texts = n"
    using list_all2_lengthD [OF fs(1)] arg_cong [OF fs(2), of length] len(1) by simp
  ultimately show thesis using that fs(1) by blast
qed

text \<open>
  A frame as the server lays it out: the fields of its kind, each of at most 255 bytes.
\<close>

definition server_frame :: "binary_kind \<Rightarrow> pystr list \<Rightarrow> byte list \<Rightarrow> byte list option" where
  "server_frame kind texts payload =
     (case mapR encode_utf8 texts of
        Inl _ \<Rightarrow> None
      | Inr fs \<Rightarrow>
          if list_all (\<lambda>f. length f \<le> 255) fs \<and> length texts = server_header_fields kind
          then Some (pack_frame kind fs payload) else None)"

lemma server_frame_Some:
  "server_frame kind texts payload = Some bs \<longleftrightarrow>
   length texts = server_header_fields kind \<and>
   (\<exists>fs. list_all2 (\<lambda>s f. utf8_encode s = Some f \<and> length f \<le> 255) texts fs
      \<and> bs = pack_frame kind fs payload)"
  unfolding list_all2_conj_right mapR_encode_utf8 [symmetric]
  by (auto simp: server_frame_def split: sum.splits)

lemma binary_fields_server_frame:
  "binary_fields raw (server_header_fields k) = Inr (texts, payload) \<and> raw \<noteq> [] \<and>
     hd raw = kind_byte k \<longleftrightarrow>
   server_frame k texts payload = Some raw"
proof
  assume a: "binary_fields raw (server_header_fields k) = Inr (texts, payload) \<and> raw \<noteq> [] \<and>
    hd raw = kind_byte k"
  then show "server_frame k texts payload = Some raw"
    by (elim conjE, elim binary_fields_Inr) (auto simp: server_frame_Some pack_frame_def)
next
  assume "server_frame k texts payload = Some raw"
  then obtain fs where "length texts = server_header_fields k" "raw = pack_frame k fs payload"
    "list_all2 (\<lambda>s f. utf8_encode s = Some f \<and> length f \<le> 255) texts fs"
    unfolding server_frame_Some by blast
  with binary_fields_pack [of texts fs k payload]
  show "binary_fields raw (server_header_fields k) = Inr (texts, payload) \<and> raw \<noteq> [] \<and>
    hd raw = kind_byte k"
    by (simp add: pack_frame_def)
qed

text \<open>
  Decoding succeeds exactly on the frames of that layout whose topic and event are not
  empty, and then returns their fields.
\<close>

lemma decode_binary_Inr:
  "decode_binary raw = Inr d \<longleftrightarrow>
   (\<exists>k texts payload join_ref ref topic event status.
      server_frame k texts payload = Some raw \<and>
      decode_kind k texts = Inr (join_ref, ref, topic, event, status) \<and>
      topic \<noteq> [] \<and> event_text event \<noteq> [] \<and>
      d = \<lparr>d_message = make_message event topic ref (Some (PBytes payload)) join_ref,
           d_binary_reply_status = status\<rparr>)"
  unfolding binary_fields_server_frame [symmetric]
  by (auto simp: decode_binary_def andThen_Inr_iff kind_of_Inr split: if_splits) blast+

section \<open>Round trips\<close>

lemmas text_eval =
  lit_def quote_def escape_char_def str_int_def str_nat.simps int_too_long_def int_max_digits_def

lemmas utf8_eval = lit_def utf8_encode_def utf8_cp_def encodable_def surrogate_def


lemma decode_v1_frame:
  "decode_v1 (text_frame m d V1) =
     Inr \<lparr>f_join_ref = JNull, f_ref = json_of_ref (m_ref m), f_topic = JStr (m_topic m),
          f_event = JStr (event_text (m_event m)), f_payload = JDict d\<rparr>"
  by (simp add: text_frame_def get_field_def)

lemma decode_v2_frame:
  "decode_v2 (text_frame m d V2) =
     Inr \<lparr>f_join_ref = json_of_ref (m_join_ref m), f_ref = json_of_ref (m_ref m),
          f_topic = JStr (m_topic m), f_event = JStr (event_text (m_event m)),
          f_payload = JDict d\<rparr>"
  by (simp add: text_frame_def)

lemma validate_json_of_ref [simp]: "validate_ref coerce (json_of_ref r) = Inr r"
  by (cases r) simp_all

lemma dumps_checked_Inr: "dumps_checked j = Inr t \<longleftrightarrow> dumps j = Inr t"
  by (auto simp: dumps_checked_def split: sum.splits exn.splits)

text \<open>A message the text frames can carry: all of its texts encodable, its payload JSON.\<close>

definition text_safe :: "message \<Rightarrow> bool" where
  "text_safe m \<longleftrightarrow>
     list_all encodable (m_topic m) \<and> list_all encodable (event_text (m_event m)) \<and>
     list_all encodable (or_empty (m_ref m)) \<and> list_all encodable (or_empty (m_join_ref m)) \<and>
     (case m_payload m of PDict d \<Rightarrow> json_ok (JDict d) | PBytes _ \<Rightarrow> False)"

lemma json_ok_frame:
  assumes "text_safe m" "m_payload m = PDict d"
  shows "json_ok (text_frame m d version)"
proof -
  have "json_ok (json_of_ref r)" if "list_all encodable (or_empty r)" for r
    using that by (cases r) (auto simp: or_empty_def)
  moreover have "list_all encodable (lit s)" if "s \<in> {''topic'', ''event'', ''ref'', ''payload''}" for s
    using that by (auto simp: lit_def encodable_def surrogate_def)
  ultimately show ?thesis
    using assms by (auto simp: text_safe_def text_frame_def)
qed

lemma make_message_id:
  "canonical (m_event m) \<Longrightarrow>
   make_message (Custom (event_text (m_event m))) (m_topic m) (m_ref m) (Some (m_payload m))
     (m_join_ref m) = m"
proof -
  assume c: "canonical (m_event m)"
  have "canonical (parse_event (Custom (event_text (m_event m))))" by (rule parse_event_canonical)
  with c have "parse_event (Custom (event_text (m_event m))) = m_event m"
    by (subst canonical_eq_iff) (auto simp del: parse_event.simps simp: parse_event_text)
  then show ?thesis by (simp add: make_message_def)
qed

lemma decode_text_frame:
  assumes t: "dumps (text_frame m d version) = Inr t" and d: "m_payload m = PDict d"
    and m: "text_safe m" "canonical (m_event m)" "m_topic m \<noteq> []" "event_text (m_event m) \<noteq> []"
  shows "decode_message coerce (TextFrame t) version =
    Inr \<lparr>d_message = (if version = V2 then m else m\<lparr>m_join_ref := None\<rparr>),
         d_binary_reply_status = None\<rparr>"
proof -
  have l: "loads t = Inr (text_frame m d version)"
    using t json_ok_frame [OF m(1) d] by (simp add: json_text.par_ser)
  have id: "make_message (Custom (event_text (m_event m))) (m_topic m) (m_ref m)
      (Some (PDict d)) r = m\<lparr>m_join_ref := r\<rparr>" for r
    using make_message_id [of "m\<lparr>m_join_ref := r\<rparr>"] m(2) d by simp
  show ?thesis
  proof (cases version)
    case V1
    with l id m show ?thesis
      by (simp add: decode_message_def decode_text_def decode_v1_frame)
  next
    case V2
    with l id [of "m_join_ref m"] m show ?thesis
      by (simp add: decode_message_def decode_text_def decode_v2_frame)
  qed
qed

text \<open>
  Claim C36: a text frame the client writes reads back as the message it was written from,
  for every payload JSON can carry; a V1 frame does not carry the join reference.
\<close>

theorem text_frame_roundtrip:
  assumes "encode_message m version = Inr (TextFrame t)"
    and "text_safe m" "canonical (m_event m)" "m_topic m \<noteq> []" "event_text (m_event m) \<noteq> []"
  shows "decode_message coerce (TextFrame t) version =
    Inr \<lparr>d_message = (if version = V2 then m else m\<lparr>m_join_ref := None\<rparr>),
         d_binary_reply_status = None\<rparr>"
proof -
  obtain d where d: "m_payload m = PDict d"
    using assms(2) by (cases "m_payload m") (auto simp: text_safe_def)
  with assms(1) have "dumps (text_frame m d version) = Inr t"
    by (auto simp: encode_message_def andThen_Inr_iff dumps_checked_Inr)
  then show ?thesis using d assms(2-5) by (rule decode_text_frame)
qed

definition sample_message :: message where
  "sample_message =
     make_message (Custom (lit ''new_msg'')) (lit ''room:1'') (Some (lit ''7''))
       (Some (PDict [(lit ''n'', JList [JInt (- 2), JStr (lit ''hi'')])])) (Some (lit ''3''))"

lemma text_frame_roundtrip_witness:
  "decode_message (\<lambda>_. Inl OverflowError)
     (TextFrame (lit ''[\"3\", \"7\", \"room:1\", \"new_msg\", {\"n\": [-2, \"hi\"]}]'')) V2 =
   Inr \<lparr>d_message = sample_message, d_binary_reply_status = None\<rparr>"
proof -
  have "encode_message sample_message V2 =
    Inr (TextFrame (lit ''[\"3\", \"7\", \"room:1\", \"new_msg\", {\"n\": [-2, \"hi\"]}]''))"
    by (simp add: sample_message_def encode_message_def dumps_checked_def text_frame_def text_eval)
  moreover have "text_safe sample_message"
    by (simp add: sample_message_def text_safe_def or_empty_def utf8_eval)
  moreover have "canonical (m_event sample_message)" by (simp add: sample_message_def)
  moreover have "m_topic sample_message \<noteq> []" "event_text (m_event sample_message) \<noteq> []"
    by (simp_all add: sample_message_def)
  ultimately show ?thesis
    using text_frame_roundtrip [of sample_message V2] by simp
qed

lemma ex_list_all2: "(\<exists>ys. list_all2 P xs ys) \<longleftrightarrow> (\<forall>x \<in> set xs. \<exists>y. P x y)"
proof (induction xs)
  case (Cons x xs)
  have "(\<exists>ys. list_all2 P (x # xs) ys) \<longleftrightarrow> (\<exists>y. P x y) \<and> (\<exists>ys. list_all2 P xs ys)"
    by (auto simp: list_all2_Cons1)
  with Cons show ?case by simp
qed simp

lemma encode_message_binary:
  "m_payload m = PBytes payload \<Longrightarrow>
   encode_message m V2 = Inr (BinaryFrame bs) \<longleftrightarrow> encode_binary m payload = Inr bs"
  by (auto simp: encode_message_def andThen_Inr_iff)

text \<open>
  A bytes payload is encoded under V2 exactly when the message is no control
  frame and each of its four header fields encodes to at most 255 UTF-8 bytes.
\<close>

lemma binary_push_encodable_iff:
  "m_payload m = PBytes payload \<Longrightarrow>
   (\<exists>bs. encode_message m V2 = Inr (BinaryFrame bs)) \<longleftrightarrow>
     \<not> is_control_frame m \<and>
     (\<forall>s \<in> set (header_texts m). \<exists>f. utf8_encode s = Some f \<and> length f \<le> 255)"
  unfolding encode_message_binary encode_binary_Inr by (auto simp flip: ex_list_all2)

text \<open>
  The frame of a bytes push starts with the push kind, and cutting it by its
  length bytes gives back the four header fields and the payload unchanged.
\<close>

lemma binary_push_layout:
  assumes "m_payload m = PBytes payload"
    and "encode_message m V2 = Inr (BinaryFrame bs)"
  shows "hd bs = kind_byte PUSH \<and> binary_fields bs 4 = Inr (header_texts m, payload)"
proof -
  obtain fs where fs: "bs = pack_frame PUSH fs payload"
    "list_all2 (\<lambda>s f. utf8_encode s = Some f \<and> length f \<le> 255) (header_texts m) fs"
    using assms(2) unfolding encode_message_binary [OF assms(1)] encode_binary_Inr by blast
  have "length (header_texts m) = 4" by (simp add: header_texts_def)
  with binary_fields_pack [OF fs(2), of PUSH payload] fs(1) show ?thesis
    by (simp add: pack_frame_def)
qed

definition sample_binary :: message where
  "sample_binary = sample_message\<lparr>m_payload := PBytes [1, 255]\<rparr>"

lemma binary_push_layout_witness:
  "binary_fields ([0, 1, 1, 6, 7, 51, 55] @ map of_nat (lit ''room:1'' @ lit ''new_msg'') @ [1, 255]) 4
     = Inr (header_texts sample_binary, [1, 255])"
proof -
  have "encode_message sample_binary V2 = Inr (BinaryFrame
    ([0, 1, 1, 6, 7, 51, 55] @ map of_nat (lit ''room:1'' @ lit ''new_msg'') @ [1, 255]))"
    by (simp add: sample_binary_def sample_message_def encode_message_def encode_binary_def
        is_control_frame_def event_is_def header_texts_def or_empty_def phoenix_topic_def
        encode_utf8_def utf8_eval max_header_field_bytes_def pack_frame_def)
  moreover have "m_payload sample_binary = PBytes [1, 255]" by (simp add: sample_binary_def)
  ultimately show ?thesis using binary_push_layout by blast
qed

lemma binary_push_encodable_iff_witness:
  "\<not> (\<exists>bs. encode_message (sample_binary\<lparr>m_event := System SysLeave\<rparr>) V2 = Inr (BinaryFrame bs))"
proof -
  have "m_payload (sample_binary\<lparr>m_event := System SysLeave\<rparr>) = PBytes [1, 255]"
    by (simp add: sample_binary_def)
  then show ?thesis using binary_push_encodable_iff by (simp add: is_control_frame_def)
qed

text \<open>
  What a server sends in binary frames, with the fields by name, and the bytes it sends: the number
  of the kind, a length byte for each field, the fields in the order of that kind, the payload.
\<close>

datatype server_message =
    Server_Push (sm_join_ref: pystr) (sm_topic: pystr) (sm_event: pystr) (sm_payload: "byte list")
  | Server_Reply (sm_join_ref: pystr) (sm_ref: pystr) (sm_topic: pystr) (sm_status: pystr)
      (sm_payload: "byte list")
  | Server_Broadcast (sm_topic: pystr) (sm_event: pystr) (sm_payload: "byte list")

definition wire :: "byte \<Rightarrow> pystr list \<Rightarrow> byte list \<Rightarrow> byte list option" where
  "wire code texts payload =
     (case mapR encode_utf8 texts of
        Inl _ \<Rightarrow> None
      | Inr fs \<Rightarrow>
          if list_all (\<lambda>f. length f \<le> 255) fs
          then Some (code # map (\<lambda>f. of_nat (length f)) fs @ concat fs @ payload) else None)"

fun server_bytes :: "server_message \<Rightarrow> byte list option" where
  "server_bytes (Server_Push join_ref topic event payload) = wire 0 [join_ref, topic, event] payload"
| "server_bytes (Server_Reply join_ref ref topic status payload) =
     wire 1 [join_ref, ref, topic, status] payload"
| "server_bytes (Server_Broadcast topic event payload) = wire 2 [topic, event] payload"

fun addressed :: "server_message \<Rightarrow> bool" where
  "addressed (Server_Push join_ref topic event payload) \<longleftrightarrow> topic \<noteq> [] \<and> event \<noteq> []"
| "addressed (Server_Reply join_ref ref topic status payload) \<longleftrightarrow> topic \<noteq> []"
| "addressed (Server_Broadcast topic event payload) \<longleftrightarrow> topic \<noteq> [] \<and> event \<noteq> []"

text \<open>What the client makes of it: an empty reference is no reference, a reply has the reply event.\<close>

fun received :: "server_message \<Rightarrow> decoded_message" where
  "received (Server_Push join_ref topic event payload) =
     \<lparr>d_message = \<lparr>m_topic = topic, m_event = parse_event (Custom event), m_ref = None,
        m_join_ref = (if join_ref = [] then None else Some join_ref), m_payload = PBytes payload\<rparr>,
      d_binary_reply_status = None\<rparr>"
| "received (Server_Reply join_ref ref topic status payload) =
     \<lparr>d_message = \<lparr>m_topic = topic, m_event = System SysReply,
        m_ref = (if ref = [] then None else Some ref),
        m_join_ref = (if join_ref = [] then None else Some join_ref), m_payload = PBytes payload\<rparr>,
      d_binary_reply_status = Some status\<rparr>"
| "received (Server_Broadcast topic event payload) =
     \<lparr>d_message = \<lparr>m_topic = topic, m_event = parse_event (Custom event), m_ref = None,
        m_join_ref = None, m_payload = PBytes payload\<rparr>,
      d_binary_reply_status = None\<rparr>"

lemma server_frame_wire:
  "server_frame k texts payload =
    (if length texts = server_header_fields k then wire (kind_byte k) texts payload else None)"
  by (simp add: server_frame_def wire_def pack_frame_def split: sum.split)

lemma decode_kind_layout:
  "length texts = server_header_fields k \<and> decode_kind k texts = Inr (join_ref, ref, topic, event, status) \<longleftrightarrow>
   (k = PUSH \<and> (\<exists>j e. texts = [j, topic, e] \<and> join_ref = or_none j \<and> ref = None \<and> event = Custom e \<and> status = None) \<or>
    k = REPLY \<and> (\<exists>j r x. texts = [j, r, topic, x] \<and> join_ref = or_none j \<and> ref = or_none r \<and>
      event = System SysReply \<and> status = Some x) \<or>
    k = BROADCAST \<and> (\<exists>e. texts = [topic, e] \<and> join_ref = None \<and> ref = None \<and> event = Custom e \<and> status = None))"
  by (cases k) (auto simp: decode_kind_def eval_nat_numeral length_Suc_conv)

lemma received_make:
  "received (Server_Push j t e p) = \<lparr>d_message = make_message (Custom e) t None (Some (PBytes p)) (or_none j),
     d_binary_reply_status = None\<rparr>"
  "received (Server_Reply j r t x p) =
     \<lparr>d_message = make_message (System SysReply) t (or_none r) (Some (PBytes p)) (or_none j),
      d_binary_reply_status = Some x\<rparr>"
  "received (Server_Broadcast t e p) = \<lparr>d_message = make_message (Custom e) t None (Some (PBytes p)) None,
     d_binary_reply_status = None\<rparr>"
  by (simp_all add: make_message_def or_none_def)

lemma decode_binary_wire:
  assumes "wire (kind_byte k) texts payload = Some raw" "length texts = server_header_fields k"
    "decode_kind k texts = Inr (join_ref, ref, topic, event, status)" "topic \<noteq> []" "event_text event \<noteq> []"
  shows "decode_binary raw = Inr \<lparr>d_message = make_message event topic ref (Some (PBytes payload)) join_ref,
    d_binary_reply_status = status\<rparr>"
proof -
  have "server_frame k texts payload = Some raw" using assms(1,2) by (simp add: server_frame_wire)
  with assms(3-5) show ?thesis unfolding decode_binary_Inr by blast
qed

text \<open>
  Claim C37: the client accepts a binary frame under V2 exactly when it is the bytes of a server's
  message - a push (0: join reference, topic, event), a reply (1: join reference, reference, topic,
  status) or a broadcast (2: topic, event), each field within its length byte and well-formed UTF-8 -
  whose topic and event are not empty; it then returns that message with every field in its place
  and the payload bytes as they are. Every other byte string is an error.
\<close>

theorem binary_frame_accepted_iff:
  "decode_message coerce (BinaryFrame raw) V2 = Inr d \<longleftrightarrow>
   (\<exists>x. server_bytes x = Some raw \<and> addressed x \<and> d = received x)"
proof
  assume "decode_message coerce (BinaryFrame raw) V2 = Inr d"
  then obtain k texts payload join_ref ref topic event status where
    f: "server_frame k texts payload = Some raw" "topic \<noteq> []" "event_text event \<noteq> []"
    and dk: "decode_kind k texts = Inr (join_ref, ref, topic, event, status)"
    and d: "d = \<lparr>d_message = make_message event topic ref (Some (PBytes payload)) join_ref,
      d_binary_reply_status = status\<rparr>"
    by (auto simp: decode_message_def decode_binary_Inr)
  have w: "wire (kind_byte k) texts payload = Some raw" "length texts = server_header_fields k"
    using f(1) by (simp_all add: server_frame_wire split: if_splits)
  from conjI [OF w(2) dk, unfolded decode_kind_layout]
  show "\<exists>x. server_bytes x = Some raw \<and> addressed x \<and> d = received x"
  proof (elim disjE conjE exE)
    fix j e
    assume "k = PUSH" "texts = [j, topic, e]" "join_ref = or_none j" "ref = None" "event = Custom e" "status = None"
    then show ?thesis using w(1) f d by (intro exI [of _ "Server_Push j topic e payload"]) (simp add: received_make del: received.simps)
  next
    fix j r x
    assume "k = REPLY" "texts = [j, r, topic, x]" "join_ref = or_none j" "ref = or_none r"
      "event = System SysReply" "status = Some x"
    then show ?thesis using w(1) f d by (intro exI [of _ "Server_Reply j r topic x payload"]) (simp add: received_make del: received.simps)
  next
    fix e
    assume "k = BROADCAST" "texts = [topic, e]" "join_ref = None" "ref = None" "event = Custom e" "status = None"
    then show ?thesis using w(1) f d by (intro exI [of _ "Server_Broadcast topic e payload"]) (simp add: received_make del: received.simps)
  qed
next
  assume "\<exists>x. server_bytes x = Some raw \<and> addressed x \<and> d = received x"
  then obtain x where x: "server_bytes x = Some raw" "addressed x" "d = received x" by blast
  have "decode_binary raw = Inr (received x)"
  proof (cases x)
    case (Server_Push j t e p)
    with x(1,2) show ?thesis
      unfolding Server_Push received_make
      by (intro decode_binary_wire [of PUSH "[j, t, e]"]) (simp_all add: decode_kind_def)
  next
    case (Server_Reply j r t s p)
    with x(1,2) show ?thesis
      unfolding Server_Reply received_make
      by (intro decode_binary_wire [of REPLY "[j, r, t, s]"]) (simp_all add: decode_kind_def lit_def)
  next
    case (Server_Broadcast t e p)
    with x(1,2) show ?thesis
      unfolding Server_Broadcast received_make
      by (intro decode_binary_wire [of BROADCAST "[t, e]"]) (simp_all add: decode_kind_def)
  qed
  then show "decode_message coerce (BinaryFrame raw) V2 = Inr d" using x(3) by (simp add: decode_message_def)
qed

lemma binary_frame_accepted_iff_witness:
  "decode_message (\<lambda>_. Inr []) (BinaryFrame [0, 1, 4, 3, 55, 114, 111, 111, 109, 109, 115, 103, 9]) V2 =
     Inr \<lparr>d_message = \<lparr>m_topic = lit ''room'', m_event = Custom (lit ''msg''), m_ref = None,
            m_join_ref = Some (lit ''7''), m_payload = PBytes [9]\<rparr>, d_binary_reply_status = None\<rparr>"
proof -
  have "server_bytes (Server_Push (lit ''7'') (lit ''room'') (lit ''msg'') [9]) =
      Some [0, 1, 4, 3, 55, 114, 111, 111, 109, 109, 115, 103, 9]"
    by (simp add: wire_def encode_utf8_def utf8_eval)
  moreover have "parse_event (Custom (lit ''msg'')) = Custom (lit ''msg'')"
    by (simp add: lit_def system_event_of_def system_events_def)
  ultimately show ?thesis
    unfolding binary_frame_accepted_iff
    by (intro exI [of _ "Server_Push (lit ''7'') (lit ''room'') (lit ''msg'') [9]"]) (simp add: lit_def)
qed

end
