(* ===== verification/Client_Types.thy ===== *)
theory Client_Types
  imports Complex_Main Messages
begin

text \<open>
  The client's life-cycle state machine (\<open>client_state_machine.py\<close>) and the types of the
  reconnect policy (\<open>client_types.py\<close>): decisions and events with the checks their
  constructors make, and the policy record with the constraints of its fields.
\<close>

section \<open>Client states\<close>

datatype client_state = CONNECTING | CONNECTED | RECONNECTING | SHUTTING_DOWN | CLOSED

fun client_state_text :: "client_state \<Rightarrow> pystr" where
  "client_state_text CONNECTING = lit ''connecting''"
| "client_state_text CONNECTED = lit ''connected''"
| "client_state_text RECONNECTING = lit ''reconnecting''"
| "client_state_text SHUTTING_DOWN = lit ''shutting_down''"
| "client_state_text CLOSED = lit ''closed''"

fun allowed_transitions :: "client_state \<Rightarrow> client_state list" where
  "allowed_transitions CLOSED = [CONNECTING]"
| "allowed_transitions CONNECTING = [CONNECTED, RECONNECTING, SHUTTING_DOWN, CLOSED]"
| "allowed_transitions CONNECTED = [RECONNECTING, SHUTTING_DOWN, CLOSED]"
| "allowed_transitions RECONNECTING = [CONNECTED, SHUTTING_DOWN, CLOSED]"
| "allowed_transitions SHUTTING_DOWN = [CLOSED]"

definition transition_client_state :: "client_state \<Rightarrow> client_state \<Rightarrow> exn + client_state" where
  "transition_client_state current new_state =
     (if current = new_state then Inr current
      else if new_state \<notin> set (allowed_transitions current) then
        Inl (RuntimeError (lit ''Invalid state transition '' @ client_state_text current
               @ lit '' -> '' @ client_state_text new_state))
      else Inr new_state)"

text \<open>A sequence of requested transitions, each applied where it is allowed.\<close>

fun run_transitions :: "client_state \<Rightarrow> client_state list \<Rightarrow> exn + client_state" where
  "run_transitions s [] = Inr s"
| "run_transitions s (n # ns) =
     andThen (transition_client_state s n) (\<lambda>s'. run_transitions s' ns)"

lemma transition_Inr:
  "transition_client_state s n = Inr s' \<longleftrightarrow> s' = n \<and> (s = n \<or> n \<in> set (allowed_transitions s))"
  by (auto simp: transition_client_state_def)

text \<open>
  A client can only begin again by passing through \<open>CLOSED\<close>: from a state in which
  it is shutting down, every sequence of accepted transitions stays in shutdown until it
  reaches \<open>CLOSED\<close>, and the transition out of \<open>CLOSED\<close> is to \<open>CONNECTING\<close> only.
\<close>

lemma shutdown_passes_closed:
  assumes "run_transitions SHUTTING_DOWN ns = Inr s" "s \<noteq> SHUTTING_DOWN" "s \<noteq> CLOSED"
  shows "\<exists>as bs. ns = as @ CLOSED # CONNECTING # bs"
  using assms(1)
proof (induction ns rule: length_induct)
  case (1 ns)
  from "1.prems" assms(2) obtain n ms where ns: "ns = n # ms" by (cases ns) auto
  with "1.prems" have n: "n = SHUTTING_DOWN \<or> n = CLOSED"
    and ms: "run_transitions n ms = Inr s"
    by (auto simp: andThen_Inr_iff transition_Inr)
  show ?case
  proof (cases "n = SHUTTING_DOWN")
    case True
    with "1.IH" ms ns obtain as bs where "ms = as @ CLOSED # CONNECTING # bs" by auto
    with ns show ?thesis by (metis append_Cons)
  next
    case False
    with n have "n = CLOSED" by simp
    have "\<exists>as bs. CLOSED # ms = as @ CLOSED # CONNECTING # bs"
      using ms [unfolded \<open>n = CLOSED\<close>]
    proof (induction ms)
      case Nil
      with assms(3) show ?case by simp
    next
      case (Cons m ms')
      then have "m = CLOSED \<or> m = CONNECTING"
        by (auto simp: andThen_Inr_iff transition_Inr)
      then show ?case
      proof
        assume "m = CLOSED"
        with Cons have "\<exists>as bs. CLOSED # ms' = as @ CLOSED # CONNECTING # bs"
          by (auto simp: andThen_Inr_iff transition_Inr)
        with \<open>m = CLOSED\<close> show ?thesis by (metis append_Cons)
      next
        assume "m = CONNECTING"
        then show ?thesis by (intro exI [of _ "[]"] exI [of _ ms']) simp
      qed
    qed
    with ns \<open>n = CLOSED\<close> show ?thesis by simp
  qed
qed

lemma shutdown_passes_closed_witness:
  "\<exists>as bs. [SHUTTING_DOWN, CLOSED, CONNECTING, CONNECTED] = as @ CLOSED # CONNECTING # bs"
proof -
  have "run_transitions SHUTTING_DOWN [SHUTTING_DOWN, CLOSED, CONNECTING, CONNECTED] = Inr CONNECTED"
    by (simp add: transition_client_state_def)
  then show ?thesis by (rule shutdown_passes_closed) simp_all
qed

section \<open>Floats\<close>

text \<open>
  A Python float: a real number or one of the special values. Rounding is not modelled.
\<close>

datatype pyfloat = Fin real | PInf | NInf | NaN

definition isfinite :: "pyfloat \<Rightarrow> bool" where
  "isfinite x \<longleftrightarrow> (case x of Fin _ \<Rightarrow> True | _ \<Rightarrow> False)"

text \<open>\<open>x < y\<close> and \<open>x <= y\<close>; every comparison with \<open>nan\<close> is false.\<close>

fun float_less :: "pyfloat \<Rightarrow> pyfloat \<Rightarrow> bool" where
  "float_less (Fin a) (Fin b) \<longleftrightarrow> a < b"
| "float_less (Fin a) PInf = True"
| "float_less NInf (Fin b) = True"
| "float_less NInf PInf = True"
| "float_less _ _ = False"

definition float_le :: "pyfloat \<Rightarrow> pyfloat \<Rightarrow> bool" where
  "float_le x y \<longleftrightarrow> float_less x y \<or> (x = y \<and> x \<noteq> NaN)"

text \<open>\<open>bool(x)\<close>: every float but zero is true.\<close>

definition float_true :: "pyfloat \<Rightarrow> bool" where
  "float_true x \<longleftrightarrow> x \<noteq> Fin 0"

text \<open>The least real that does not round to a finite double.\<close>

definition float_overflow :: real where
  "float_overflow = 2 ^ 1024 - 2 ^ 970"

section \<open>Decisions and events\<close>

record decision =
  should_reconnect :: bool
  delay_s :: pyfloat
  terminal_error :: "exn option"

text \<open>\<open>ReconnectDecision(...)\<close>, with the checks of \<open>__post_init__\<close>.\<close>

definition reconnect_decision :: "bool \<Rightarrow> pyfloat \<Rightarrow> exn option \<Rightarrow> exn + decision" where
  "reconnect_decision go delay error =
     (if \<not> isfinite delay \<or> float_less delay (Fin 0) then
        Inl (ValueError (lit ''delay_s must be finite and >= 0''))
      else if \<not> go \<and> float_true delay then Inl (ValueError (lit ''a stop has no delay_s''))
      else if go \<and> error \<noteq> None then
        Inl (ValueError (lit ''a terminal_error requires should_reconnect=False''))
      else Inr \<lparr>should_reconnect = go, delay_s = delay, terminal_error = error\<rparr>)"

text \<open>What every constructed decision satisfies.\<close>

definition decision_ok :: "decision \<Rightarrow> bool" where
  "decision_ok d \<longleftrightarrow>
     (\<exists>x \<ge> 0. delay_s d = Fin x \<and> (\<not> should_reconnect d \<longrightarrow> x = 0)) \<and>
     (should_reconnect d \<longrightarrow> terminal_error d = None)"

lemma reconnect_decision_ok: "reconnect_decision go delay error = Inr d \<Longrightarrow> decision_ok d"
  by (cases delay)
    (auto simp: reconnect_decision_def decision_ok_def isfinite_def float_true_def
      split: if_splits)

definition proceed :: decision where
  "proceed = \<lparr>should_reconnect = True, delay_s = Fin 0, terminal_error = None\<rparr>"

lemma proceed_ok [simp]: "decision_ok proceed"
  by (simp add: proceed_def decision_ok_def)

datatype reconnect_event =
    Connecting
  | Connected nat
  | Disconnected "int option" pystr
  | ConnectFailed exn

fun is_gate :: "reconnect_event \<Rightarrow> bool" where
  "is_gate Connecting = True"
| "is_gate (Connected _) = True"
| "is_gate _ = False"

section \<open>The reconnect policy\<close>

text \<open>The numbers of a policy are finite here, although its fields admit \<open>inf\<close>.\<close>

record reconnect_policy =
  base_delay_s :: real
  factor :: real
  max_delay_s :: real
  stable_reset_s :: real
  reconnect_on_normal_close :: bool
  policy_violation_is_terminal :: bool
  service_restart_min_delay_s :: real
  service_restart_max_delay_s :: real
  try_again_later_min_delay_s :: real
  try_again_later_max_delay_s :: real
  rapid_disconnect_uptime_s :: real
  rapid_window_s :: real
  rapid_first_min_delay_s :: real
  rapid_second_min_delay_s :: real
  rapid_cooldown_base_s :: real
  rapid_cooldown_step_s :: real
  rapid_cooldown_max_s :: real
  rapid_suppress_disconnect_count :: nat
  rapid_hold_down_jitter_low_ratio :: real
  rapid_hold_down_jitter_high_ratio :: real

definition default_policy :: reconnect_policy where
  "default_policy =
     \<lparr>base_delay_s = 1 / 2, factor = 2, max_delay_s = 30, stable_reset_s = 60,
      reconnect_on_normal_close = True, policy_violation_is_terminal = True,
      service_restart_min_delay_s = 1, service_restart_max_delay_s = 5,
      try_again_later_min_delay_s = 30, try_again_later_max_delay_s = 60,
      rapid_disconnect_uptime_s = 5, rapid_window_s = 60, rapid_first_min_delay_s = 2,
      rapid_second_min_delay_s = 10, rapid_cooldown_base_s = 60, rapid_cooldown_step_s = 30,
      rapid_cooldown_max_s = 300, rapid_suppress_disconnect_count = 10,
      rapid_hold_down_jitter_low_ratio = 1 / 4, rapid_hold_down_jitter_high_ratio = 1\<rparr>"

text \<open>The constraints of the field types: non-negative, and positive where the type says so.\<close>

definition field_constraints :: "reconnect_policy \<Rightarrow> bool" where
  "field_constraints p \<longleftrightarrow>
     list_all (\<lambda>x. 0 \<le> x)
       [base_delay_s p, max_delay_s p, service_restart_min_delay_s p,
        service_restart_max_delay_s p, try_again_later_min_delay_s p,
        try_again_later_max_delay_s p, rapid_disconnect_uptime_s p, rapid_first_min_delay_s p,
        rapid_second_min_delay_s p, rapid_cooldown_base_s p, rapid_cooldown_step_s p,
        rapid_cooldown_max_s p, rapid_hold_down_jitter_low_ratio p,
        rapid_hold_down_jitter_high_ratio p] \<and>
     list_all (\<lambda>x. 0 < x) [factor p, stable_reset_s p, rapid_window_s p]"

text \<open>Each pair of fields of which the second must not be below the first, by name.\<close>

definition ordered_policy_fields :: "reconnect_policy \<Rightarrow> ((pystr \<times> real) \<times> (pystr \<times> real)) list" where
  "ordered_policy_fields p =
     [((lit ''service_restart_min_delay_s'', service_restart_min_delay_s p),
       (lit ''service_restart_max_delay_s'', service_restart_max_delay_s p)),
      ((lit ''try_again_later_min_delay_s'', try_again_later_min_delay_s p),
       (lit ''try_again_later_max_delay_s'', try_again_later_max_delay_s p)),
      ((lit ''rapid_cooldown_base_s'', rapid_cooldown_base_s p),
       (lit ''rapid_cooldown_max_s'', rapid_cooldown_max_s p)),
      ((lit ''rapid_hold_down_jitter_low_ratio'', rapid_hold_down_jitter_low_ratio p),
       (lit ''rapid_hold_down_jitter_high_ratio'', rapid_hold_down_jitter_high_ratio p))]"

definition check_ordering :: "reconnect_policy \<Rightarrow> exn + reconnect_policy" where
  "check_ordering p =
     (case find (\<lambda>((_, low), (_, high)). high < low) (ordered_policy_fields p) of
        Some ((low, _), (high, _)) \<Rightarrow> Inl (ValueError (high @ lit '' must be >= '' @ low))
      | None \<Rightarrow> Inr p)"

definition policy_ok :: "reconnect_policy \<Rightarrow> bool" where
  "policy_ok p \<longleftrightarrow> field_constraints p \<and> check_ordering p = Inr p"

lemma check_ordering_iff:
  "check_ordering p = Inr p \<longleftrightarrow>
   service_restart_min_delay_s p \<le> service_restart_max_delay_s p \<and>
   try_again_later_min_delay_s p \<le> try_again_later_max_delay_s p \<and>
   rapid_cooldown_base_s p \<le> rapid_cooldown_max_s p \<and>
   rapid_hold_down_jitter_low_ratio p \<le> rapid_hold_down_jitter_high_ratio p"
  by (auto simp: check_ordering_def ordered_policy_fields_def not_less split: if_splits)

lemma default_policy_ok: "policy_ok default_policy"
  by (simp add: policy_ok_def check_ordering_iff field_constraints_def default_policy_def)

end
