(* ===== verification/Default_Decider.thy ===== *)
theory Default_Decider
  imports Client_Types
begin

text \<open>
  The built-in reconnect policy of \<open>default_decider.py\<close>: a capped exponential backoff with
  jitter, floors after rapid disconnects, and a stop on terminal refusals and on churn.
  The event loop's clock and \<open>random.random()\<close> are arguments: each reading of the clock and
  each draw is one parameter, named in the order the code makes them.
\<close>

section \<open>Delays\<close>

definition random_between :: "real \<Rightarrow> real \<Rightarrow> real \<Rightarrow> real" where
  "random_between min_delay max_delay r =
     (let low = max 0 min_delay; high = max low max_delay
      in if high = low then low else low + r * (high - low))"

text \<open>\<open>factor ** attempt\<close> raises when the result is no finite double.\<close>

definition float_pow :: "real \<Rightarrow> nat \<Rightarrow> exn + real" where
  "float_pow x n = (if float_overflow \<le> x ^ n then Inl OverflowError else Inr (x ^ n))"

definition exponential_delay :: "reconnect_policy \<Rightarrow> nat \<Rightarrow> exn + real" where
  "exponential_delay p attempt =
     andThen (float_pow (factor p) attempt) (\<lambda>g. Inr (min (max_delay_s p) (base_delay_s p * g)))"

definition equal_jitter :: "real \<Rightarrow> real \<Rightarrow> real" where
  "equal_jitter delay r = random_between (delay / 2) delay r"

section \<open>The decider's state\<close>

record decider =
  dd_policy :: reconnect_policy
  dd_attempt :: nat
  dd_rapid_disconnects :: "real list"
  dd_connected_at :: real

definition new_decider :: "reconnect_policy \<Rightarrow> decider" where
  "new_decider p =
     \<lparr>dd_policy = p, dd_attempt = 0, dd_rapid_disconnects = [], dd_connected_at = 0\<rparr>"

definition terminal_decision :: "pystr \<Rightarrow> exn + decision" where
  "terminal_decision cause =
     reconnect_decision False (Fin 0)
       (Some (SocketError (lit ''Reconnect disabled due to terminal '' @ cause)))"

definition suppression :: "exn + decision" where
  "suppression =
     reconnect_decision False (Fin 0)
       (Some (SocketError (lit ''Reconnect suppressed after repeated rapid disconnects. ''
         @ lit ''Likely duplicate connection or unstable endpoint.'')))"

section \<open>Closes and refusals\<close>

definition terminal_handshake_status :: int where
  "terminal_handshake_status = 403"

definition normal_closure :: int where "normal_closure = 1000"
definition going_away :: int where "going_away = 1001"
definition policy_violation :: int where "policy_violation = 1008"
definition service_restart :: int where "service_restart = 1012"
definition try_again_later :: int where "try_again_later = 1013"

lemmas close_codes =
  normal_closure_def going_away_def policy_violation_def service_restart_def try_again_later_def

definition stop_for_close ::
  "reconnect_policy \<Rightarrow> int option \<Rightarrow> pystr \<Rightarrow> (exn + decision) option" where
  "stop_for_close p close_code close_reason =
     (if close_code \<in> {Some normal_closure, Some going_away} \<and> \<not> reconnect_on_normal_close p then
        Some (reconnect_decision False (Fin 0) None)
      else if close_code = Some policy_violation \<and> policy_violation_is_terminal p then
        Some (terminal_decision (lit ''close code 1008 ('' @
          (if close_reason = [] then lit ''policy violation'' else close_reason) @ lit '')''))
      else None)"

definition delay_range_for_close :: "reconnect_policy \<Rightarrow> int option \<Rightarrow> (real \<times> real) option" where
  "delay_range_for_close p close_code =
     (if close_code = Some service_restart then
        Some (service_restart_min_delay_s p, service_restart_max_delay_s p)
      else if close_code = Some try_again_later then
        Some (try_again_later_min_delay_s p, try_again_later_max_delay_s p)
      else None)"

text \<open>Record a disconnect; whether churn now stops the client.\<close>

definition suppressed :: "decider \<Rightarrow> real \<Rightarrow> real \<Rightarrow> decider \<times> bool" where
  "suppressed d uptime now =
     (let p = dd_policy d;
          noted = (if uptime < rapid_disconnect_uptime_s p
                   then dd_rapid_disconnects d @ [now] else dd_rapid_disconnects d);
          kept = dropWhile (\<lambda>t. rapid_window_s p < now - t) noted;
          threshold = rapid_suppress_disconnect_count p
      in (d\<lparr>dd_rapid_disconnects := kept\<rparr>, 0 < threshold \<and> threshold \<le> length kept))"

definition rapid_floors :: "reconnect_policy \<Rightarrow> real list" where
  "rapid_floors p = [0, rapid_first_min_delay_s p, rapid_second_min_delay_s p]"

text \<open>The unjittered wait, at least the floor of the current rapid-disconnect count.\<close>

definition rapid_floor :: "decider \<Rightarrow> real" where
  "rapid_floor d =
     (let p = dd_policy d; n = length (dd_rapid_disconnects d)
      in if n < length (rapid_floors p) then rapid_floors p ! n
         else min (rapid_cooldown_base_s p
                   + rapid_cooldown_step_s p * real (n - length (rapid_floors p)))
                (rapid_cooldown_max_s p))"

definition backoff :: "decider \<Rightarrow> nat \<Rightarrow> real \<Rightarrow> exn + real" where
  "backoff d attempt r =
     (let p = dd_policy d
      in andThen (exponential_delay p attempt) (\<lambda>e.
           let delay = max e (rapid_floor d)
           in Inr (if delay \<le> 0 then 0
                   else if length (dd_rapid_disconnects d) < length (rapid_floors p)
                   then equal_jitter delay r
                   else random_between (delay * rapid_hold_down_jitter_low_ratio p)
                          (delay * rapid_hold_down_jitter_high_ratio p) r)))"

text \<open>A stable connection resets the backoff and the history; any other counts an attempt.\<close>

definition count_attempt :: "decider \<Rightarrow> real \<Rightarrow> decider" where
  "count_attempt d uptime =
     (if stable_reset_s (dd_policy d) \<le> uptime
      then d\<lparr>dd_attempt := 0, dd_rapid_disconnects := []\<rparr>
      else d\<lparr>dd_attempt := dd_attempt d + 1\<rparr>)"

text \<open>Raise the wait into the range of the close code, where it has one.\<close>

definition raise_delay :: "reconnect_policy \<Rightarrow> int option \<Rightarrow> real \<Rightarrow> real \<Rightarrow> real" where
  "raise_delay p close_code r delay =
     (case delay_range_for_close p close_code of
        Some (lo, hi) \<Rightarrow> max delay (random_between lo hi r)
      | None \<Rightarrow> delay)"

text \<open>
  \<open>_after_close\<close>: \<open>t0\<close> is the clock at the uptime computation, \<open>t1\<close> when the disconnect is
  recorded; \<open>r0\<close> jitters the backoff, \<open>r1\<close> draws from the range of the close code. What the
  decider recorded stays recorded when the computation raises.
\<close>

definition after_close ::
  "decider \<Rightarrow> int option \<Rightarrow> pystr \<Rightarrow> real \<Rightarrow> real \<Rightarrow> real \<Rightarrow> real \<Rightarrow> decider \<times> (exn + decision)" where
  "after_close d close_code close_reason t0 t1 r0 r1 =
     (case stop_for_close (dd_policy d) close_code close_reason of
        Some stop \<Rightarrow> (d, stop)
      | None \<Rightarrow>
          (let uptime = t0 - dd_connected_at d
           in case suppressed d uptime t1 of
                (d1, True) \<Rightarrow> (d1, suppression)
              | (d1, False) \<Rightarrow>
                  (let d2 = count_attempt d1 uptime
                   in (d2,
                       andThen (backoff d2 (dd_attempt d2) r0) (\<lambda>delay.
                         reconnect_decision True
                           (Fin (raise_delay (dd_policy d) close_code r1 delay)) None)))))"

definition after_connect_failure ::
  "decider \<Rightarrow> exn \<Rightarrow> real \<Rightarrow> real \<Rightarrow> decider \<times> (exn + decision)" where
  "after_connect_failure d error t0 r0 =
     (if error = InvalidStatus terminal_handshake_status then
        (d, terminal_decision (lit ''handshake status 403 (Forbidden)''))
      else
        (case suppressed d 0 t0 of
           (d1, True) \<Rightarrow> (d1, suppression)
         | (d1, False) \<Rightarrow>
             (case backoff d1 (dd_attempt d1) r0 of
                Inl e \<Rightarrow> (d1, Inl e)
              | Inr delay \<Rightarrow>
                  (d1\<lparr>dd_attempt := dd_attempt d1 + 1\<rparr>, reconnect_decision True (Fin delay) None))))"

text \<open>The readings one call may make: two of the clock, two draws.\<close>

record readings =
  clock0 :: real
  clock1 :: real
  draw0 :: real
  draw1 :: real

fun default_decide :: "decider \<Rightarrow> readings \<Rightarrow> reconnect_event \<Rightarrow> decider \<times> (exn + decision)" where
  "default_decide d rd (Connected _) = (d\<lparr>dd_connected_at := clock0 rd\<rparr>, Inr proceed)"
| "default_decide d rd (Disconnected code reason) =
     after_close d code reason (clock0 rd) (clock1 rd) (draw0 rd) (draw1 rd)"
| "default_decide d rd (ConnectFailed error) =
     after_connect_failure d error (clock0 rd) (draw0 rd)"
| "default_decide d rd Connecting = (d, Inr proceed)"

section \<open>Bounds on the waits\<close>

text \<open>A draw of \<open>random.random()\<close>.\<close>

definition draw :: "real \<Rightarrow> bool" where
  "draw r \<longleftrightarrow> 0 \<le> r \<and> r < 1"

lemma random_between_bounds:
  assumes "draw r"
  shows "max 0 lo \<le> random_between lo hi r \<and> random_between lo hi r \<le> max (max 0 lo) hi"
proof -
  let ?l = "max 0 lo"
  let ?h = "max ?l hi"
  have "0 \<le> r * (?h - ?l)" using assms by (simp add: draw_def)
  moreover have "r * (?h - ?l) \<le> ?h - ?l"
    using assms mult_right_mono [of r 1 "?h - ?l"] by (simp add: draw_def)
  moreover have "lo \<le> ?l" "0 \<le> ?l" "?l \<le> ?h" "hi \<le> ?h" by auto
  ultimately show ?thesis
    by (cases "?h = ?l") (simp only: random_between_def Let_def if_True if_False simp_thms; linarith)+
qed

lemma random_between_le:
  "draw r \<Longrightarrow> 0 \<le> lo \<Longrightarrow> lo \<le> hi \<Longrightarrow>
   lo \<le> random_between lo hi r \<and> random_between lo hi r \<le> hi"
  using random_between_bounds [of r lo hi] by (simp add: max_absorb2)

lemma equal_jitter_bounds:
  "draw r \<Longrightarrow> 0 \<le> x \<Longrightarrow> x / 2 \<le> equal_jitter x r \<and> equal_jitter x r \<le> x"
  unfolding equal_jitter_def by (rule random_between_le) auto

lemma policy_ok_nonneg:
  assumes "policy_ok p"
  shows "0 \<le> base_delay_s p" "0 \<le> max_delay_s p" "0 < factor p" "0 < rapid_window_s p"
    "0 \<le> rapid_first_min_delay_s p" "0 \<le> rapid_second_min_delay_s p"
    "0 \<le> rapid_cooldown_base_s p" "0 \<le> rapid_cooldown_step_s p" "0 \<le> rapid_cooldown_max_s p"
    "0 \<le> rapid_hold_down_jitter_low_ratio p" "0 \<le> rapid_hold_down_jitter_high_ratio p"
    "0 \<le> service_restart_min_delay_s p" "0 \<le> try_again_later_min_delay_s p"
    "service_restart_min_delay_s p \<le> service_restart_max_delay_s p"
    "try_again_later_min_delay_s p \<le> try_again_later_max_delay_s p"
    "rapid_hold_down_jitter_low_ratio p \<le> rapid_hold_down_jitter_high_ratio p"
  using assms by (auto simp: policy_ok_def field_constraints_def check_ordering_iff)

lemma exponential_delay_bounds:
  "policy_ok p \<Longrightarrow> exponential_delay p n = Inr e \<Longrightarrow> 0 \<le> e \<and> e \<le> max_delay_s p"
  by (auto simp: exponential_delay_def float_pow_def andThen_Inr_iff policy_ok_nonneg less_imp_le
      split: if_splits)

text \<open>The largest wait the backoff can ask for, before jitter.\<close>

definition wait_cap :: "reconnect_policy \<Rightarrow> real" where
  "wait_cap p =
     Max {max_delay_s p, rapid_first_min_delay_s p, rapid_second_min_delay_s p,
          rapid_cooldown_max_s p}"

lemma rapid_floor_bounds:
  assumes "policy_ok (dd_policy d)"
  shows "0 \<le> rapid_floor d" "rapid_floor d \<le> wait_cap (dd_policy d)"
proof -
  note n = policy_ok_nonneg [OF assms]
  let ?n = "length (dd_rapid_disconnects d)"
  consider "?n = 0" | "?n = 1" | "?n = 2" | "3 \<le> ?n" by linarith
  then have "0 \<le> rapid_floor d \<and> rapid_floor d \<le> wait_cap (dd_policy d)"
    by cases (use n in \<open>auto simp: rapid_floor_def rapid_floors_def Let_def wait_cap_def
      numeral_2_eq_2 le_max_iff_disj\<close>)
  then show "0 \<le> rapid_floor d" "rapid_floor d \<le> wait_cap (dd_policy d)" by auto
qed

lemma wait_cap_nonneg: "policy_ok p \<Longrightarrow> 0 \<le> wait_cap p"
  using policy_ok_nonneg [of p] by (auto simp: wait_cap_def le_max_iff_disj)

lemma backoff_bounds:
  assumes ok: "policy_ok (dd_policy d)" and r: "draw r" and w: "backoff d n r = Inr w"
  shows "0 \<le> w \<and>
    w \<le> wait_cap (dd_policy d) * max 1 (rapid_hold_down_jitter_high_ratio (dd_policy d))"
proof -
  let ?p = "dd_policy d"
  note N = policy_ok_nonneg [OF ok] and f = rapid_floor_bounds [OF ok]
  obtain e where e: "exponential_delay ?p n = Inr e"
    using w by (auto simp: backoff_def Let_def andThen_Inr_iff)
  let ?D = "max e (rapid_floor d)"
  have D: "0 \<le> ?D" "?D \<le> wait_cap ?p"
    using exponential_delay_bounds [OF ok e] f by (auto simp: wait_cap_def)
  have cap: "?D * x \<le> wait_cap ?p * max 1 (rapid_hold_down_jitter_high_ratio ?p)"
    if "0 \<le> x" "x \<le> max 1 (rapid_hold_down_jitter_high_ratio ?p)" for x
    using D that by (intro mult_mono) auto
  consider "?D \<le> 0" "w = 0"
    | "w = equal_jitter ?D r"
    | "w = random_between (?D * rapid_hold_down_jitter_low_ratio ?p)
             (?D * rapid_hold_down_jitter_high_ratio ?p) r"
    using w e by (auto simp: backoff_def andThen_Inr_iff Let_def split: if_splits)
  then show ?thesis
  proof cases
    case 1
    then show ?thesis using wait_cap_nonneg [OF ok] by (simp add: le_max_iff_disj)
  next
    case 2
    have "?D / 2 \<le> w" "w \<le> ?D"
      using equal_jitter_bounds [OF r D(1)] unfolding 2 by auto
    moreover have "?D \<le> wait_cap ?p * max 1 (rapid_hold_down_jitter_high_ratio ?p)"
      using cap [of 1] by simp
    ultimately show ?thesis using D(1) by linarith
  next
    case 3
    let ?lo = "?D * rapid_hold_down_jitter_low_ratio ?p"
    let ?hi = "?D * rapid_hold_down_jitter_high_ratio ?p"
    have "0 \<le> ?lo" "?lo \<le> ?hi" using D N by (auto intro: mult_left_mono)
    with 3 have "?lo \<le> w" "w \<le> ?hi" using random_between_le [OF r, of ?lo ?hi] by auto
    with cap [of "rapid_hold_down_jitter_high_ratio ?p"] N \<open>0 \<le> ?lo\<close> show ?thesis by simp
  qed
qed

text \<open>The bound of every wait, with the ranges of the two close codes that raise it.\<close>

definition delay_cap :: "reconnect_policy \<Rightarrow> real" where
  "delay_cap p =
     Max {wait_cap p * max 1 (rapid_hold_down_jitter_high_ratio p),
          service_restart_max_delay_s p, try_again_later_max_delay_s p}"

definition readings_ok :: "readings \<Rightarrow> bool" where
  "readings_ok rd \<longleftrightarrow> draw (draw0 rd) \<and> draw (draw1 rd)"

lemma suppressed_policy: "suppressed d u t = (d', b) \<Longrightarrow> dd_policy d' = dd_policy d"
  by (auto simp: suppressed_def Let_def)

lemma reconnect_decision_go:
  "0 \<le> x \<Longrightarrow> reconnect_decision True (Fin x) None =
     Inr \<lparr>should_reconnect = True, delay_s = Fin x, terminal_error = None\<rparr>"
  by (simp add: reconnect_decision_def isfinite_def)

lemma reconnect_decision_stop:
  "reconnect_decision False (Fin 0) e =
     Inr \<lparr>should_reconnect = False, delay_s = Fin 0, terminal_error = e\<rparr>"
  by (simp add: reconnect_decision_def isfinite_def float_true_def)

lemma delay_range_bounds:
  assumes "policy_ok p" "delay_range_for_close p code = Some (lo, hi)" "draw r"
  shows "0 \<le> random_between lo hi r" "random_between lo hi r \<le> delay_cap p"
proof -
  note N = policy_ok_nonneg [OF assms(1)]
  have "0 \<le> lo" "lo \<le> hi" "hi \<le> delay_cap p"
    using assms(2) N
    by (auto simp: delay_range_for_close_def delay_cap_def le_max_iff_disj split: if_splits)
  with random_between_le [OF assms(3), of lo hi]
  show "0 \<le> random_between lo hi r" "random_between lo hi r \<le> delay_cap p" by auto
qed

lemma raise_delay_bounds:
  "policy_ok p \<Longrightarrow> draw r \<Longrightarrow> 0 \<le> w \<Longrightarrow> w \<le> delay_cap p \<Longrightarrow>
   0 \<le> raise_delay p code r w \<and> raise_delay p code r w \<le> delay_cap p"
  using delay_range_bounds [of p code _ _ r]
  by (auto simp: raise_delay_def le_max_iff_disj split: option.splits)

text \<open>A well-formed decision whose wait is within the policy's bound.\<close>

definition bounded_answer :: "reconnect_policy \<Rightarrow> decision \<Rightarrow> bool" where
  "bounded_answer p a \<longleftrightarrow>
     decision_ok a \<and> (\<exists>x. delay_s a = Fin x \<and> 0 \<le> x \<and> x \<le> delay_cap p)"

lemma delay_cap_nonneg: "policy_ok p \<Longrightarrow> 0 \<le> delay_cap p"
  using wait_cap_nonneg [of p] by (auto simp: delay_cap_def le_max_iff_disj)

lemma bounded_go:
  "reconnect_decision True (Fin x) None = Inr a \<Longrightarrow> 0 \<le> x \<Longrightarrow> x \<le> delay_cap p \<Longrightarrow>
   bounded_answer p a"
  by (auto simp: reconnect_decision_go bounded_answer_def decision_ok_def)

lemma bounded_stop:
  "policy_ok p \<Longrightarrow> reconnect_decision False (Fin 0) e = Inr a \<Longrightarrow> bounded_answer p a"
  by (auto simp: reconnect_decision_stop bounded_answer_def decision_ok_def delay_cap_nonneg)

lemma backoff_delay_cap:
  "policy_ok (dd_policy d) \<Longrightarrow> draw r \<Longrightarrow> backoff d n r = Inr w \<Longrightarrow>
   0 \<le> w \<and> w \<le> delay_cap (dd_policy d)"
  using backoff_bounds [of d r n w] by (auto simp: delay_cap_def le_max_iff_disj)

lemma after_connect_failure_bounded:
  assumes ok: "policy_ok (dd_policy d)" and r: "draw r"
    and dec: "after_connect_failure d e t r = (d', Inr a)"
  shows "dd_policy d' = dd_policy d \<and> bounded_answer (dd_policy d) a"
proof -
  obtain c u where c: "suppressed d 0 t = (c, u)" by force
  have p: "dd_policy c = dd_policy d" using suppressed_policy [OF c] .
  consider "d' = d" "terminal_decision (lit ''handshake status 403 (Forbidden)'') = Inr a"
    | "d' = c" "suppression = Inr a"
    | w where "d' = c\<lparr>dd_attempt := dd_attempt c + 1\<rparr>" "backoff c (dd_attempt c) r = Inr w"
      "reconnect_decision True (Fin w) None = Inr a"
    using dec c by (auto simp: after_connect_failure_def split: if_splits sum.splits bool.splits)
  then show ?thesis
  proof cases
    case 3
    with backoff_delay_cap [of c r] ok p r bounded_go show ?thesis by simp
  qed (use p ok bounded_stop in \<open>auto simp: terminal_decision_def suppression_def\<close>)
qed

lemma stop_for_close_bounded:
  "policy_ok p \<Longrightarrow> stop_for_close p code reason = Some (Inr a) \<Longrightarrow> bounded_answer p a"
  using bounded_stop by (auto simp: stop_for_close_def terminal_decision_def split: if_splits)

lemma after_close_bounded:
  assumes ok: "policy_ok (dd_policy d)" and r: "draw r0" "draw r1"
    and dec: "after_close d code reason t0 t1 r0 r1 = (d', Inr a)"
  shows "dd_policy d' = dd_policy d \<and> bounded_answer (dd_policy d) a"
proof (cases "stop_for_close (dd_policy d) code reason")
  case (Some st)
  with dec stop_for_close_bounded [OF ok] show ?thesis by (simp add: after_close_def)
next
  case None
  let ?u = "t0 - dd_connected_at d"
  obtain c u where c: "suppressed d ?u t1 = (c, u)" by force
  have p: "dd_policy c = dd_policy d" using suppressed_policy [OF c] .
  show ?thesis
  proof (cases u)
    case True
    with dec None c have "d' = c" "suppression = Inr a" by (auto simp: after_close_def)
    moreover have "bounded_answer (dd_policy d) a"
      using bounded_stop [OF ok] \<open>suppression = Inr a\<close> unfolding suppression_def by blast
    ultimately show ?thesis using p by blast
  next
    case False
    let ?c = "count_attempt c ?u"
    have p2: "dd_policy ?c = dd_policy d" using p by (simp add: count_attempt_def)
    obtain w where w: "backoff ?c (dd_attempt ?c) r0 = Inr w" and d': "d' = ?c"
      and a: "reconnect_decision True (Fin (raise_delay (dd_policy d) code r1 w)) None = Inr a"
    proof -
      have "after_close d code reason t0 t1 r0 r1 =
        (?c, andThen (backoff ?c (dd_attempt ?c) r0) (\<lambda>w.
           reconnect_decision True (Fin (raise_delay (dd_policy d) code r1 w)) None))"
        using None c False by (simp add: after_close_def Let_def)
      with dec show thesis using that by (fastforce simp: andThen_Inr_iff)
    qed
    have "0 \<le> raise_delay (dd_policy d) code r1 w \<and>
        raise_delay (dd_policy d) code r1 w \<le> delay_cap (dd_policy d)"
      using backoff_delay_cap [of ?c, OF _ r(1) w] p2 ok by (intro raise_delay_bounds r(2)) auto
    with a p2 d' show ?thesis using bounded_go by simp
  qed
qed

text \<open>
  Claim C39: whatever happens, each answer of the built-in policy is a well-formed decision:
  a wait is finite, not negative and at most \<open>delay_cap\<close> of the policy, a stop has no wait,
  and only a stop carries a terminal error.
\<close>

theorem default_decide_bounded:
  assumes "policy_ok (dd_policy d)" "readings_ok rd"
    and "default_decide d rd event = (d', Inr answer)"
  shows "dd_policy d' = dd_policy d \<and> bounded_answer (dd_policy d) answer"
proof -
  have g: "bounded_answer (dd_policy d) proceed"
    using delay_cap_nonneg [OF assms(1)] by (simp add: bounded_answer_def) (simp add: proceed_def)
  show ?thesis
    using assms g
    by (cases event)
      (auto simp: readings_ok_def dest: after_close_bounded after_connect_failure_bounded)
qed

definition sample_readings :: readings where
  "sample_readings = \<lparr>clock0 = 10, clock1 = 10, draw0 = 1 / 2, draw1 = 0\<rparr>"

lemma default_decide_bounded_witness:
  "\<exists>answer. default_decide (new_decider default_policy) sample_readings (Disconnected None []) =
     (new_decider default_policy\<lparr>dd_attempt := 1\<rparr>, Inr answer) \<and>
   bounded_answer (dd_policy (new_decider default_policy)) answer \<and> delay_s answer = Fin (3 / 4)"
proof -
  define a where "a = \<lparr>should_reconnect = True, delay_s = Fin (3 / 4), terminal_error = None\<rparr>"
  have d: "default_decide (new_decider default_policy) sample_readings (Disconnected None []) =
    (new_decider default_policy\<lparr>dd_attempt := 1\<rparr>, Inr a)"
    by (simp add: after_close_def stop_for_close_def suppressed_def new_decider_def
        default_policy_def count_attempt_def backoff_def exponential_delay_def float_pow_def
        float_overflow_def rapid_floor_def rapid_floors_def equal_jitter_def random_between_def
        raise_delay_def delay_range_for_close_def close_codes reconnect_decision_def
        isfinite_def Let_def a_def sample_readings_def)
  have "bounded_answer (dd_policy (new_decider default_policy)) a"
    using default_decide_bounded [OF _ _ d]
    by (simp add: readings_ok_def draw_def new_decider_def default_policy_ok sample_readings_def)
  with d show ?thesis by (intro exI [of _ a]) (simp add: a_def)
qed

section \<open>Churn\<close>

lemma dropWhile_window:
  "sorted xs \<Longrightarrow> dropWhile (\<lambda>t. w < now - t) xs = filter (\<lambda>t. now - t \<le> w) xs" for now w :: real
proof (induction xs)
  case (Cons x xs)
  then show ?case
  proof (cases "w < now - x")
    case False
    with Cons.prems have "\<forall>t \<in> set xs. now - t \<le> w" by fastforce
    with False show ?thesis by (simp add: filter_id_conv)
  qed simp
qed simp

text \<open>
  The churn guard counts exactly the rapid disconnects of the last window: with a
  clock that does not run backwards, the history stays sorted, it keeps precisely the rapid
  disconnects at most \<open>rapid_window_s\<close> old (the present one included when the connection was
  short), and the guard trips iff their number reaches a positive threshold.
\<close>

lemma churn_window:
  assumes "sorted (dd_rapid_disconnects d)" "\<forall>t \<in> set (dd_rapid_disconnects d). t \<le> now"
    and "suppressed d uptime now = (d', stop)"
  shows "sorted (dd_rapid_disconnects d') \<and> (\<forall>t \<in> set (dd_rapid_disconnects d'). t \<le> now) \<and>
    dd_rapid_disconnects d' =
      filter (\<lambda>t. now - t \<le> rapid_window_s (dd_policy d))
        (dd_rapid_disconnects d @
         (if uptime < rapid_disconnect_uptime_s (dd_policy d) then [now] else [])) \<and>
    (stop \<longleftrightarrow> 0 < rapid_suppress_disconnect_count (dd_policy d) \<and>
       rapid_suppress_disconnect_count (dd_policy d) \<le> length (dd_rapid_disconnects d'))"
proof -
  let ?h = "dd_rapid_disconnects d @
    (if uptime < rapid_disconnect_uptime_s (dd_policy d) then [now] else [])"
  have s: "sorted ?h" using assms(1,2) by (auto simp: sorted_append)
  have d': "dd_rapid_disconnects d' = filter (\<lambda>t. now - t \<le> rapid_window_s (dd_policy d)) ?h"
    using assms(3) dropWhile_window [OF s] by (auto simp: suppressed_def Let_def)
  moreover have "sorted (dd_rapid_disconnects d')"
    unfolding d' using s by (rule sorted_wrt_filter)
  moreover have "\<forall>t \<in> set (dd_rapid_disconnects d'). t \<le> now"
    unfolding d' using assms(2) by auto
  ultimately show ?thesis using assms(3) by (auto simp: suppressed_def Let_def)
qed

lemma churn_window_witness:
  "filter (\<lambda>t. 70 - t \<le> (60 :: real)) ([5, 20] @ [70]) = [20, 70]"
proof -
  let ?d = "new_decider default_policy\<lparr>dd_rapid_disconnects := [5, 20]\<rparr>"
  obtain d' stop where r: "suppressed ?d 1 70 = (d', stop)" by force
  have "dd_rapid_disconnects d' = filter (\<lambda>t. 70 - t \<le> rapid_window_s (dd_policy ?d))
        (dd_rapid_disconnects ?d @
         (if 1 < rapid_disconnect_uptime_s (dd_policy ?d) then [70] else []))"
    using churn_window [OF _ _ r] by simp
  then show ?thesis by (simp add: new_decider_def default_policy_def)
qed

section \<open>Runs of failed attempts\<close>

text \<open>The answers to a sequence of events, each with the readings made for it.\<close>

fun decide_run ::
  "decider \<Rightarrow> (readings \<times> reconnect_event) list \<Rightarrow> decider \<times> (exn + decision) list" where
  "decide_run d [] = (d, [])"
| "decide_run d ((rd, e) # es) =
     (let (d1, a) = default_decide d rd e; (d2, as) = decide_run d1 es in (d2, a # as))"

definition retries :: "exn + decision \<Rightarrow> bool" where
  "retries a \<longleftrightarrow> (case a of Inr x \<Rightarrow> should_reconnect x | Inl _ \<Rightarrow> False)"

lemma stop_not_retry [simp]: "\<not> retries (reconnect_decision False (Fin 0) e)"
  by (simp add: retries_def reconnect_decision_stop)

lemma overflow_from_1024: "1024 \<le> n \<Longrightarrow> float_overflow \<le> (2 :: real) ^ n"
proof -
  assume "1024 \<le> n"
  then have "(2 :: real) ^ 1024 \<le> 2 ^ n" by (intro power_increasing) auto
  then show ?thesis unfolding float_overflow_def by (smt (verit) zero_less_power)
qed

lemma retried_connect_failure:
  assumes f: "factor (dd_policy d) = 2"
    and dec: "after_connect_failure d e t r = (d', a)" and a: "retries a"
  shows "dd_attempt d < 1024 \<and> dd_attempt d' = dd_attempt d + 1 \<and> dd_policy d' = dd_policy d"
proof -
  obtain c u where c: "suppressed d 0 t = (c, u)" by force
  have p: "dd_policy c = dd_policy d" "dd_attempt c = dd_attempt d"
    using c by (auto simp: suppressed_def Let_def)
  have u: "\<not> u" and ne: "e \<noteq> InvalidStatus terminal_handshake_status"
    using dec c a
    by (auto simp: after_connect_failure_def terminal_decision_def suppression_def
        split: if_splits)
  obtain w where w: "backoff c (dd_attempt c) r = Inr w"
    using dec c a u ne
    by (cases "backoff c (dd_attempt c) r") (auto simp: after_connect_failure_def retries_def)
  have "\<not> float_overflow \<le> (2 :: real) ^ dd_attempt c"
    using w f p
    by (auto simp: backoff_def exponential_delay_def float_pow_def andThen_Inr_iff Let_def
        split: if_splits)
  then have "dd_attempt c < 1024" using overflow_from_1024 not_le by blast
  with dec c u ne w p show ?thesis by (auto simp: after_connect_failure_def)
qed

text \<open>What happens between two connections: attempts are asked for, and fail.\<close>

fun outage :: "reconnect_event \<Rightarrow> bool" where
  "outage Connecting = True"
| "outage (ConnectFailed _) = True"
| "outage _ = False"

fun is_failure :: "reconnect_event \<Rightarrow> bool" where
  "is_failure (ConnectFailed _) = True"
| "is_failure _ = False"

definition failed_attempts :: "(readings \<times> reconnect_event) list \<Rightarrow> nat" where
  "failed_attempts es = length (filter (is_failure \<circ> snd) es)"

lemma failed_attempts_simps [simp]:
  "failed_attempts [] = 0"
  "failed_attempts (x # es) = (if is_failure (snd x) then Suc (failed_attempts es) else failed_attempts es)"
  by (simp_all add: failed_attempts_def)

text \<open>
  Claim C40: with a growth factor of 2, the default, the built-in policy retries at most 1024 failed
  attempts in a row, however long the outage lasts: from any state of the decider, while the client
  only asks for attempts and reports their failures and every answer is to go on, at most 1024 less
  the attempts counted so far fail. No rule of the policy says so, but \<open>factor ** attempt\<close> overflows
  from attempt 1024 on, before the cap \<open>max_delay_s\<close> is taken.
\<close>

theorem connect_retries_end:
  assumes "factor (dd_policy d) = 2" "list_all (outage \<circ> snd) es"
    and "decide_run d es = (d', answers)" "list_all retries answers"
  shows "failed_attempts es \<le> 1024 - dd_attempt d"
  using assms
proof (induction es arbitrary: d answers)
  case (Cons x es)
  obtain rd e where x: "x = (rd, e)" by force
  obtain c a where c: "default_decide d rd e = (c, a)" by force
  obtain bs where as: "answers = a # bs" and bs: "decide_run c es = (d', bs)"
    using Cons.prems(3) x c by (auto split: prod.splits)
  have IH: "failed_attempts es \<le> 1024 - dd_attempt c" if "factor (dd_policy c) = 2"
    using Cons.IH [OF that _ bs] Cons.prems(2,4) as by simp
  show ?case
  proof (cases e)
    case (ConnectFailed err)
    then have "dd_attempt d < 1024" "dd_attempt c = dd_attempt d + 1" "dd_policy c = dd_policy d"
      using retried_connect_failure [OF Cons.prems(1), of err "clock0 rd" "draw0 rd" c a] c Cons.prems(4) as
      by auto
    then show ?thesis using IH Cons.prems(1) x ConnectFailed by simp
  next
    case Connecting
    then show ?thesis using IH Cons.prems(1) x c by simp
  qed (use Cons.prems(2) x in simp_all)
qed simp

lemma connect_retries_end_witness:
  "\<exists>d' answers. decide_run (new_decider default_policy) [(sample_readings, Connecting),
       (sample_readings, ConnectFailed TimeoutError), (sample_readings, Connecting)] = (d', answers) \<and>
     list_all retries answers \<and> dd_attempt d' = 1 \<and>
   failed_attempts [(sample_readings, Connecting), (sample_readings, ConnectFailed TimeoutError),
     (sample_readings, Connecting)] \<le> 1024 - dd_attempt (new_decider default_policy)"
proof -
  let ?es = "[(sample_readings, Connecting), (sample_readings, ConnectFailed TimeoutError),
    (sample_readings, Connecting)]"
  obtain d as where r: "decide_run (new_decider default_policy) ?es = (d, as)" by force
  have "list_all retries as \<and> dd_attempt d = 1"
    using r
    by (auto simp: after_connect_failure_def suppressed_def new_decider_def default_policy_def
        backoff_def exponential_delay_def float_pow_def float_overflow_def rapid_floor_def
        rapid_floors_def equal_jitter_def random_between_def reconnect_decision_def isfinite_def
        Let_def retries_def proceed_def sample_readings_def)
  moreover have "factor (dd_policy (new_decider default_policy)) = 2"
    by (simp add: new_decider_def default_policy_def)
  ultimately show ?thesis using connect_retries_end [OF _ _ r] r by auto
qed

end
