(* ===== verification/Reconnect_Controller.thy ===== *)
theory Reconnect_Controller
  imports Default_Decider
begin

text \<open>
  How the client asks its decider and what it makes of the answer
  (\<open>reconnect_controller.py\<close>). A decider is the consumer's own callable or the built-in
  policy; the interface \<open>reconnect_decider\<close> states what the client needs of either.
\<close>

section \<open>Asking the decider\<close>

text \<open>What calling the decider gave: an exception, a coroutine, some other value, a decision.\<close>

datatype outcome = Raised exn | Coroutine | NotADecision | Answer decision

definition decider_failure :: "string \<Rightarrow> exn + decision" where
  "decider_failure msg = reconnect_decision False (Fin 0) (Some (SocketError (lit msg)))"

definition decide :: "reconnect_event \<Rightarrow> outcome \<Rightarrow> exn + decision" where
  "decide event out =
     (case out of
        Raised e \<Rightarrow>
          if is_exception e then decider_failure ''reconnect_decider failed'' else Inl e
      | Coroutine \<Rightarrow> decider_failure ''reconnect_decider must be synchronous''
      | NotADecision \<Rightarrow> decider_failure ''reconnect_decider returned no ReconnectDecision''
      | Answer d \<Rightarrow>
          if float_true (delay_s d) \<and> is_gate event
          then decider_failure ''reconnect_decider returned a delay for a gate''
          else Inr d)"

text \<open>
  The wait before a channel's own rejoin attempt: the policy's backoff without the floors
  that describe socket churn.
\<close>

definition channel_rejoin_delay :: "reconnect_policy \<Rightarrow> nat \<Rightarrow> real \<Rightarrow> exn + real" where
  "channel_rejoin_delay p attempt r =
     andThen (exponential_delay p attempt) (\<lambda>e. Inr (equal_jitter e r))"

text \<open>
  The code and reason a close is decided on: the close frame received, else the one sent,
  else what the connection object reports.
\<close>

definition extract_close_details ::
  "int option \<Rightarrow> pystr option \<Rightarrow> exn option \<Rightarrow> int option \<times> pystr" where
  "extract_close_details close_code close_reason routing_error =
     (let reported = (close_code, case close_reason of None \<Rightarrow> [] | Some s \<Rightarrow> s)
      in case routing_error of
           Some (ConnectionClosed (Some (code, reason)) _) \<Rightarrow> (Some code, reason)
         | Some (ConnectionClosed None (Some (code, reason))) \<Rightarrow> (Some code, reason)
         | _ \<Rightarrow> reported)"

section \<open>What the client relies on\<close>

lemma decider_failure_eq:
  "decider_failure msg =
     Inr \<lparr>should_reconnect = False, delay_s = Fin 0, terminal_error = Some (SocketError (lit msg))\<rparr>"
  by (simp add: decider_failure_def reconnect_decision_stop)

text \<open>A stop with a terminal socket error.\<close>

definition failure_stop :: "decision \<Rightarrow> bool" where
  "failure_stop d \<longleftrightarrow>
     \<not> should_reconnect d \<and> delay_s d = Fin 0 \<and> (\<exists>s. terminal_error d = Some (SocketError s))"

text \<open>An answer the client follows as it is.\<close>

definition followed :: "reconnect_event \<Rightarrow> outcome \<Rightarrow> bool" where
  "followed event out \<longleftrightarrow>
     (\<exists>d. out = Answer d \<and> \<not> (float_true (delay_s d) \<and> is_gate event))"

text \<open>
  A decider with its own state and readings: every decision it returns is one the
  constructor accepts, and it raises nothing the client does not catch.
\<close>

locale reconnect_decider =
  fixes ask :: "'s \<Rightarrow> 'r \<Rightarrow> reconnect_event \<Rightarrow> 's \<times> outcome"
    and good :: "'s \<Rightarrow> bool"
    and usable :: "'r \<Rightarrow> bool"
  assumes keeps: "good s \<Longrightarrow> usable r \<Longrightarrow> ask s r e = (s', a) \<Longrightarrow> good s'"
    and well_formed: "good s \<Longrightarrow> usable r \<Longrightarrow> ask s r e = (s', Answer d) \<Longrightarrow> decision_ok d"
    and catchable: "good s \<Longrightarrow> usable r \<Longrightarrow> ask s r e = (s', Raised x) \<Longrightarrow> is_exception x"
begin

lemma decided:
  assumes "good s" "usable r" "ask s r e = (s', a)"
  shows "\<exists>d. decide e a = Inr d \<and> decision_ok d \<and> (is_gate e \<longrightarrow> delay_s d = Fin 0) \<and>
    (\<not> followed e a \<longrightarrow> failure_stop d)"
proof (cases a)
  case (Raised x)
  with assms catchable show ?thesis
    by (auto simp: decide_def decider_failure_eq decision_ok_def failure_stop_def)
next
  case (Answer d)
  with assms well_formed show ?thesis
    by (auto simp: decide_def decider_failure_eq decision_ok_def failure_stop_def followed_def
        float_true_def)
qed (auto simp: decide_def decider_failure_eq decision_ok_def failure_stop_def)

lemma run_good:
  assumes "good s" "\<forall>(r, e) \<in> set qs. usable r"
  shows "good (foldl (\<lambda>s (r, e). fst (ask s r e)) s qs)"
  using assms by (induction qs arbitrary: s) (auto intro: keeps prod.collapse [symmetric])

end

text \<open>The built-in policy, asked the way the client asks it.\<close>

definition ask_default :: "decider \<Rightarrow> readings \<Rightarrow> reconnect_event \<Rightarrow> decider \<times> outcome" where
  "ask_default d rd event =
     (case default_decide d rd event of
        (d', Inr a) \<Rightarrow> (d', Answer a)
      | (d', Inl e) \<Rightarrow> (d', Raised e))"

definition ready :: "decider \<Rightarrow> bool" where
  "ready d \<longleftrightarrow> policy_ok (dd_policy d)"

lemma backoff_error: "backoff d n r = Inl e \<Longrightarrow> e = OverflowError"
  by (auto simp: backoff_def exponential_delay_def float_pow_def andThen_Inl_iff Let_def
      split: if_splits)

lemma reconnect_decision_error: "reconnect_decision go x t = Inl e \<Longrightarrow> \<exists>s. e = ValueError s"
  by (auto simp: reconnect_decision_def split: if_splits)

lemma stop_never_raises [simp]:
  "terminal_decision c \<noteq> Inl e" "suppression \<noteq> Inl e"
  by (simp_all add: terminal_decision_def suppression_def reconnect_decision_stop)

lemma stop_for_close_never_raises [simp]: "stop_for_close p code reason \<noteq> Some (Inl e)"
  by (auto simp: stop_for_close_def reconnect_decision_stop)

lemma after_connect_failure_raise:
  "after_connect_failure d err t r = (d', Inl e) \<Longrightarrow>
   is_exception e \<and> dd_policy d' = dd_policy d"
  by (auto simp: after_connect_failure_def is_exception_def split: if_splits prod.splits
      bool.splits sum.splits dest: backoff_error reconnect_decision_error suppressed_policy)

lemma after_close_raise:
  "after_close d code reason t0 t1 r0 r1 = (d', Inl e) \<Longrightarrow>
   is_exception e \<and> dd_policy d' = dd_policy d"
  by (auto simp: after_close_def is_exception_def andThen_Inl_iff count_attempt_def Let_def
      split: if_splits prod.splits bool.splits option.splits
      dest: backoff_error reconnect_decision_error suppressed_policy)

lemma default_decide_raise:
  "default_decide d rd event = (d', Inl e) \<Longrightarrow> is_exception e \<and> dd_policy d' = dd_policy d"
  by (cases event) (auto dest: after_close_raise after_connect_failure_raise)

lemma default_decide_answer:
  "policy_ok (dd_policy d) \<Longrightarrow> readings_ok rd \<Longrightarrow> default_decide d rd event = (d', Inr a) \<Longrightarrow>
   dd_policy d' = dd_policy d \<and> decision_ok a"
  by (cases event)
    (auto simp: readings_ok_def bounded_answer_def
      dest: after_close_bounded after_connect_failure_bounded)

interpretation builtin: reconnect_decider ask_default ready readings_ok
proof
  fix d rd e d' a
  assume "ready d" "readings_ok rd" "ask_default d rd e = (d', a)"
  moreover obtain c x where "default_decide d rd e = (c, x)" by force
  ultimately show "ready d'"
    using default_decide_raise [of d rd e c] default_decide_answer [of d rd e c]
    by (auto simp: ask_default_def ready_def split: sum.splits)
next
  fix d rd e d' a
  assume "ready d" "readings_ok rd" "ask_default d rd e = (d', Answer a)"
  then show "decision_ok a"
    by (auto simp: ask_default_def ready_def split: prod.splits sum.splits
        dest: default_decide_answer)
next
  fix d rd e d' x
  assume "ready d" "readings_ok rd" "ask_default d rd e = (d', Raised x)"
  then show "is_exception x"
    by (auto simp: ask_default_def split: prod.splits sum.splits dest: default_decide_raise)
qed

section \<open>Properties\<close>

text \<open>What the client makes of any answer: the answer itself, or a stop.\<close>

lemma decide_usable:
  assumes "out \<noteq> Raised CancelledError" "\<forall>a. out = Answer a \<longrightarrow> decision_ok a"
  shows "\<exists>x. decide event out = Inr x \<and> decision_ok x \<and> (is_gate event \<longrightarrow> delay_s x = Fin 0) \<and>
    (if (\<exists>a. out = Answer a \<and> (is_gate event \<longrightarrow> delay_s a = Fin 0))
     then out = Answer x else failure_stop x)"
  using assms
  by (cases out)
    (auto simp: decide_def decider_failure_eq decision_ok_def failure_stop_def float_true_def is_exception_def)

text \<open>
  Claim C38: the client always gets a usable decision. The built-in policy, whatever the event and
  the readings: before a connection attempt and on a connection (the gates) the decision is to
  proceed; otherwise it is the policy's answer; and where the policy fails to answer (its backoff
  overflows) the client is stopped with a terminal socket error. And a consumer's decider, whatever
  calling it does short of being cancelled - it raises, returns a coroutine or something else that is
  no decision, or a decision, which its constructor checked: the decision is followed as it is unless
  it answers a gate with a wait, and in each other case the client is stopped with a terminal
  socket error; a gate never leaves with a wait that would be dropped.
\<close>

theorem builtin_policy_decides:
  assumes "policy_ok (dd_policy d)" "readings_ok rd" "ask_default d rd event = (d', out)"
    and "theirs \<noteq> Raised CancelledError" "\<forall>a. theirs = Answer a \<longrightarrow> decision_ok a"
  shows "(\<exists>x. decide event out = Inr x \<and> decision_ok x \<and> (is_gate event \<longrightarrow> x = proceed) \<and>
      (case default_decide d rd event of (_, Inr a) \<Rightarrow> x = a | (_, Inl e) \<Rightarrow> failure_stop x)) \<and>
    (\<exists>x. decide event theirs = Inr x \<and> decision_ok x \<and> (is_gate event \<longrightarrow> delay_s x = Fin 0) \<and>
      (if (\<exists>a. theirs = Answer a \<and> (is_gate event \<longrightarrow> delay_s a = Fin 0))
       then theirs = Answer x else failure_stop x))"
proof
  obtain c r where c: "default_decide d rd event = (c, r)" by force
  have g: "is_gate event \<Longrightarrow> r = Inr proceed" using c by (cases event) auto
  obtain x where x: "decide event out = Inr x" "decision_ok x" "\<not> followed event out \<longrightarrow> failure_stop x"
    using builtin.decided [OF _ assms(2,3)] assms(1) by (auto simp: ready_def)
  show "\<exists>x. decide event out = Inr x \<and> decision_ok x \<and> (is_gate event \<longrightarrow> x = proceed) \<and>
      (case default_decide d rd event of (_, Inr a) \<Rightarrow> x = a | (_, Inl e) \<Rightarrow> failure_stop x)"
    using x g assms(3) c
    by (cases r) (auto simp: ask_default_def followed_def decide_def proceed_def float_true_def split: if_splits)
qed (rule decide_usable [OF assms(4,5)])

definition waiting_gate :: decision where
  "waiting_gate = \<lparr>should_reconnect = True, delay_s = Fin 5, terminal_error = None\<rparr>"

lemma builtin_policy_decides_witness:
  "decide (Connected 1) (snd (ask_default (new_decider default_policy) sample_readings (Connected 1))) =
     Inr proceed \<and>
   (\<exists>x. decide (Connected 1) (Answer waiting_gate) = Inr x \<and> failure_stop x)"
proof -
  obtain d out where a: "ask_default (new_decider default_policy) sample_readings (Connected 1) = (d, out)"
    by force
  have ok: "policy_ok (dd_policy (new_decider default_policy))" "readings_ok sample_readings"
    "decision_ok waiting_gate"
    by (simp_all add: new_decider_def default_policy_ok readings_ok_def draw_def sample_readings_def
        decision_ok_def waiting_gate_def)
  have w: "float_true (delay_s waiting_gate)" by (simp add: waiting_gate_def float_true_def)
  show ?thesis
    using builtin_policy_decides [OF ok(1,2) a, of "Answer waiting_gate"] ok(3) w a by (auto simp: float_true_def)
qed

text \<open>
  A channel's rejoin attempt \<open>n\<close> waits between half and all of the capped exponential backoff, as
  long as \<open>factor ** n\<close> is a finite double; with the default factor 2 the computation overflows
  from attempt 1024 on.
\<close>

lemma rejoin_delay_range:
  assumes "policy_ok p" "factor p = 2" "draw r"
  shows "if n < 1024
    then \<exists>w. channel_rejoin_delay p n r = Inr w \<and>
      min (max_delay_s p) (base_delay_s p * 2 ^ n) / 2 \<le> w \<and>
      w \<le> min (max_delay_s p) (base_delay_s p * 2 ^ n)
    else channel_rejoin_delay p n r = Inl OverflowError"
proof (cases "n < 1024")
  case True
  have "(2 :: real) ^ n \<le> 2 ^ 1023" using True by (intro power_increasing) auto
  then have "\<not> float_overflow \<le> (2 :: real) ^ n" by (simp add: float_overflow_def)
  moreover have "0 \<le> min (max_delay_s p) (base_delay_s p * 2 ^ n)"
    using policy_ok_nonneg [OF assms(1)] by simp
  ultimately show ?thesis
    using True assms(2) equal_jitter_bounds [OF assms(3), of "min (max_delay_s p) (base_delay_s p * 2 ^ n)"]
    by (simp add: channel_rejoin_delay_def exponential_delay_def float_pow_def)
next
  case False
  with overflow_from_1024 [of n] assms(2) show ?thesis
    by (simp add: channel_rejoin_delay_def exponential_delay_def float_pow_def)
qed

end
