(* ===== verification/Runtime_State.thy ===== *)
theory Runtime_State
  imports Codec Reconnect_Controller
begin

text \<open>
  The state the channel runtime works on: the topic subscriptions
  (\<open>topic_subscription.py\<close>), the send sessions' bookkeeping (\<open>send_session.py\<close>) and the
  attributes of the client (\<open>client.py\<close>). Objects the code shares by reference live in heaps
  of the client record, found by their number; one counter numbers them all. A number stands
  for the object's identity, so \<open>is\<close> compares numbers.
\<close>

section \<open>Identities, futures and tasks\<close>

type_synonym sid = nat
type_synonym fid = nat
type_synonym tid = nat
type_synonym cid = nat
type_synonym ssid = nat

text \<open>
  An \<open>asyncio.Future\<close>; a join's or a leave's result is \<open>None\<close>, a push's is its reply.
  \<open>Set_Twice\<close> marks a future that was given an outcome when it was done already: asyncio refuses
  that with \<open>InvalidStateError\<close>. No run of the client has such a future.
\<close>

datatype fut = Pending | Result "reply option" | Failed exn | Cancelled | Set_Twice

definition fut_done :: "fut \<Rightarrow> bool" where
  "fut_done f \<longleftrightarrow> f \<noteq> Pending"

text \<open>
  What the continuation of one channel send captures: its topic, the event, the
  join it belongs to, its connection and the frame, encoded before anything is scheduled.
\<close>

record send_request =
  q_topic :: sid
  q_event :: event
  q_join_ref :: "pystr option"
  q_connection :: cid
  q_frame :: ws_frame

definition q_joining :: "send_request \<Rightarrow> bool" where
  "q_joining q \<longleftrightarrow> event_is (q_event q) SysJoin"

definition q_leaving :: "send_request \<Rightarrow> bool" where
  "q_leaving q \<longleftrightarrow> event_is (q_event q) SysLeave"

lemma joining_not_leaving: "q_joining q \<Longrightarrow> \<not> q_leaving q"
  by (auto simp: q_joining_def q_leaving_def event_is_def)

text \<open>The coroutines the client starts as tasks.\<close>

datatype work =
    Process_Topic_Messages pystr
  | Run_Handlers message "nat option" "nat option"
  | Recover_Channel sid nat bool
  | Lose_Topic sid exn
  | Report_Topic_Lost sid exn
  | Leave_And_Cleanup sid "tid option"
  | Close_Send_Session ssid
  | Send_Frame ssid fid send_request
  | Supervisor_Loop
  | Start_Processing cid nat
  | Heartbeat_Loop cid
  | Shutdown_Client

text \<open>A task: its coroutine, whether it has ended and whether a cancel was requested.\<close>

record task =
  k_work :: work
  k_done :: bool
  k_cancel :: bool

section \<open>Topic subscriptions\<close>

datatype channel_state = CREATED | JOINING | JOINED | REJOINING | LEFT

datatype channel_cause =
    ACCEPTED | REJECTED | CONFIGURATION | CRASH | CLOSE | TRANSPORT | TIMEOUT | LEAVE | STOP

text \<open>
  What a synchronous application callback did: returned \<open>None\<close>, returned something else,
  raised.
\<close>

datatype hook_result = Returned_None | Returned_Other | Hook_Raised exn

text \<open>
  The join parameters: absent, a dict, a provider, or another value. A provider is called anew for
  each join and each rejoin, and may answer differently each time; every one of them has a new
  reference, so a provider is what calling it gives for the join of each reference.
\<close>

datatype join_params =
    No_Params
  | Dict_Params "(pystr, json) dict"
  | Provider "pystr \<Rightarrow> exn + pyval"
  | Other_Params

record topic =
  t_name :: pystr
  t_async_callback :: "nat option"
  t_queue :: "message list"
  t_join_ref :: pystr
  t_process_task :: "tid option"
  t_join_ready :: "fid option"
  t_unsubscribed :: "fid option"
  t_state :: channel_state
  t_cause :: "channel_cause option"
  t_params :: join_params
  t_connection :: "cid option"
  t_join_submitted :: bool
  t_terminal_received :: bool
  t_leave_task :: "tid option"
  t_pending_pushes :: "(pystr, fid) dict"
  t_send_outcomes :: "fid list"
  t_send_session :: "ssid option"
  t_cleanup_done :: bool
  t_loss_reported :: bool
  t_leave_requested :: bool
  t_event_handlers :: "(pystr, nat) dict"
  t_on_join_response :: "(json \<Rightarrow> hook_result) option"
  t_hook_async :: bool
  t_blocks_reconnect :: bool
  t_established :: bool
  t_leave_ref :: "pystr option"
  t_conn_generation :: nat
  t_dropped :: nat
  t_callback_task :: "tid option"
  t_restart_requested :: bool
  t_recovery_task :: "tid option"

definition new_subscription ::
  "pystr \<Rightarrow> join_params \<Rightarrow> (json \<Rightarrow> hook_result) option \<Rightarrow> bool \<Rightarrow> bool \<Rightarrow> topic" where
  "new_subscription name params hook hook_async blocks =
     \<lparr>t_name = name, t_async_callback = None, t_queue = [], t_join_ref = [],
      t_process_task = None, t_join_ready = None, t_unsubscribed = None, t_state = CREATED,
      t_cause = None, t_params = params, t_connection = None, t_join_submitted = False,
      t_terminal_received = False, t_leave_task = None, t_pending_pushes = [],
      t_send_outcomes = [], t_send_session = None, t_cleanup_done = False,
      t_loss_reported = False, t_leave_requested = False, t_event_handlers = [],
      t_on_join_response = hook, t_hook_async = hook_async, t_blocks_reconnect = blocks,
      t_established = False, t_leave_ref = None, t_conn_generation = 0, t_dropped = 0,
      t_callback_task = None, t_restart_requested = False, t_recovery_task = None\<rparr>"

subsection \<open>Handlers\<close>

text \<open>
  A handler is a number. The dict is keyed by event, and an event and its text are equal keys.
\<close>

definition add_event_handler :: "topic \<Rightarrow> event \<Rightarrow> nat \<Rightarrow> exn + topic" where
  "add_event_handler t e h =
     (if client_lifecycle e then
        Inl (ValueError (event_text e @ lit '' is handled by the client; use on_topic_lost and ''
               @ lit ''channel.joined instead''))
      else Inr (t\<lparr>t_event_handlers := dict_set (event_text e) h (t_event_handlers t)\<rparr>))"

definition remove_event_handler :: "topic \<Rightarrow> event \<Rightarrow> topic" where
  "remove_event_handler t e =
     t\<lparr>t_event_handlers := dict_pop (event_text e) (t_event_handlers t)\<rparr>"

definition get_event_handler :: "topic \<Rightarrow> event \<Rightarrow> nat option" where
  "get_event_handler t e = dict_get (t_event_handlers t) (event_text e)"

definition has_event_handler :: "topic \<Rightarrow> event \<Rightarrow> bool" where
  "has_event_handler t e \<longleftrightarrow> event_text e \<in> set (map fst (t_event_handlers t))"

section \<open>Send sessions\<close>

record send_operation =
  o_timeout_error :: exn
  o_task :: tid
  o_timer :: bool
  o_submitted :: bool

record session =
  s_connection :: cid
  s_generation :: nat
  s_operations :: "(fid, send_operation) dict"
  s_retired :: bool
  s_failed :: bool

section \<open>The client\<close>

text \<open>
  \<open>c_sent\<close> logs the frames handed to a connection, \<open>c_lost\<close> the losses that are
  reported (to \<open>on_topic_lost\<close>, where it is set): they are what the outside sees. \<open>c_str\<close> is Python's \<open>str\<close> on a JSON value that is no string.
\<close>

record client =
  c_connection :: "cid option"
  c_state :: client_state
  c_ref_counter :: nat
  c_generation :: nat
  c_registry :: "(pystr, sid) dict"
  c_version :: protocol_version
  c_shutdown :: bool
  c_join_timeout :: pyfloat
  c_leave_timeout :: pyfloat
  c_max_queue :: nat
  c_lifecycle_tasks :: "tid list"
  c_cleanup_tasks :: "tid list"
  c_send_session :: "ssid option"
  c_sub :: "sid \<Rightarrow> topic"
  c_fut :: "fid \<Rightarrow> fut"
  c_task :: "tid \<Rightarrow> task"
  c_sess :: "ssid \<Rightarrow> session"
  c_next :: nat
  c_sent :: "(cid \<times> ws_frame) list"
  c_lost :: "(pystr \<times> exn) list"
  c_str :: "json \<Rightarrow> pystr"

subsection \<open>Heap access\<close>

definition upd_topic :: "sid \<Rightarrow> (topic \<Rightarrow> topic) \<Rightarrow> client \<Rightarrow> client" where
  "upd_topic s f c = c\<lparr>c_sub := (c_sub c)(s := f (c_sub c s))\<rparr>"

definition upd_session :: "ssid \<Rightarrow> (session \<Rightarrow> session) \<Rightarrow> client \<Rightarrow> client" where
  "upd_session ss f c = c\<lparr>c_sess := (c_sess c)(ss := f (c_sess c ss))\<rparr>"

definition new_future :: "client \<Rightarrow> fid \<times> client" where
  "new_future c = (c_next c, c\<lparr>c_fut := (c_fut c)(c_next c := Pending), c_next := c_next c + 1\<rparr>)"

definition new_task :: "work \<Rightarrow> client \<Rightarrow> tid \<times> client" where
  "new_task w c =
     (c_next c,
      c\<lparr>c_task := (c_task c)(c_next c := \<lparr>k_work = w, k_done = False, k_cancel = False\<rparr>),
        c_next := c_next c + 1\<rparr>)"

definition new_topic :: "topic \<Rightarrow> client \<Rightarrow> sid \<times> client" where
  "new_topic t c = (c_next c, c\<lparr>c_sub := (c_sub c)(c_next c := t), c_next := c_next c + 1\<rparr>)"

definition task_done :: "client \<Rightarrow> tid \<Rightarrow> bool" where
  "task_done c k \<longleftrightarrow> k_done (c_task c k)"

definition request_cancel :: "tid \<Rightarrow> client \<Rightarrow> client" where
  "request_cancel k c = c\<lparr>c_task := (c_task c)(k := (c_task c k)\<lparr>k_cancel := True\<rparr>)\<rparr>"

text \<open>
  \<open>set_exception\<close> and \<open>set_result\<close> of a future: where it is done already, they raise
  \<open>InvalidStateError\<close>. That the client never gets there is for its own guards to see to.
\<close>

definition put_outcome :: "fid \<Rightarrow> fut \<Rightarrow> client \<Rightarrow> client" where
  "put_outcome f x c =
     c\<lparr>c_fut := (c_fut c)(f := (if fut_done (c_fut c f) then Set_Twice else x))\<rparr>"

definition set_future_result :: "fid \<Rightarrow> reply option \<Rightarrow> client \<Rightarrow> client" where
  "set_future_result f r = put_outcome f (Result r)"

text \<open>
  \<open>_set_future_exception\<close>, and \<open>_fail\<close> of \<open>send_session.py\<close>, which is the same: only a
  future that is not done is failed.
\<close>

definition set_future_exception :: "fid \<Rightarrow> exn \<Rightarrow> client \<Rightarrow> client" where
  "set_future_exception f e c =
     (if fut_done (c_fut c f) then c else put_outcome f (Failed e) c)"

text \<open>\<open>future.cancel()\<close> does nothing to a future that is done.\<close>

definition cancel_future :: "fid \<Rightarrow> client \<Rightarrow> client" where
  "cancel_future f c =
     (if fut_done (c_fut c f) then c else c\<lparr>c_fut := (c_fut c)(f := Cancelled)\<rparr>)"

text \<open>
  The two lazily created futures of a topic: the property creates a pending future where there
  is none. Reading one that was never created is reading a pending future.
\<close>

definition current_join_ready :: "sid \<Rightarrow> client \<Rightarrow> fid \<times> client" where
  "current_join_ready s c =
     (case t_join_ready (c_sub c s) of
        Some f \<Rightarrow> (f, c)
      | None \<Rightarrow> (let (f, c1) = new_future c in (f, upd_topic s (\<lambda>t. t\<lparr>t_join_ready := Some f\<rparr>) c1)))"

definition unsubscribe_completed :: "sid \<Rightarrow> client \<Rightarrow> fid \<times> client" where
  "unsubscribe_completed s c =
     (case t_unsubscribed (c_sub c s) of
        Some f \<Rightarrow> (f, c)
      | None \<Rightarrow> (let (f, c1) = new_future c in (f, upd_topic s (\<lambda>t. t\<lparr>t_unsubscribed := Some f\<rparr>) c1)))"

definition join_future :: "client \<Rightarrow> sid \<Rightarrow> fut" where
  "join_future c s = (case t_join_ready (c_sub c s) of None \<Rightarrow> Pending | Some f \<Rightarrow> c_fut c f)"

definition unsubscribe_future :: "client \<Rightarrow> sid \<Rightarrow> fut" where
  "unsubscribe_future c s =
     (case t_unsubscribed (c_sub c s) of None \<Rightarrow> Pending | Some f \<Rightarrow> c_fut c f)"

subsection \<open>Questions the runtime asks\<close>

definition is_connected :: "client \<Rightarrow> bool" where
  "is_connected c \<longleftrightarrow> c_state c = CONNECTED \<and> c_connection c \<noteq> None"

definition is_registered :: "client \<Rightarrow> sid \<Rightarrow> bool" where
  "is_registered c s \<longleftrightarrow> dict_get (c_registry c) (t_name (c_sub c s)) = Some s"

definition is_on_current_connection :: "client \<Rightarrow> sid \<Rightarrow> bool" where
  "is_on_current_connection c s \<longleftrightarrow>
     is_connected c \<and> t_conn_generation (c_sub c s) = c_generation c \<and>
     (t_connection (c_sub c s) = None \<or> t_connection (c_sub c s) = c_connection c)"

definition is_current_join_ready :: "client \<Rightarrow> sid \<Rightarrow> bool" where
  "is_current_join_ready c s \<longleftrightarrow>
     (case join_future c s of
        Pending \<Rightarrow> False | Cancelled \<Rightarrow> False | Failed _ \<Rightarrow> False | Result _ \<Rightarrow> True
      | Set_Twice \<Rightarrow> False)"

definition channel_joined :: "client \<Rightarrow> sid \<Rightarrow> bool" where
  "channel_joined c s \<longleftrightarrow>
     t_state (c_sub c s) = JOINED \<and> is_registered c s \<and> is_on_current_connection c s \<and>
     is_current_join_ready c s \<and> \<not> t_leave_requested (c_sub c s)"

definition is_recovering :: "client \<Rightarrow> sid \<Rightarrow> bool" where
  "is_recovering c s \<longleftrightarrow>
     (case t_recovery_task (c_sub c s) of None \<Rightarrow> False | Some k \<Rightarrow> \<not> task_done c k)"

definition should_rejoin :: "client \<Rightarrow> sid \<Rightarrow> bool" where
  "should_rejoin c s \<longleftrightarrow>
     is_registered c s \<and> t_established (c_sub c s) \<and> \<not> t_leave_requested (c_sub c s) \<and>
     t_state (c_sub c s) \<noteq> LEFT"

definition can_recover :: "client \<Rightarrow> sid \<Rightarrow> nat \<Rightarrow> bool" where
  "can_recover c s generation \<longleftrightarrow>
     \<not> c_shutdown c \<and> should_rejoin c s \<and> is_connected c \<and> generation = c_generation c"

definition channel_recoveries :: "client \<Rightarrow> tid list" where
  "channel_recoveries c =
     List.map_filter (\<lambda>s. t_recovery_task (c_sub c s)) (dict_values (c_registry c))"

definition generate_ref :: "client \<Rightarrow> pystr \<times> client" where
  "generate_ref c = (str_nat (c_ref_counter c + 1), c\<lparr>c_ref_counter := c_ref_counter c + 1\<rparr>)"

definition ensure_can_send :: "string \<Rightarrow> client \<Rightarrow> exn + client" where
  "ensure_can_send operation c =
     (if \<not> is_connected c then
        Inl (SocketError (lit ''Cannot '' @ lit operation @ lit '' while client is ''
               @ client_state_text (c_state c) @ lit ''. Wait for reconnection.''))
      else Inr c)"

subsection \<open>What the primitives leave alone\<close>

lemma upd_topic_sel [simp]:
  "c_sub (upd_topic s f c) = (c_sub c)(s := f (c_sub c s))"
  "c_connection (upd_topic s f c) = c_connection c"
  "c_state (upd_topic s f c) = c_state c"
  "c_ref_counter (upd_topic s f c) = c_ref_counter c"
  "c_generation (upd_topic s f c) = c_generation c"
  "c_registry (upd_topic s f c) = c_registry c"
  "c_version (upd_topic s f c) = c_version c"
  "c_shutdown (upd_topic s f c) = c_shutdown c"
  "c_join_timeout (upd_topic s f c) = c_join_timeout c"
  "c_leave_timeout (upd_topic s f c) = c_leave_timeout c"
  "c_max_queue (upd_topic s f c) = c_max_queue c"
  "c_lifecycle_tasks (upd_topic s f c) = c_lifecycle_tasks c"
  "c_cleanup_tasks (upd_topic s f c) = c_cleanup_tasks c"
  "c_send_session (upd_topic s f c) = c_send_session c"
  "c_fut (upd_topic s f c) = c_fut c"
  "c_task (upd_topic s f c) = c_task c"
  "c_sess (upd_topic s f c) = c_sess c"
  "c_next (upd_topic s f c) = c_next c"
  "c_sent (upd_topic s f c) = c_sent c"
  "c_lost (upd_topic s f c) = c_lost c"
  "c_str (upd_topic s f c) = c_str c"
  by (simp_all add: upd_topic_def)

lemma upd_session_sel [simp]:
  "c_sess (upd_session ss g c) = (c_sess c)(ss := g (c_sess c ss))"
  "c_connection (upd_session ss g c) = c_connection c"
  "c_state (upd_session ss g c) = c_state c"
  "c_ref_counter (upd_session ss g c) = c_ref_counter c"
  "c_generation (upd_session ss g c) = c_generation c"
  "c_registry (upd_session ss g c) = c_registry c"
  "c_version (upd_session ss g c) = c_version c"
  "c_shutdown (upd_session ss g c) = c_shutdown c"
  "c_join_timeout (upd_session ss g c) = c_join_timeout c"
  "c_leave_timeout (upd_session ss g c) = c_leave_timeout c"
  "c_max_queue (upd_session ss g c) = c_max_queue c"
  "c_lifecycle_tasks (upd_session ss g c) = c_lifecycle_tasks c"
  "c_cleanup_tasks (upd_session ss g c) = c_cleanup_tasks c"
  "c_send_session (upd_session ss g c) = c_send_session c"
  "c_sub (upd_session ss g c) = c_sub c"
  "c_fut (upd_session ss g c) = c_fut c"
  "c_task (upd_session ss g c) = c_task c"
  "c_next (upd_session ss g c) = c_next c"
  "c_sent (upd_session ss g c) = c_sent c"
  "c_lost (upd_session ss g c) = c_lost c"
  "c_str (upd_session ss g c) = c_str c"
  by (simp_all add: upd_session_def)

lemma set_future_exception_sel [simp]:
  "c_fut (set_future_exception f e c) = (if fut_done (c_fut c f) then c_fut c else (c_fut c)(f := Failed e))"
  "c_connection (set_future_exception f e c) = c_connection c"
  "c_state (set_future_exception f e c) = c_state c"
  "c_ref_counter (set_future_exception f e c) = c_ref_counter c"
  "c_generation (set_future_exception f e c) = c_generation c"
  "c_registry (set_future_exception f e c) = c_registry c"
  "c_version (set_future_exception f e c) = c_version c"
  "c_shutdown (set_future_exception f e c) = c_shutdown c"
  "c_join_timeout (set_future_exception f e c) = c_join_timeout c"
  "c_leave_timeout (set_future_exception f e c) = c_leave_timeout c"
  "c_max_queue (set_future_exception f e c) = c_max_queue c"
  "c_lifecycle_tasks (set_future_exception f e c) = c_lifecycle_tasks c"
  "c_cleanup_tasks (set_future_exception f e c) = c_cleanup_tasks c"
  "c_send_session (set_future_exception f e c) = c_send_session c"
  "c_sub (set_future_exception f e c) = c_sub c"
  "c_task (set_future_exception f e c) = c_task c"
  "c_sess (set_future_exception f e c) = c_sess c"
  "c_next (set_future_exception f e c) = c_next c"
  "c_sent (set_future_exception f e c) = c_sent c"
  "c_lost (set_future_exception f e c) = c_lost c"
  "c_str (set_future_exception f e c) = c_str c"
  by (simp_all add: set_future_exception_def put_outcome_def)

lemma set_future_result_sel [simp]:
  "c_fut (set_future_result f e c) =
     (c_fut c)(f := (if fut_done (c_fut c f) then Set_Twice else Result e))"
  "c_connection (set_future_result f e c) = c_connection c"
  "c_state (set_future_result f e c) = c_state c"
  "c_ref_counter (set_future_result f e c) = c_ref_counter c"
  "c_generation (set_future_result f e c) = c_generation c"
  "c_registry (set_future_result f e c) = c_registry c"
  "c_version (set_future_result f e c) = c_version c"
  "c_shutdown (set_future_result f e c) = c_shutdown c"
  "c_join_timeout (set_future_result f e c) = c_join_timeout c"
  "c_leave_timeout (set_future_result f e c) = c_leave_timeout c"
  "c_max_queue (set_future_result f e c) = c_max_queue c"
  "c_lifecycle_tasks (set_future_result f e c) = c_lifecycle_tasks c"
  "c_cleanup_tasks (set_future_result f e c) = c_cleanup_tasks c"
  "c_send_session (set_future_result f e c) = c_send_session c"
  "c_sub (set_future_result f e c) = c_sub c"
  "c_task (set_future_result f e c) = c_task c"
  "c_sess (set_future_result f e c) = c_sess c"
  "c_next (set_future_result f e c) = c_next c"
  "c_sent (set_future_result f e c) = c_sent c"
  "c_lost (set_future_result f e c) = c_lost c"
  "c_str (set_future_result f e c) = c_str c"
  by (simp_all add: set_future_result_def put_outcome_def)

lemma cancel_future_sel [simp]:
  "c_fut (cancel_future f c) = (if fut_done (c_fut c f) then c_fut c else (c_fut c)(f := Cancelled))"
  "c_connection (cancel_future f c) = c_connection c"
  "c_state (cancel_future f c) = c_state c"
  "c_ref_counter (cancel_future f c) = c_ref_counter c"
  "c_generation (cancel_future f c) = c_generation c"
  "c_registry (cancel_future f c) = c_registry c"
  "c_version (cancel_future f c) = c_version c"
  "c_shutdown (cancel_future f c) = c_shutdown c"
  "c_join_timeout (cancel_future f c) = c_join_timeout c"
  "c_leave_timeout (cancel_future f c) = c_leave_timeout c"
  "c_max_queue (cancel_future f c) = c_max_queue c"
  "c_lifecycle_tasks (cancel_future f c) = c_lifecycle_tasks c"
  "c_cleanup_tasks (cancel_future f c) = c_cleanup_tasks c"
  "c_send_session (cancel_future f c) = c_send_session c"
  "c_sub (cancel_future f c) = c_sub c"
  "c_task (cancel_future f c) = c_task c"
  "c_sess (cancel_future f c) = c_sess c"
  "c_next (cancel_future f c) = c_next c"
  "c_sent (cancel_future f c) = c_sent c"
  "c_lost (cancel_future f c) = c_lost c"
  "c_str (cancel_future f c) = c_str c"
  by (simp_all add: cancel_future_def)

lemma request_cancel_sel [simp]:
  "c_task (request_cancel k c) = (c_task c)(k := (c_task c k)\<lparr>k_cancel := True\<rparr>)"
  "c_connection (request_cancel k c) = c_connection c"
  "c_state (request_cancel k c) = c_state c"
  "c_ref_counter (request_cancel k c) = c_ref_counter c"
  "c_generation (request_cancel k c) = c_generation c"
  "c_registry (request_cancel k c) = c_registry c"
  "c_version (request_cancel k c) = c_version c"
  "c_shutdown (request_cancel k c) = c_shutdown c"
  "c_join_timeout (request_cancel k c) = c_join_timeout c"
  "c_leave_timeout (request_cancel k c) = c_leave_timeout c"
  "c_max_queue (request_cancel k c) = c_max_queue c"
  "c_lifecycle_tasks (request_cancel k c) = c_lifecycle_tasks c"
  "c_cleanup_tasks (request_cancel k c) = c_cleanup_tasks c"
  "c_send_session (request_cancel k c) = c_send_session c"
  "c_sub (request_cancel k c) = c_sub c"
  "c_fut (request_cancel k c) = c_fut c"
  "c_sess (request_cancel k c) = c_sess c"
  "c_next (request_cancel k c) = c_next c"
  "c_sent (request_cancel k c) = c_sent c"
  "c_lost (request_cancel k c) = c_lost c"
  "c_str (request_cancel k c) = c_str c"
  by (simp_all add: request_cancel_def)

lemma new_future_sel [simp]:
  "fst (new_future c) = c_next c"
  "c_fut (snd (new_future c)) = (c_fut c)(c_next c := Pending)"
  "c_next (snd (new_future c)) = c_next c + 1"
  "c_connection (snd (new_future c)) = c_connection c"
  "c_state (snd (new_future c)) = c_state c"
  "c_ref_counter (snd (new_future c)) = c_ref_counter c"
  "c_generation (snd (new_future c)) = c_generation c"
  "c_registry (snd (new_future c)) = c_registry c"
  "c_version (snd (new_future c)) = c_version c"
  "c_shutdown (snd (new_future c)) = c_shutdown c"
  "c_join_timeout (snd (new_future c)) = c_join_timeout c"
  "c_leave_timeout (snd (new_future c)) = c_leave_timeout c"
  "c_max_queue (snd (new_future c)) = c_max_queue c"
  "c_lifecycle_tasks (snd (new_future c)) = c_lifecycle_tasks c"
  "c_cleanup_tasks (snd (new_future c)) = c_cleanup_tasks c"
  "c_send_session (snd (new_future c)) = c_send_session c"
  "c_sub (snd (new_future c)) = c_sub c"
  "c_task (snd (new_future c)) = c_task c"
  "c_sess (snd (new_future c)) = c_sess c"
  "c_sent (snd (new_future c)) = c_sent c"
  "c_lost (snd (new_future c)) = c_lost c"
  "c_str (snd (new_future c)) = c_str c"
  by (simp_all add: new_future_def)

lemma new_task_sel [simp]:
  "fst (new_task w c) = c_next c"
  "c_task (snd (new_task w c)) = (c_task c)(c_next c := \<lparr>k_work = w, k_done = False, k_cancel = False\<rparr>)"
  "c_next (snd (new_task w c)) = c_next c + 1"
  "c_connection (snd (new_task w c)) = c_connection c"
  "c_state (snd (new_task w c)) = c_state c"
  "c_ref_counter (snd (new_task w c)) = c_ref_counter c"
  "c_generation (snd (new_task w c)) = c_generation c"
  "c_registry (snd (new_task w c)) = c_registry c"
  "c_version (snd (new_task w c)) = c_version c"
  "c_shutdown (snd (new_task w c)) = c_shutdown c"
  "c_join_timeout (snd (new_task w c)) = c_join_timeout c"
  "c_leave_timeout (snd (new_task w c)) = c_leave_timeout c"
  "c_max_queue (snd (new_task w c)) = c_max_queue c"
  "c_lifecycle_tasks (snd (new_task w c)) = c_lifecycle_tasks c"
  "c_cleanup_tasks (snd (new_task w c)) = c_cleanup_tasks c"
  "c_send_session (snd (new_task w c)) = c_send_session c"
  "c_sub (snd (new_task w c)) = c_sub c"
  "c_fut (snd (new_task w c)) = c_fut c"
  "c_sess (snd (new_task w c)) = c_sess c"
  "c_sent (snd (new_task w c)) = c_sent c"
  "c_lost (snd (new_task w c)) = c_lost c"
  "c_str (snd (new_task w c)) = c_str c"
  by (simp_all add: new_task_def)

lemma generate_ref_sel [simp]:
  "fst (generate_ref c) = str_nat (c_ref_counter c + 1)"
  "c_ref_counter (snd (generate_ref c)) = c_ref_counter c + 1"
  "c_connection (snd (generate_ref c)) = c_connection c"
  "c_state (snd (generate_ref c)) = c_state c"
  "c_generation (snd (generate_ref c)) = c_generation c"
  "c_registry (snd (generate_ref c)) = c_registry c"
  "c_version (snd (generate_ref c)) = c_version c"
  "c_shutdown (snd (generate_ref c)) = c_shutdown c"
  "c_join_timeout (snd (generate_ref c)) = c_join_timeout c"
  "c_leave_timeout (snd (generate_ref c)) = c_leave_timeout c"
  "c_max_queue (snd (generate_ref c)) = c_max_queue c"
  "c_lifecycle_tasks (snd (generate_ref c)) = c_lifecycle_tasks c"
  "c_cleanup_tasks (snd (generate_ref c)) = c_cleanup_tasks c"
  "c_send_session (snd (generate_ref c)) = c_send_session c"
  "c_sub (snd (generate_ref c)) = c_sub c"
  "c_fut (snd (generate_ref c)) = c_fut c"
  "c_task (snd (generate_ref c)) = c_task c"
  "c_sess (snd (generate_ref c)) = c_sess c"
  "c_next (snd (generate_ref c)) = c_next c"
  "c_sent (snd (generate_ref c)) = c_sent c"
  "c_lost (snd (generate_ref c)) = c_lost c"
  "c_str (snd (generate_ref c)) = c_str c"
  by (simp_all add: generate_ref_def)

end
