(* ===== verification/Send_Session.thy ===== *)
theory Send_Session
  imports Runtime_State
begin

text \<open>
  \<open>SessionSends\<close> (\<open>send_session.py\<close>): the sends of one connection, owned past their caller's
  result or cancellation. A method that runs without waiting is one function on the client
  state. A coroutine is cut where it waits: \<open>send_and_wait\<close> into \<open>send_begin\<close> and the ways its
  wait ends, \<open>_send\<close> into \<open>send_start\<close> and \<open>send_end\<close>. The closures a caller passes are
  arguments.
\<close>

section \<open>The session\<close>

definition new_session :: "cid \<Rightarrow> nat \<Rightarrow> session" where
  "new_session conn generation =
     \<lparr>s_connection = conn, s_generation = generation, s_operations = [], s_retired = False,
      s_failed = False\<rparr>"

text \<open>The \<open>is_current\<close> closure of \<open>_session_for\<close>.\<close>

definition session_current :: "client \<Rightarrow> ssid \<Rightarrow> bool" where
  "session_current c ss \<longleftrightarrow>
     c_connection c = Some (s_connection (c_sess c ss)) \<and>
     c_generation c = s_generation (c_sess c ss) \<and> c_send_session c = Some ss"

definition operation :: "client \<Rightarrow> ssid \<Rightarrow> fid \<Rightarrow> send_operation option" where
  "operation c ss f = dict_get (s_operations (c_sess c ss)) f"

definition has_pending :: "client \<Rightarrow> ssid \<Rightarrow> fid \<Rightarrow> bool" where
  "has_pending c ss f \<longleftrightarrow>
     (case operation c ss f of None \<Rightarrow> False | Some op \<Rightarrow> \<not> task_done c (o_task op))"

definition discard :: "ssid \<Rightarrow> fid \<Rightarrow> client \<Rightarrow> client" where
  "discard ss f =
     upd_session ss (\<lambda>s. s\<lparr>s_operations := dict_pop f (s_operations s)\<rparr>)"

definition set_operation :: "ssid \<Rightarrow> fid \<Rightarrow> send_operation \<Rightarrow> client \<Rightarrow> client" where
  "set_operation ss f op =
     upd_session ss (\<lambda>s. s\<lparr>s_operations := dict_set f op (s_operations s)\<rparr>)"

definition notify_failure ::
  "(exn \<Rightarrow> client \<Rightarrow> client) \<Rightarrow> ssid \<Rightarrow> exn \<Rightarrow> client \<Rightarrow> client" where
  "notify_failure on_failure ss error c =
     (if s_retired (c_sess c ss) \<or> s_failed (c_sess c ss) \<or> \<not> session_current c ss then c
      else on_failure error (upd_session ss (\<lambda>s. s\<lparr>s_failed := True\<rparr>) c))"

section \<open>Admitting an operation\<close>

definition bad_timeout :: "pyfloat \<Rightarrow> bool" where
  "bad_timeout t \<longleftrightarrow> \<not> isfinite t \<or> float_le t (Fin 0)"

definition send_begin ::
  "ssid \<Rightarrow> fid \<Rightarrow> send_request \<Rightarrow> pyfloat \<Rightarrow> exn \<Rightarrow> client \<Rightarrow> exn + client" where
  "send_begin ss f q timeout timeout_error c =
     (if bad_timeout timeout then Inl (ValueError (lit ''timeout_s must be finite and > 0''))
      else if operation c ss f \<noteq> None then
        Inl (ValueError (lit ''The operation already has a send''))
      else if fut_done (c_fut c f) then Inr c
      else (let (k, c1) = new_task (Send_Frame ss f q) c
            in Inr (set_operation ss f
                 \<lparr>o_timeout_error = timeout_error, o_task = k, o_timer = True,
                  o_submitted = False\<rparr> c1)))"

text \<open>What \<open>await asyncio.shield(outcome)\<close> gives once the outcome is done.\<close>

fun await_outcome :: "fut \<Rightarrow> (exn + reply option) option" where
  "await_outcome Pending = None"
| "await_outcome (Result r) = Some (Inr r)"
| "await_outcome (Failed e) = Some (Inl e)"
| "await_outcome Cancelled = Some (Inl CancelledError)"
| "await_outcome Set_Twice = None"

text \<open>The wait ends in \<open>CancelledError\<close>: the caller was cancelled, or the outcome was.\<close>

definition send_cancelled :: "ssid \<Rightarrow> fid \<Rightarrow> client \<Rightarrow> client" where
  "send_cancelled ss f c =
     (let c1 = (if \<not> fut_done (c_fut c f) then cancel_future f c else c)
      in case operation c ss f of
           Some op \<Rightarrow> if o_submitted op then c1 else request_cancel (o_task op) c1
         | None \<Rightarrow> c1)"

section \<open>The send task\<close>

text \<open>
  The first step of \<open>_send\<close>: whether it goes on to wait for the connection, and the state.
\<close>

definition send_start ::
  "ssid \<Rightarrow> fid \<Rightarrow> (client \<Rightarrow> bool) \<Rightarrow> exn \<Rightarrow> (client \<Rightarrow> client) \<Rightarrow> client \<Rightarrow> bool \<times> client" where
  "send_start ss f eligible ineligible_error send c =
     (if fut_done (c_fut c f) then (False, c)
      else if s_retired (c_sess c ss) \<or> s_failed (c_sess c ss) \<or> \<not> session_current c ss \<or>
        \<not> eligible c
      then (False, set_future_exception f ineligible_error c)
      else
        (case operation c ss f of
           Some op \<Rightarrow> (True, send (set_operation ss f (op\<lparr>o_submitted := True\<rparr>) c))
         | None \<Rightarrow> (True, send c)))"

definition connection_lost :: exn where
  "connection_lost = SocketError (lit ''Connection lost while sending a channel operation'')"

definition send_was_cancelled :: exn where
  "send_was_cancelled = SocketError (lit ''Channel send was cancelled'')"

fun is_connection_closed :: "exn \<Rightarrow> bool" where
  "is_connection_closed (ConnectionClosed _ _) = True"
| "is_connection_closed _ = False"

text \<open>
  The rest of \<open>_send\<close>, with what \<open>connection.send\<close> did: returned, or raised. The operation
  the coroutine holds stays in the session's table as long as its task runs.
\<close>

definition submitted :: "client \<Rightarrow> ssid \<Rightarrow> fid \<Rightarrow> bool" where
  "submitted c ss f \<longleftrightarrow> (case operation c ss f of None \<Rightarrow> False | Some op \<Rightarrow> o_submitted op)"

definition send_end ::
  "(exn \<Rightarrow> client \<Rightarrow> client) \<Rightarrow> ssid \<Rightarrow> fid \<Rightarrow> exn option \<Rightarrow> client \<Rightarrow> client" where
  "send_end on_failure ss f raised c =
     (case raised of
        None \<Rightarrow> c
      | Some e \<Rightarrow>
          if is_connection_closed e \<or> is_socket_error e then
            notify_failure on_failure ss connection_lost (set_future_exception f connection_lost c)
          else if e = CancelledError then
            (let c1 = set_future_exception f send_was_cancelled c
             in if submitted c ss f then notify_failure on_failure ss send_was_cancelled c1 else c1)
          else set_future_exception f e c)"

text \<open>The callbacks on the end of the send task and on the outcome.\<close>

definition send_done :: "ssid \<Rightarrow> fid \<Rightarrow> client \<Rightarrow> client" where
  "send_done ss f c = (if fut_done (c_fut c f) then discard ss f c else c)"

definition outcome_done :: "ssid \<Rightarrow> fid \<Rightarrow> client \<Rightarrow> client" where
  "outcome_done ss f c =
     (case operation c ss f of
        Some op \<Rightarrow> if task_done c (o_task op) then discard ss f c else c
      | None \<Rightarrow> c)"

text \<open>The operation's deadline passes.\<close>

definition write_deadline :: exn where
  "write_deadline = SocketError (lit ''Channel operation write deadline expired'')"

definition expire :: "(exn \<Rightarrow> client \<Rightarrow> client) \<Rightarrow> ssid \<Rightarrow> fid \<Rightarrow> client \<Rightarrow> client" where
  "expire on_failure ss f c =
     (case operation c ss f of
        None \<Rightarrow> c
      | Some op \<Rightarrow>
          if s_retired (c_sess c ss) \<or> \<not> session_current c ss then c
          else
            (let c1 = set_future_exception f (o_timeout_error op) c
             in if task_done c (o_task op) then discard ss f c1
                else if \<not> o_submitted op then request_cancel (o_task op) c1
                else notify_failure on_failure ss write_deadline c1))"

text \<open>
  \<open>finish\<close>: retire the session, stop the timers and cancel what was not submitted; when every
  send task has ended, forget the operations.
\<close>

definition finish_begin :: "ssid \<Rightarrow> client \<Rightarrow> client" where
  "finish_begin ss c =
     (let ops = s_operations (c_sess c ss);
          c1 = upd_session ss (\<lambda>s. s\<lparr>s_retired := True,
                 s_operations := map (\<lambda>(f, op). (f, op\<lparr>o_timer := False\<rparr>)) ops\<rparr>) c
      in fold (\<lambda>(f, op) c. if o_submitted op then c else request_cancel (o_task op) c) ops c1)"

definition finish_end :: "ssid \<Rightarrow> client \<Rightarrow> client" where
  "finish_end ss = upd_session ss (\<lambda>s. s\<lparr>s_operations := []\<rparr>)"

section \<open>Facts about sends\<close>

lemma discard_operation [simp]:
  "operation (discard ss f c) ss' f' =
     (if ss' = ss \<and> f' = f then None else operation c ss' f')"
  by (simp add: discard_def operation_def dict_get_pop)

lemma set_operation_operation [simp]:
  "operation (set_operation ss f op c) ss' f' =
     (if ss' = ss \<and> f' = f then Some op else operation c ss' f')"
  by (simp add: set_operation_def operation_def)

lemma send_begin_admits:
  assumes "\<not> bad_timeout t" "operation c ss f = None" "c_fut c f = Pending"
  shows "\<exists>c'. send_begin ss f q t e c = Inr c' \<and>
    operation c' ss f = Some \<lparr>o_timeout_error = e, o_task = c_next c, o_timer = True, o_submitted = False\<rparr> \<and>
    c_task c' (c_next c) = \<lparr>k_work = Send_Frame ss f q, k_done = False, k_cancel = False\<rparr>"
  using assms
  by (simp add: send_begin_def fut_done_def case_prod_beta Let_def set_operation_def operation_def)

lemma send_begin_error:
  "send_begin ss f q t e c = Inl x \<Longrightarrow> \<exists>s. x = ValueError s"
  by (auto simp: send_begin_def case_prod_beta split: if_splits)

end
