(* ===== verification/Channel_Transitions.thy ===== *)
theory Channel_Transitions
  imports Runtime_State Send_Session
begin

text \<open>
  The channel state machine of \<open>topic_runtime.py\<close>: the transition every cause goes through, the
  tasks that recover, lose or leave a channel, and the release of a topic's name. \<open>me\<close> stands for
  \<open>asyncio.current_task()\<close>.
\<close>

section \<open>Transitions\<close>

text \<open>
  A finished join future is replaced before it is failed, so that a joined topic stops looking
  joined.
\<close>

definition fail_current_join :: "sid \<Rightarrow> exn \<Rightarrow> client \<Rightarrow> client" where
  "fail_current_join s error c =
     (let (f, c1) = current_join_ready s c
      in if \<not> fut_done (c_fut c1 f) then set_future_exception f error c1
         else (let (g, c2) = new_future c1
               in set_future_exception g error (upd_topic s (\<lambda>t. t\<lparr>t_join_ready := Some g\<rparr>) c2)))"

definition recoverable :: "channel_cause \<Rightarrow> bool" where
  "recoverable cause \<longleftrightarrow> cause \<in> {CRASH, TRANSPORT, TIMEOUT}"

definition lost_state :: "client \<Rightarrow> topic \<Rightarrow> channel_cause \<Rightarrow> channel_state" where
  "lost_state c t cause =
     (if t_established t \<and> recoverable cause \<and> \<not> t_leave_requested t \<and> \<not> c_shutdown c
      then REJOINING else LEFT)"

definition accept_channel :: "sid \<Rightarrow> client \<Rightarrow> client" where
  "accept_channel s c =
     (if t_state (c_sub c s) = LEFT \<or> t_leave_requested (c_sub c s) then c
      else (let c1 = upd_topic s (\<lambda>t. t\<lparr>t_state := JOINED, t_established := True\<rparr>) c;
                (f, c2) = current_join_ready s c1
            in if \<not> fut_done (c_fut c2 f) then set_future_result f None c2 else c2))"

definition fail_pushes :: "sid \<Rightarrow> exn \<Rightarrow> client \<Rightarrow> client" where
  "fail_pushes s failure c =
     upd_topic s (\<lambda>t. t\<lparr>t_pending_pushes := []\<rparr>)
       (fold (\<lambda>f. set_future_exception f failure) (dict_values (t_pending_pushes (c_sub c s))) c)"

definition transition_channel ::
  "sid \<Rightarrow> channel_cause \<Rightarrow> exn option \<Rightarrow> client \<Rightarrow> client" where
  "transition_channel s cause error c =
     (let c1 = upd_topic s (\<lambda>t. t\<lparr>t_cause := Some cause\<rparr>) c
      in if cause = ACCEPTED then accept_channel s c1
         else (let st = lost_state c1 (c_sub c1 s) cause;
                   c2 = upd_topic s (\<lambda>t. t\<lparr>t_state := st,
                          t_leave_requested := (st = LEFT \<or> t_leave_requested t)\<rparr>) c1;
                   failure = (case error of Some e \<Rightarrow> e
                              | None \<Rightarrow> ChannelError (lit ''Channel is not joined''))
               in fail_pushes s failure (fail_current_join s failure c2)))"

definition set_subscription_ready :: "sid \<Rightarrow> client \<Rightarrow> client" where
  "set_subscription_ready s = transition_channel s ACCEPTED None"

text \<open>\<open>_channel_failure\<close>: only the two life-cycle events have one.\<close>

definition channel_failure :: "topic \<Rightarrow> event \<Rightarrow> exn + exn" where
  "channel_failure t e =
     (if event_is e SysError then
        Inr (ChannelError (lit ''Channel for topic '' @ t_name t @ lit '' crashed''))
      else if event_is e SysClose then
        Inr (ChannelError (lit ''Channel for topic '' @ t_name t @ lit '' closed by the server''))
      else Inl (ValueError (lit ''Expected a channel lifecycle event'')))"

lemma channel_failure_total: "client_lifecycle e \<Longrightarrow> \<exists>x. channel_failure t e = Inr (ChannelError x)"
  by (auto simp: channel_failure_def client_lifecycle_def)

section \<open>Releasing a name\<close>

definition sends_pending :: "client \<Rightarrow> sid \<Rightarrow> bool" where
  "sends_pending c s \<longleftrightarrow>
     (case t_send_session (c_sub c s) of
        None \<Rightarrow> False
      | Some ss \<Rightarrow> list_ex (has_pending c ss) (t_send_outcomes (c_sub c s)))"

definition release_reservation :: "sid \<Rightarrow> client \<Rightarrow> client" where
  "release_reservation s c =
     (let t = c_sub c s
      in if \<not> is_registered c s \<or> t_state t \<noteq> LEFT then c
         else if \<not> t_cleanup_done t \<and> (t_connection t = c_connection c \<or> t_leave_task t = None) then c
         else if t_join_submitted t \<and> \<not> t_terminal_received t then c
         else if sends_pending c s then c
         else c\<lparr>c_registry := dict_pop (t_name t) (c_registry c)\<rparr>)"

section \<open>Tasks\<close>

definition track_lifecycle_task :: "work \<Rightarrow> client \<Rightarrow> tid \<times> client" where
  "track_lifecycle_task w c =
     (let (k, c1) = new_task w c in (k, c1\<lparr>c_lifecycle_tasks := c_lifecycle_tasks c1 @ [k]\<rparr>))"

definition finish_lifecycle_task :: "tid \<Rightarrow> client \<Rightarrow> client" where
  "finish_lifecycle_task k c = c\<lparr>c_lifecycle_tasks := removeAll k (c_lifecycle_tasks c)\<rparr>"

definition finish_cleanup_task :: "tid \<Rightarrow> client \<Rightarrow> client" where
  "finish_cleanup_task k c = c\<lparr>c_cleanup_tasks := removeAll k (c_cleanup_tasks c)\<rparr>"

definition start_leave_task :: "sid \<Rightarrow> tid option \<Rightarrow> client \<Rightarrow> tid \<times> client" where
  "start_leave_task s initiator c =
     (case t_leave_task (c_sub c s) of
        Some k \<Rightarrow> (k, c)
      | None \<Rightarrow>
          (let c1 = (if t_state (c_sub c s) \<noteq> LEFT
                     then transition_channel s LEAVE (Some (ChannelError (lit ''Channel was left''))) c
                     else c);
               (k, c2) = new_task (Leave_And_Cleanup s initiator) c1
           in (k, (upd_topic s (\<lambda>t. t\<lparr>t_leave_task := Some k\<rparr>) c2)
                    \<lparr>c_cleanup_tasks := c_cleanup_tasks c2 @ [k]\<rparr>)))"

text \<open>A socket rejoin supplies its new generation for an immediate attempt.\<close>

definition start_channel_recovery :: "sid \<Rightarrow> nat option \<Rightarrow> client \<Rightarrow> client" where
  "start_channel_recovery s generation c =
     (let gen = (case generation of None \<Rightarrow> c_generation c | Some g \<Rightarrow> g)
      in if is_recovering c s \<or> \<not> can_recover c s gen \<or>
           (generation = None \<and> t_conn_generation (c_sub c s) \<noteq> gen)
         then c
         else (let (k, c1) = track_lifecycle_task (Recover_Channel s gen (generation \<noteq> None)) c
               in upd_topic s (\<lambda>t. t\<lparr>t_recovery_task := Some k\<rparr>) c1))"

definition start_topic_loss :: "tid option \<Rightarrow> sid \<Rightarrow> exn \<Rightarrow> client \<Rightarrow> client" where
  "start_topic_loss me s error c =
     (let left = t_state (c_sub c s) = LEFT;
          err = (if \<not> left \<and> \<not> is_channel_error error
                 then ChannelError (lit ''Channel processor failed'') else error);
          c1 = (if left then c else transition_channel s CLOSE (Some err) c)
      in if \<not> t_established (c_sub c1 s) then snd (start_leave_task s me c1)
         else snd (track_lifecycle_task (Lose_Topic s err) c1))"

section \<open>All channels at once\<close>

definition fail_unsubscribe :: "sid \<Rightarrow> exn \<Rightarrow> client \<Rightarrow> client" where
  "fail_unsubscribe s error c =
     (let (f, c1) = unsubscribe_completed s c in set_future_exception f error c1)"

definition fail_pending_join :: "tid option \<Rightarrow> exn \<Rightarrow> sid \<Rightarrow> client \<Rightarrow> client" where
  "fail_pending_join me error s c =
     (let t = c_sub c s
      in if t_connection t \<noteq> None \<and> t_connection t \<noteq> c_connection c then c
         else if t_state t = LEFT then fail_unsubscribe s error c
         else (let c1 = transition_channel s TRANSPORT (Some error) c;
                   c2 = (if t_leave_requested (c_sub c1 s) then fail_unsubscribe s error c1 else c1)
               in if t_state (c_sub c2 s) = LEFT \<and> t_leave_task (c_sub c2 s) = None
                  then snd (start_leave_task s me c2) else c2))"

definition fail_pending_joins :: "tid option \<Rightarrow> exn \<Rightarrow> client \<Rightarrow> client" where
  "fail_pending_joins me error c =
     fold (fail_pending_join me error) (dict_values (c_registry c)) c"

definition retire_channel :: "tid option \<Rightarrow> exn \<Rightarrow> sid \<Rightarrow> client \<Rightarrow> client" where
  "retire_channel me error s c =
     (let c1 = transition_channel s STOP (Some error) c
      in if t_connection (c_sub c1 s) \<noteq> c_connection c1 then
           release_reservation s
             (snd (start_leave_task s me (upd_topic s (\<lambda>t. t\<lparr>t_terminal_received := True\<rparr>) c1)))
         else c1)"

definition retire_channels :: "tid option \<Rightarrow> exn \<Rightarrow> client \<Rightarrow> client" where
  "retire_channels me error c =
     fold (retire_channel me error) (dict_values (c_registry c)) c"

text \<open>\<open>_transition_state\<close> of the client.\<close>

definition transition_state :: "client_state \<Rightarrow> client \<Rightarrow> exn + client" where
  "transition_state new c =
     (if c_state c = new then Inr c
      else andThen (transition_client_state (c_state c) new) (\<lambda>st. Inr (c\<lparr>c_state := st\<rparr>)))"

end
