(* ===== verification/Protocol_Handler.thy ===== *)
theory Protocol_Handler
  imports Runtime_State
begin

text \<open>
  Routing (\<open>protocol_handler.py\<close>): which topic a frame goes to, whether it is stale, and the
  bounded queue of each topic that drops its oldest message when full. The heartbeat and
  control callbacks are arguments.
\<close>

section \<open>The topic queue\<close>

definition queue_full :: "nat \<Rightarrow> 'a list \<Rightarrow> bool" where
  "queue_full limit q \<longleftrightarrow> limit \<le> length q"

definition enqueue_message :: "nat \<Rightarrow> message \<Rightarrow> topic \<Rightarrow> topic" where
  "enqueue_message limit m t =
     (let t1 = (if queue_full limit (t_queue t) \<and> t_queue t \<noteq> [] then
                  t\<lparr>t_queue := tl (t_queue t), t_dropped := t_dropped t + 1\<rparr>
                else t)
      in t1\<lparr>t_queue := t_queue t1 @ [m]\<rparr>)"

definition drain_topic_queue :: "topic \<Rightarrow> topic" where
  "drain_topic_queue t = t\<lparr>t_queue := []\<rparr>"

text \<open>
  What the runtime relies on: a queue that never holds more than its limit, keeps the newest
  messages in order and counts what it dropped.
\<close>

locale bounded_queue =
  fixes put :: "'m \<Rightarrow> 'q \<Rightarrow> 'q"
    and contents :: "'q \<Rightarrow> 'm list"
    and dropped :: "'q \<Rightarrow> nat"
    and limit :: nat
  assumes positive: "0 < limit"
    and put_contents: "length (contents q) \<le> limit \<Longrightarrow>
      contents (put m q) = drop (Suc (length (contents q)) - limit) (contents q @ [m])"
    and put_dropped: "length (contents q) \<le> limit \<Longrightarrow>
      dropped (put m q) = dropped q + (Suc (length (contents q)) - limit)"
begin

lemma put_bounded: "length (contents q) \<le> limit \<Longrightarrow> length (contents (put m q)) \<le> limit"
  using positive by (simp add: put_contents)

lemma burst:
  assumes "length (contents q) \<le> limit"
  shows "contents (fold put ms q) =
      drop (length (contents q) + length ms - limit) (contents q @ ms) \<and>
    dropped (fold put ms q) = dropped q + (length (contents q) + length ms - limit)"
  using assms
proof (induction ms arbitrary: q)
  case (Cons m ms)
  let ?q = "put m q"
  have b: "length (contents ?q) \<le> limit" using Cons.prems by (rule put_bounded)
  have len: "length (contents ?q) = min limit (Suc (length (contents q)))"
    using Cons.prems positive by (simp add: put_contents)
  have "contents ?q @ ms = drop (Suc (length (contents q)) - limit) (contents q @ m # ms)"
    using Cons.prems positive by (auto simp: put_contents Suc_diff_le not_less_eq_eq)
  then have "drop (length (contents ?q) + length ms - limit) (contents ?q @ ms) =
      drop (length (contents ?q) + length ms - limit + (Suc (length (contents q)) - limit))
        (contents q @ m # ms)"
    by (metis drop_drop)
  moreover have n: "length (contents ?q) + length ms - limit + (Suc (length (contents q)) - limit)
      = length (contents q) + length (m # ms) - limit"
    using len Cons.prems by (cases "length (contents q) = limit") auto
  ultimately have "contents (fold put (m # ms) q) =
      drop (length (contents q) + length (m # ms) - limit) (contents q @ m # ms)"
    using Cons.IH [OF b] by simp
  moreover have "dropped (fold put (m # ms) q) =
      dropped q + (length (contents q) + length (m # ms) - limit)"
    using Cons.IH [OF b] Cons.prems n by (simp add: put_dropped)
  ultimately show ?case by blast
qed simp

end

interpretation topic_queue:
  bounded_queue "enqueue_message (Suc n)" t_queue t_dropped "Suc n" for n
proof
  fix m and t :: topic
  assume b: "length (t_queue t) \<le> Suc n"
  show "t_queue (enqueue_message (Suc n) m t) =
      drop (Suc (length (t_queue t)) - Suc n) (t_queue t @ [m])"
    using b by (cases "t_queue t") (auto simp: enqueue_message_def queue_full_def le_Suc_eq)
  show "t_dropped (enqueue_message (Suc n) m t) =
      t_dropped t + (Suc (length (t_queue t)) - Suc n)"
    using b by (cases "t_queue t") (auto simp: enqueue_message_def queue_full_def le_Suc_eq)
qed simp

text \<open>
  A burst of messages for one topic leaves exactly the newest \<open>max_topic_queue_size\<close>
  of them in its queue, in the order they arrived, and the drop counter grows by the number of
  messages lost; the queue never holds more than its limit.
\<close>

lemma queue_keeps_newest:
  assumes "0 < limit" "length (t_queue t) \<le> limit"
  shows "t_queue (fold (enqueue_message limit) ms t) =
      drop (length (t_queue t) + length ms - limit) (t_queue t @ ms) \<and>
    t_dropped (fold (enqueue_message limit) ms t) =
      t_dropped t + (length (t_queue t) + length ms - limit) \<and>
    length (t_queue (fold (enqueue_message limit) ms t)) \<le> limit"
proof -
  obtain n where n: "limit = Suc n" using assms(1) by (cases limit) auto
  show ?thesis using topic_queue.burst [of t n ms] assms(2) unfolding n by auto
qed

lemma queue_keeps_newest_witness:
  "t_queue (fold (enqueue_message 2) [sample_message, sample_binary, sample_message]
     (new_subscription (lit ''room'') No_Params None False True)) = [sample_binary, sample_message]"
  using queue_keeps_newest [of 2 "new_subscription (lit ''room'') No_Params None False True"
    "[sample_message, sample_binary, sample_message]"]
  by (simp add: new_subscription_def)

section \<open>Routing\<close>

definition is_stale_join :: "protocol_version \<Rightarrow> message \<Rightarrow> pystr \<Rightarrow> bool" where
  "is_stale_join version m current_join_ref \<longleftrightarrow>
     version = V2 \<and> m_join_ref m \<noteq> None \<and> m_join_ref m \<noteq> Some current_join_ref"

text \<open>What routing one message did with it.\<close>

datatype routed =
    To_Heartbeat
  | No_Topic
  | Stale_Generation
  | Stale_Join
  | Controlled
  | Enqueued

text \<open>
  One message of the routing loop of connection generation \<open>gen\<close>. \<open>heartbeat\<close> and \<open>control\<close>
  are the two callbacks.
\<close>

definition route_message ::
  "(message \<Rightarrow> client \<Rightarrow> client) \<Rightarrow>
   (sid \<Rightarrow> message \<Rightarrow> pystr option \<Rightarrow> client \<Rightarrow> bool \<times> client) \<Rightarrow>
   nat \<Rightarrow> decoded_message \<Rightarrow> client \<Rightarrow> routed \<times> client" where
  "route_message heartbeat control gen d c =
     (let m = d_message d
      in if m_topic m = phoenix_topic then (To_Heartbeat, heartbeat m c)
         else (case dict_get (c_registry c) (m_topic m) of
                 None \<Rightarrow> (No_Topic, c)
               | Some s \<Rightarrow>
                   if t_conn_generation (c_sub c s) \<noteq> gen then (Stale_Generation, c)
                   else if is_stale_join (c_version c) m (t_join_ref (c_sub c s))
                   then (Stale_Join, c)
                   else (case control s m (d_binary_reply_status d) c of
                           (True, c1) \<Rightarrow> (Controlled, c1)
                         | (False, c1) \<Rightarrow>
                             (Enqueued, upd_topic s (enqueue_message (c_max_queue c1) m) c1))))"

text \<open>
  The routing loop over the frames a connection delivers: it ends with the first frame that
  does not decode, whose error ends the task.
\<close>

fun process_frames ::
  "(message \<Rightarrow> client \<Rightarrow> client) \<Rightarrow>
   (sid \<Rightarrow> message \<Rightarrow> pystr option \<Rightarrow> client \<Rightarrow> bool \<times> client) \<Rightarrow>
   (json \<Rightarrow> exn + pystr) \<Rightarrow> nat \<Rightarrow> ws_frame list \<Rightarrow> client \<Rightarrow> exn option \<times> client" where
  "process_frames heartbeat control coerce gen [] c = (None, c)"
| "process_frames heartbeat control coerce gen (fr # frs) c =
     (case decode_message coerce fr (c_version c) of
        Inl e \<Rightarrow> (Some e, c)
      | Inr d \<Rightarrow>
          process_frames heartbeat control coerce gen frs
            (snd (route_message heartbeat control gen d c)))"

text \<open>
  What routing asks of its callbacks: whatever each of them and the queue keep from one state to
  the next, routing keeps, and so does the loop over any frames.
\<close>

locale frame_callbacks =
  fixes heartbeat :: "message \<Rightarrow> client \<Rightarrow> client"
    and control :: "sid \<Rightarrow> message \<Rightarrow> pystr option \<Rightarrow> client \<Rightarrow> bool \<times> client"
    and keeps :: "client \<Rightarrow> client \<Rightarrow> bool"
  assumes stays: "keeps c c"
    and follows: "keeps a b \<Longrightarrow> keeps b c \<Longrightarrow> keeps a c"
    and heartbeat_keeps: "keeps c (heartbeat m c)"
    and control_keeps: "keeps c (snd (control s m st c))"
    and enqueue_keeps: "keeps c (upd_topic s (enqueue_message n m) c)"
begin

lemma route_keeps: "keeps c (snd (route_message heartbeat control gen d c))"
proof -
  have k: "keeps c c1" if "control s m st c = (b, c1)" for s m st b c1
    using control_keeps [of c s m st] that by simp
  show ?thesis
    using stays heartbeat_keeps k follows [OF k enqueue_keeps]
    by (auto simp: route_message_def Let_def split: option.split prod.split bool.split)
qed

lemma process_keeps: "keeps c (snd (process_frames heartbeat control coerce gen frs c))"
proof (induction frs arbitrary: c)
  case (Cons fr frs)
  show ?case using stays follows [OF route_keeps Cons.IH] by (simp split: sum.split)
qed (simp add: stays)

end

definition send_message :: "cid \<Rightarrow> message \<Rightarrow> client \<Rightarrow> exn + client" where
  "send_message conn m c =
     andThen (encode_message m (c_version c)) (\<lambda>fr. Inr (c\<lparr>c_sent := c_sent c @ [(conn, fr)]\<rparr>))"

end
