(* ===== verification/Channel_Control.thy ===== *)
theory Channel_Control
  imports Channel_Transitions Protocol_Handler
begin

text \<open>
  Control messages (\<open>topic_runtime.py\<close>): join and leave acknowledgements, replies to pushes,
  crashes and closes of a channel. Each handler is the whole handler; the Boolean of
  \<open>handle_channel_control\<close> says that the message was consumed.
\<close>

section \<open>Crashes and closes\<close>

definition handle_channel_lifecycle ::
  "tid option \<Rightarrow> sid \<Rightarrow> message \<Rightarrow> client \<Rightarrow> client" where
  "handle_channel_lifecycle me s m c =
     (if m_ref m \<noteq> None \<and> m_ref m \<noteq> Some (t_join_ref (c_sub c s)) then c
      else (let c1 = upd_topic s (\<lambda>t. t\<lparr>t_terminal_received := True\<rparr>) c
            in if t_state (c_sub c1 s) = LEFT then release_reservation s c1
               else (case channel_failure (c_sub c1 s) (m_event m) of
                       Inl _ \<Rightarrow> c1
                     | Inr error \<Rightarrow>
                         (let cause = (if event_is (m_event m) SysError then CRASH else CLOSE);
                              c2 = transition_channel s cause (Some error) c1
                          in if t_established (c_sub c2 s) then
                               (if cause = CRASH then start_channel_recovery s None c2
                                else start_topic_loss me s error c2)
                             else c2))))"

section \<open>Join acknowledgements\<close>

text \<open>The application's hook runs on the response; it must return \<open>None\<close>.\<close>

definition install_join_response :: "topic \<Rightarrow> json \<Rightarrow> exn + unit" where
  "install_join_response t response =
     (case t_on_join_response t of
        None \<Rightarrow> Inr ()
      | Some hook \<Rightarrow>
          (case hook response of
             Returned_None \<Rightarrow> Inr ()
           | Returned_Other \<Rightarrow> Inl (TypeError (lit ''on_join_response must return None''))
           | Hook_Raised e \<Rightarrow> Inl e))"

text \<open>The reason of a refusal, as the error's text.\<close>

definition refusal_reason :: "(json \<Rightarrow> pystr) \<Rightarrow> (pystr, json) dict \<Rightarrow> pystr" where
  "refusal_reason str payload =
     (let invalid = lit ''invalid topic''
      in case (case dict_get payload (lit ''response'') of None \<Rightarrow> JDict [] | Some r \<Rightarrow> r) of
           JDict r \<Rightarrow>
             (case dict_get r (lit ''reason'') of
                None \<Rightarrow> invalid
              | Some (JStr s) \<Rightarrow> s
              | Some j \<Rightarrow> str j)
         | _ \<Rightarrow> invalid)"

text \<open>An acknowledgement nobody waits for any more: only a refused join still frees its name.\<close>

definition late_join_response :: "sid \<Rightarrow> message \<Rightarrow> client \<Rightarrow> client" where
  "late_join_response s m c =
     (if t_state (c_sub c s) = LEFT \<and> status_is (m_payload m) ''error'' then
        release_reservation s (upd_topic s (\<lambda>t. t\<lparr>t_terminal_received := True\<rparr>) c)
      else c)"

definition join_accepted :: "sid \<Rightarrow> (pystr, json) dict \<Rightarrow> client \<Rightarrow> client" where
  "join_accepted s payload c =
     (case install_join_response (c_sub c s)
             (case dict_get payload (lit ''response'') of None \<Rightarrow> JNull | Some r \<Rightarrow> r) of
        Inr _ \<Rightarrow> set_subscription_ready s c
      | Inl _ \<Rightarrow> transition_channel s CONFIGURATION
                  (Some (ChannelError (lit ''Join response installation failed''))) c)"

definition join_rejected :: "sid \<Rightarrow> (pystr, json) dict \<Rightarrow> client \<Rightarrow> client" where
  "join_rejected s payload c =
     transition_channel s REJECTED (Some (ChannelError (refusal_reason (c_str c) payload)))
       (upd_topic s (\<lambda>t. t\<lparr>t_terminal_received := True\<rparr>) c)"

definition handle_join_response_mode ::
  "tid option \<Rightarrow> sid \<Rightarrow> message \<Rightarrow> client \<Rightarrow> client" where
  "handle_join_response_mode me s m c =
     (if client_lifecycle (m_event m) then handle_channel_lifecycle me s m c
      else if \<not> event_is (m_event m) SysReply \<or> m_ref m \<noteq> Some (t_join_ref (c_sub c s)) \<or>
        \<not> is_registered c s \<or> \<not> is_on_current_connection c s then c
      else if fut_done (join_future c s) \<or> t_leave_requested (c_sub c s) \<or> c_shutdown c then
        late_join_response s m c
      else (case m_payload m of
              PBytes _ \<Rightarrow> transition_channel s REJECTED
                (Some (ChannelError (lit ''Join acknowledgement must contain a JSON object''))) c
            | PDict payload \<Rightarrow>
                if status_is (m_payload m) ''ok'' then join_accepted s payload c
                else join_rejected s payload c))"

section \<open>Leave acknowledgements\<close>

definition set_unsubscribe_completed :: "sid \<Rightarrow> client \<Rightarrow> client" where
  "set_unsubscribe_completed s c =
     (let (f, c1) = unsubscribe_completed s c
      in if \<not> fut_done (c_fut c1 f) then set_future_result f None c1 else c1)"

definition handle_leave_response :: "sid \<Rightarrow> message \<Rightarrow> client \<Rightarrow> client" where
  "handle_leave_response s m c =
     (if \<not> event_is (m_event m) SysReply \<or> m_ref m \<noteq> t_leave_ref (c_sub c s) then c
      else if fut_done (unsubscribe_future c s) then c
      else if status_is (m_payload m) ''ok'' then set_unsubscribe_completed s c
      else fail_unsubscribe s (ChannelError (lit ''Leave acknowledgement rejected'')) c)"

section \<open>Replies to pushes\<close>

definition malformed_push_reply :: exn where
  "malformed_push_reply = ChannelError (lit ''Malformed push reply'')"

definition settle_push :: "fid \<Rightarrow> exn + reply \<Rightarrow> client \<Rightarrow> client" where
  "settle_push f r c =
     (case r of
        Inr x \<Rightarrow> set_future_result f (Some x) c
      | Inl _ \<Rightarrow> set_future_exception f malformed_push_reply c)"

definition resolve_push_reply ::
  "sid \<Rightarrow> message \<Rightarrow> pystr option \<Rightarrow> client \<Rightarrow> bool \<times> client" where
  "resolve_push_reply s m binary_status c =
     (case m_ref m of
        None \<Rightarrow> (False, c)
      | Some r \<Rightarrow>
          if r = [] then (False, c)
          else (case dict_get (t_pending_pushes (c_sub c s)) r of
                  None \<Rightarrow> (False, c)
                | Some f \<Rightarrow>
                    (let c1 = upd_topic s
                       (\<lambda>t. t\<lparr>t_pending_pushes := dict_pop r (t_pending_pushes t)\<rparr>) c
                     in (True, if fut_done (c_fut c1 f) then c1
                               else settle_push f (reply_from_message m binary_status) c1))))"

section \<open>The dispatcher\<close>

definition handle_channel_control ::
  "tid option \<Rightarrow> sid \<Rightarrow> message \<Rightarrow> pystr option \<Rightarrow> client \<Rightarrow> bool \<times> client" where
  "handle_channel_control me s m binary_status c =
     (let t = c_sub c s
      in if \<not> is_registered c s \<or> \<not> is_on_current_connection c s then (True, c)
         else if client_lifecycle (m_event m) then (True, handle_channel_lifecycle me s m c)
         else if \<not> event_is (m_event m) SysReply then (t_state t \<noteq> JOINED, c)
         else if t_leave_ref t \<noteq> None \<and> m_ref m = t_leave_ref t then
           (True, handle_leave_response s m c)
         else if m_ref m = Some (t_join_ref t) then (True, handle_join_response_mode me s m c)
         else (case resolve_push_reply s m binary_status c of
                 (done, c1) \<Rightarrow> (done \<or> t_state (c_sub c1 s) \<noteq> JOINED, c1)))"

section \<open>The topic processor\<close>

text \<open>
  What the processor of a topic does with the message it took from the queue: stop for a
  rejoin, drop it, or hand it to the handlers registered for it at this moment.
\<close>

datatype processed = Stop | Dropped | No_Handler | Handled "nat option" "nat option"

definition snapshot_handlers :: "topic \<Rightarrow> message \<Rightarrow> nat option \<times> nat option" where
  "snapshot_handlers t m = (t_async_callback t, get_event_handler t (m_event m))"

definition handle_normal_message_mode :: "sid \<Rightarrow> message \<Rightarrow> client \<Rightarrow> processed \<times> client" where
  "handle_normal_message_mode s m c =
     (case snapshot_handlers (c_sub c s) m of
        (None, None) \<Rightarrow> (No_Handler, c)
      | (mh, eh) \<Rightarrow>
          (let (k, c1) = new_task (Run_Handlers m mh eh) c
           in (Handled mh eh, upd_topic s (\<lambda>t. t\<lparr>t_callback_task := Some k\<rparr>) c1)))"

text \<open>One turn of the processor's loop once \<open>queue.get()\<close> returned a message.\<close>

definition process_topic_message :: "sid \<Rightarrow> client \<Rightarrow> (processed \<times> client) option" where
  "process_topic_message s c =
     (case t_queue (c_sub c s) of
        [] \<Rightarrow> None
      | m # q \<Rightarrow>
          (let c1 = upd_topic s (\<lambda>t. t\<lparr>t_queue := q\<rparr>) c; t = c_sub c1 s
           in Some (if t_restart_requested t then (Stop, c1)
                    else if is_stale_join (c_version c) m (t_join_ref t) then (Dropped, c1)
                    else if channel_joined c1 s then handle_normal_message_mode s m c1
                    else (Dropped, c1))))"

definition handlers_finished :: "sid \<Rightarrow> client \<Rightarrow> client" where
  "handlers_finished s = upd_topic s (\<lambda>t. t\<lparr>t_callback_task := None\<rparr>)"

end
