(* ===== verification/Channel_Lifecycle.thy ===== *)
theory Channel_Lifecycle
  imports Channel_Control
begin

text \<open>
  The operations of a channel that wait (\<open>topic_runtime.py\<close>, \<open>channel.py\<close>): sends, pushes,
  join, leave, rejoin and recovery. Each coroutine is cut where it waits; a definition is the
  code from one wait to the next. A segment that can raise returns the state with the error:
  what the code had changed before the raise stays changed.
\<close>

section \<open>Sends\<close>

definition session_for :: "cid \<Rightarrow> client \<Rightarrow> ssid \<times> client" where
  "session_for conn c =
     (case c_send_session c of
        Some ss \<Rightarrow>
          if s_connection (c_sess c ss) = conn then (ss, c)
          else (c_next c, c\<lparr>c_sess := (c_sess c)(c_next c := new_session conn (c_generation c)),
                  c_send_session := Some (c_next c), c_next := c_next c + 1\<rparr>)
      | None \<Rightarrow>
          (c_next c, c\<lparr>c_sess := (c_sess c)(c_next c := new_session conn (c_generation c)),
             c_send_session := Some (c_next c), c_next := c_next c + 1\<rparr>))"

text \<open>From \<open>CONNECTED\<close> the transition to \<open>RECONNECTING\<close> is always allowed.\<close>

definition fail_send_session :: "tid option \<Rightarrow> ssid \<Rightarrow> exn \<Rightarrow> client \<Rightarrow> client" where
  "fail_send_session me ss error c =
     (if c_connection c \<noteq> Some (s_connection (c_sess c ss)) \<or> c_send_session c \<noteq> Some ss then c
      else (let c1 = fail_pending_joins me error c;
                c2 = (if c_state c1 = CONNECTED then c1\<lparr>c_state := RECONNECTING\<rparr> else c1)
            in snd (track_lifecycle_task (Close_Send_Session ss) c2)))"

lemma connected_to_reconnecting:
  "c_state c = CONNECTED \<Longrightarrow> transition_state RECONNECTING c = Inr (c\<lparr>c_state := RECONNECTING\<rparr>)"
  by (simp add: transition_state_def transition_client_state_def)

text \<open>The connection to force-close, if the session is still the client's.\<close>

definition close_send_session :: "ssid \<Rightarrow> client \<Rightarrow> cid option" where
  "close_send_session ss c =
     (if c_connection c = Some (s_connection (c_sess c ss)) \<and> c_send_session c = Some ss
      then c_connection c else None)"

definition eligible :: "send_request \<Rightarrow> client \<Rightarrow> bool" where
  "eligible q c \<longleftrightarrow>
     is_registered c (q_topic q) \<and> c_connection c = Some (q_connection q) \<and>
     (q_leaving q \<or>
      ((q_joining q \<or> channel_joined c (q_topic q)) \<and> t_state (c_sub c (q_topic q)) \<noteq> LEFT \<and>
       \<not> c_shutdown c)) \<and>
     q_join_ref q = Some (t_join_ref (c_sub c (q_topic q)))"

definition no_longer_current :: exn where
  "no_longer_current = ChannelError (lit ''Channel operation no longer current'')"

text \<open>The \<open>send\<close> closure up to \<open>connection.send\<close>.\<close>

definition submit_frame :: "send_request \<Rightarrow> client \<Rightarrow> client" where
  "submit_frame q c =
     (let c1 = (if q_joining q then upd_topic (q_topic q) (\<lambda>t. t\<lparr>t_join_submitted := True\<rparr>) c else c)
      in c1\<lparr>c_sent := c_sent c1 @ [(q_connection q, q_frame q)]\<rparr>)"

definition run_send :: "ssid \<Rightarrow> fid \<Rightarrow> send_request \<Rightarrow> client \<Rightarrow> bool \<times> client" where
  "run_send ss f q = send_start ss f (eligible q) no_longer_current (submit_frame q)"

definition send_channel_operation ::
  "sid \<Rightarrow> message \<Rightarrow> fid \<Rightarrow> pyfloat \<Rightarrow> exn \<Rightarrow> client \<Rightarrow> exn option \<times> client" where
  "send_channel_operation s m f timeout timeout_error c =
     (case t_connection (c_sub c s) of
        None \<Rightarrow> (Some (SocketError (lit ''Connection lost before channel operation'')), c)
      | Some conn \<Rightarrow>
          if c_connection c \<noteq> Some conn then
            (Some (SocketError (lit ''Connection lost before channel operation'')), c)
          else (case encode_message m (c_version c) of
                  Inl e \<Rightarrow> (Some e, c)
                | Inr frame \<Rightarrow>
                    (let (ss, c1) = session_for conn c;
                         outcomes = filter (has_pending c1 ss) (t_send_outcomes (c_sub c1 s));
                         c2 = upd_topic s (\<lambda>t. t\<lparr>t_send_session := Some ss,
                                t_send_outcomes := List.insert f outcomes\<rparr>) c1;
                         q = \<lparr>q_topic = s, q_event = m_event m, q_join_ref = m_join_ref m,
                              q_connection = conn, q_frame = frame\<rparr>
                     in case send_begin ss f q timeout timeout_error c2 of
                          Inl e \<Rightarrow> (Some e, c2)
                        | Inr c3 \<Rightarrow> (None, c3))))"

section \<open>Pushes\<close>

definition application_event :: "event \<Rightarrow> pystr \<Rightarrow> bool" where
  "application_event e topic_name \<longleftrightarrow>
     \<not> list_ex (event_is e) system_events \<and>
     \<not> (event_text e = heartbeat_event \<and> topic_name = phoenix_topic)"

definition push_timeout :: exn where
  "push_timeout = PushTimeoutError (lit ''Push reply deadline expired'')"

text \<open>The \<open>finally\<close> of a push.\<close>

definition push_end :: "sid \<Rightarrow> pystr \<Rightarrow> fid \<Rightarrow> client \<Rightarrow> client" where
  "push_end s ref f c =
     (if dict_get (t_pending_pushes (c_sub c s)) ref = Some f
      then upd_topic s (\<lambda>t. t\<lparr>t_pending_pushes := dict_pop ref (t_pending_pushes t)\<rparr>) c
      else c)"

text \<open>A push up to its wait: the reference and the future it waits for.\<close>

definition push_begin ::
  "sid \<Rightarrow> event \<Rightarrow> pyval \<Rightarrow> pyfloat \<Rightarrow> client \<Rightarrow> (exn + pystr \<times> fid) \<times> client" where
  "push_begin s event value timeout c =
     (if \<not> channel_joined c s then (Inl (ChannelError (lit ''Channel is not joined'')), c)
      else if bad_timeout timeout then
        (Inl (ValueError (lit ''timeout_s must be finite and > 0'')), c)
      else (case require_payload value of
              Inl e \<Rightarrow> (Inl e, c)
            | Inr payload \<Rightarrow>
                if \<not> application_event event (t_name (c_sub c s)) then
                  (Inl (ValueError (lit ''push requires an application event'')), c)
                else
                  (let (ref, c1) = generate_ref c;
                       m = make_message event (t_name (c_sub c1 s)) (Some ref) (Some payload)
                             (Some (t_join_ref (c_sub c1 s)));
                       (f, c2) = new_future c1;
                       c3 = upd_topic s (\<lambda>t. t\<lparr>t_pending_pushes :=
                              dict_set ref f (t_pending_pushes t)\<rparr>) c2
                   in case send_channel_operation s m f timeout push_timeout c3 of
                        (Some e, c4) \<Rightarrow> (Inl e, push_end s ref f c4)
                      | (None, c4) \<Rightarrow> (Inr (ref, f), c4))))"

section \<open>Joining\<close>

definition resolve_join_params :: "topic \<Rightarrow> exn + (pystr, json) dict" where
  "resolve_join_params t =
     (let no_dict = ChannelError (lit ''Join params must resolve to a dict'')
      in case t_params t of
           No_Params \<Rightarrow> Inr []
         | Dict_Params d \<Rightarrow> Inr d
         | Provider p \<Rightarrow>
             (case p (t_join_ref t) of
                Inl e \<Rightarrow> Inl (ChannelError (lit ''Join params resolution failed''))
              | Inr (VDict d) \<Rightarrow> Inr d
              | Inr _ \<Rightarrow> Inl no_dict)
         | Other_Params \<Rightarrow> Inl no_dict)"

definition validate_join_hook :: "topic \<Rightarrow> exn + unit" where
  "validate_join_hook t =
     (if t_on_join_response t \<noteq> None \<and> t_hook_async t
      then Inl (ChannelError (lit ''on_join_response must be synchronous'')) else Inr ())"

text \<open>The causes after which a failed join leaves the channel as it is.\<close>

definition settled_cause :: "channel_cause option \<Rightarrow> bool" where
  "settled_cause cause \<longleftrightarrow>
     cause \<in> Some ` {CRASH, TRANSPORT, LEAVE, STOP, CLOSE, REJECTED, CONFIGURATION}"

fun is_type_or_value_error :: "exn \<Rightarrow> bool" where
  "is_type_or_value_error (TypeError _) = True"
| "is_type_or_value_error (ValueError _) = True"
| "is_type_or_value_error _ = False"

definition encoding_failed :: exn where
  "encoding_failed = ChannelError (lit ''Join params encoding failed'')"

text \<open>What \<open>_join\<close> makes of an error: the error it raises on, and the state.\<close>

definition join_error :: "sid \<Rightarrow> exn \<Rightarrow> client \<Rightarrow> exn \<times> client" where
  "join_error s exc c =
     (if is_channel_error exc \<or> is_type_or_value_error exc then
        (if \<not> settled_cause (t_cause (c_sub c s)) then
           (if is_channel_error exc then (exc, transition_channel s CONFIGURATION (Some exc) c)
            else (encoding_failed, transition_channel s CONFIGURATION (Some encoding_failed) c))
         else (exc, c))
      else if exc = TimeoutError then
        (exc, transition_channel s TIMEOUT (Some (ChannelError (lit ''Join deadline expired''))) c)
      else (exc, c))"

text \<open>\<open>_join\<close> up to its wait for the acknowledgement.\<close>

definition join_begin :: "sid \<Rightarrow> client \<Rightarrow> (exn + fid) \<times> client" where
  "join_begin s c =
     (case resolve_join_params (c_sub c s) of
        Inl e \<Rightarrow> (case join_error s e c of (e', c1) \<Rightarrow> (Inl e', c1))
      | Inr params \<Rightarrow>
          (let m = make_message (System SysJoin) (t_name (c_sub c s)) (Some (t_join_ref (c_sub c s)))
                     (Some (PDict params)) (Some (t_join_ref (c_sub c s)));
               (f, c1) = current_join_ready s c
           in case send_channel_operation s m f (c_join_timeout c1) TimeoutError c1 of
                (Some e, c2) \<Rightarrow> (case join_error s e c2 of (e', c3) \<Rightarrow> (Inl e', c3))
              | (None, c2) \<Rightarrow> (Inr f, c2)))"

text \<open>The wait of \<open>_join\<close> ends: the acknowledgement's outcome, or the error it raises on.\<close>

definition join_end :: "sid \<Rightarrow> exn + reply option \<Rightarrow> client \<Rightarrow> (exn + unit) \<times> client" where
  "join_end s r c =
     (case r of
        Inr _ \<Rightarrow> (Inr (), c)
      | Inl e \<Rightarrow> (case join_error s e c of (e', c1) \<Rightarrow> (Inl e', c1)))"

text \<open>The part of \<open>_join_channel\<close> under the lock.\<close>

definition reserve_name :: "sid \<Rightarrow> client \<Rightarrow> exn + client" where
  "reserve_name s c =
     (if t_state (c_sub c s) \<noteq> CREATED then
        Inl (ChannelError (lit ''Channel has already joined or left''))
      else andThen (ensure_can_send ''join'' c) (\<lambda>_.
        if dict_get (c_registry c) (t_name (c_sub c s)) \<noteq> None then
          Inl (ChannelError (lit ''Topic '' @ t_name (c_sub c s) @ lit '' already has a live channel''))
        else
          (let (ref, c1) = generate_ref c;
               c2 = upd_topic s (\<lambda>t. t\<lparr>t_state := JOINING, t_conn_generation := c_generation c,
                      t_connection := c_connection c, t_join_ref := ref\<rparr>) c1
           in Inr (c2\<lparr>c_registry := dict_set (t_name (c_sub c s)) s (c_registry c2)\<rparr>))))"

definition start_processor :: "sid \<Rightarrow> client \<Rightarrow> client" where
  "start_processor s c =
     (let (k, c1) = new_task (Process_Topic_Messages (t_name (c_sub c s))) c
      in upd_topic s (\<lambda>t. t\<lparr>t_process_task := Some k\<rparr>) c1)"

text \<open>\<open>_join_channel\<close> after the lock, up to its wait.\<close>

definition join_channel_begin :: "sid \<Rightarrow> client \<Rightarrow> (exn + fid) \<times> client" where
  "join_channel_begin s c =
     (let c1 = start_processor s c
      in case validate_join_hook (c_sub c1 s) of
           Inl e \<Rightarrow> (Inl e, c1)
         | Inr _ \<Rightarrow> join_begin s c1)"

section \<open>Leaving\<close>

text \<open>\<open>_leave_channel\<close> up to its wait for the leave task; \<open>None\<close> where there is none.\<close>

definition leave_channel :: "sid \<Rightarrow> tid option \<Rightarrow> client \<Rightarrow> tid option \<times> client" where
  "leave_channel s initiator c =
     (if t_state (c_sub c s) = CREATED then
        (None, upd_topic s (\<lambda>t. t\<lparr>t_state := LEFT, t_cause := Some LEAVE,
                 t_leave_requested := True\<rparr>) c)
      else (case start_leave_task s initiator c of (k, c1) \<Rightarrow> (Some k, c1)))"

text \<open>What a failed join raises to the caller, after its cleanup.\<close>

definition join_channel_error :: "sid \<Rightarrow> exn \<Rightarrow> client \<Rightarrow> exn" where
  "join_channel_error s e c =
     (if e = TimeoutError then ChannelError (lit ''Timed out joining '' @ t_name (c_sub c s)) else e)"

text \<open>
  \<open>_leave_and_cleanup\<close> up to its wait for the acknowledgement: \<open>Inr f\<close> when a leave frame was
  admitted and the task waits for \<open>f\<close>; otherwise the cleanup follows at once, and then the error
  of the operation, if there was one.
\<close>

definition leave_and_cleanup :: "sid \<Rightarrow> client \<Rightarrow> (exn option + fid) \<times> client" where
  "leave_and_cleanup s c =
     (let t = c_sub c s
      in if t_join_submitted t \<and> \<not> t_terminal_received t \<and> t_connection t = c_connection c \<and>
           is_connected c then
           (let (ref, c1) = generate_ref c;
                c2 = upd_topic s (\<lambda>t. t\<lparr>t_leave_ref := Some ref\<rparr>) c1;
                m = make_message (System SysLeave) (t_name t) (Some ref) (Some (PDict []))
                      (Some (t_join_ref t));
                (f, c3) = unsubscribe_completed s c2
            in case send_channel_operation s m f (c_leave_timeout c3)
                      (ChannelError (lit ''Leave deadline expired'')) c3 of
                 (Some e, c4) \<Rightarrow> (Inl (Some e), c4)
               | (None, c4) \<Rightarrow> (Inr f, c4))
         else if t_connection t \<noteq> c_connection c \<or> c_connection c = None then
           (Inl None, upd_topic s (\<lambda>t. t\<lparr>t_terminal_received := True\<rparr>) c)
         else (Inl None, c))"

text \<open>The tasks \<open>_cleanup_subscription\<close> cancels, and what it does once they have ended.\<close>

definition cancel_unless_current :: "tid option \<Rightarrow> tid option \<Rightarrow> client \<Rightarrow> client" where
  "cancel_unless_current me k c =
     (case k of
        Some k' \<Rightarrow> if \<not> task_done c k' \<and> me \<noteq> Some k' then request_cancel k' c else c
      | None \<Rightarrow> c)"

definition cleanup_cancel_recovery :: "tid option \<Rightarrow> tid option \<Rightarrow> sid \<Rightarrow> client \<Rightarrow> client" where
  "cleanup_cancel_recovery me initiator s c =
     (if t_recovery_task (c_sub c s) \<noteq> initiator
      then cancel_unless_current me (t_recovery_task (c_sub c s)) c else c)"

definition cleanup_cancel_processor :: "tid option \<Rightarrow> tid option \<Rightarrow> sid \<Rightarrow> client \<Rightarrow> client" where
  "cleanup_cancel_processor me initiator s c =
     (if t_process_task (c_sub c s) \<noteq> initiator
      then cancel_unless_current me (t_process_task (c_sub c s)) c else c)"

text \<open>Whether the cleanup lets the running callback end before it stops the processor.\<close>

definition cleanup_drains :: "tid option \<Rightarrow> topic \<Rightarrow> bool" where
  "cleanup_drains initiator t \<longleftrightarrow>
     t_process_task t \<noteq> initiator \<and> t_cause t = Some LEAVE \<and> t_callback_task t \<noteq> initiator"

definition cleanup_end :: "sid \<Rightarrow> client \<Rightarrow> client" where
  "cleanup_end s c = release_reservation s (upd_topic s (\<lambda>t. t\<lparr>t_cleanup_done := True\<rparr>) c)"

section \<open>Losing a topic\<close>

text \<open>\<open>_unregister_topic\<close> up to its wait: the topic it retires and the leave task.\<close>

definition unregister_topic ::
  "pystr \<Rightarrow> exn option \<Rightarrow> sid option \<Rightarrow> tid option \<Rightarrow> client \<Rightarrow> (sid \<times> tid option) option \<times> client" where
  "unregister_topic name error only me c =
     (case dict_get (c_registry c) name of
        None \<Rightarrow> (None, c)
      | Some s \<Rightarrow>
          if only \<noteq> None \<and> only \<noteq> Some s then (None, c)
          else
            (let c1 = (if t_state (c_sub c s) \<noteq> LEFT
                       then transition_channel s CLOSE
                              (Some (case error of Some e \<Rightarrow> e
                                     | None \<Rightarrow> ChannelError (lit ''Channel retired''))) c
                       else c);
                 (k, c2) = leave_channel s me c1
             in (Some (s, k), c2)))"

text \<open>\<open>_lose_topic\<close> up to its wait: \<open>None\<close> when there is nothing left to lose.\<close>

definition lose_topic :: "tid option \<Rightarrow> sid \<Rightarrow> exn \<Rightarrow> client \<Rightarrow> tid option option \<times> client" where
  "lose_topic me s error c =
     (case unregister_topic (t_name (c_sub c s)) (Some error) (Some s) me c of
        (None, c1) \<Rightarrow> (None, c1)
      | (Some (_, k), c1) \<Rightarrow> (Some k, c1))"

definition report_topic_lost :: "sid \<Rightarrow> exn \<Rightarrow> client \<Rightarrow> client" where
  "report_topic_lost s error c =
     (if t_loss_reported (c_sub c s) then c
      else (let c1 = upd_topic s (\<lambda>t. t\<lparr>t_loss_reported := True\<rparr>) c
            in c1\<lparr>c_lost := c_lost c1 @ [(t_name (c_sub c1 s), error)]\<rparr>))"

section \<open>Rejoining\<close>

text \<open>\<open>_rejoin_topic\<close> up to its first wait; whether it goes on.\<close>

definition rejoin_begin :: "sid \<Rightarrow> client \<Rightarrow> bool \<times> client" where
  "rejoin_begin s c =
     (if \<not> should_rejoin c s then (False, c)
      else (let c1 = (if t_state (c_sub c s) = JOINED
                      then transition_channel s TRANSPORT
                             (Some (SocketError (lit ''Connection replaced before channel rejoin''))) c
                      else c)
            in (True, upd_topic s (\<lambda>t. t\<lparr>t_restart_requested := True\<rparr>) c1)))"

definition restart_topic :: "sid \<Rightarrow> nat \<Rightarrow> client \<Rightarrow> client" where
  "restart_topic s gen c =
     (let (ref, c1) = generate_ref c;
          (f, c2) = new_future c1;
          c3 = upd_topic s (\<lambda>t. drain_topic_queue (t\<lparr>t_conn_generation := gen,
                 t_connection := c_connection c, t_state := REJOINING, t_cause := None,
                 t_join_submitted := False, t_terminal_received := False,
                 t_restart_requested := False, t_join_ref := ref, t_join_ready := Some f\<rparr>)) c2
      in start_processor s c3)"

text \<open>
  \<open>_rejoin_topic\<close> after the old processor has ended, up to the wait for the acknowledgement:
  \<open>None\<close> when the topic was left or unregistered meanwhile.
\<close>

definition rejoin_restart :: "sid \<Rightarrow> nat \<Rightarrow> client \<Rightarrow> (exn + fid) option \<times> client" where
  "rejoin_restart s gen c =
     (if \<not> should_rejoin c s then (None, c)
      else (case join_begin s (restart_topic s gen c) of (r, c1) \<Rightarrow> (Some r, c1)))"

definition rejoin_rejected :: "topic \<Rightarrow> exn \<Rightarrow> exn" where
  "rejoin_rejected t e =
     ChannelError (lit ''Failed to rejoin topic '' @ t_name t @ lit '': '' @ exn_text e)"

definition refused_cause :: "channel_cause option \<Rightarrow> bool" where
  "refused_cause cause \<longleftrightarrow> cause = Some REJECTED \<or> cause = Some CONFIGURATION"

text \<open>
  \<open>_handle_rejoin_failure\<close> up to its wait: the loss to report once the leave task has ended, or
  a recovery.
\<close>

definition handle_rejoin_failure ::
  "tid option \<Rightarrow> sid \<Rightarrow> exn \<Rightarrow> client \<Rightarrow> (tid option \<times> exn) option \<times> client" where
  "handle_rejoin_failure me s exc c =
     (if c_shutdown c \<or> c_state c = SHUTTING_DOWN then (None, c)
      else if refused_cause (t_cause (c_sub c s)) then
        (let error = rejoin_rejected (c_sub c s) exc
         in case unregister_topic (t_name (c_sub c s)) (Some error) (Some s) me c of
              (None, c1) \<Rightarrow> (None, c1)
            | (Some (_, k), c1) \<Rightarrow> (Some (k, error), c1))
      else (None, start_channel_recovery s None c))"

text \<open>The channels that do not hold up the reconnect recover on their own.\<close>

definition recover_in_background :: "nat \<Rightarrow> sid list \<Rightarrow> client \<Rightarrow> client" where
  "recover_in_background gen subs c =
     fold (\<lambda>s c. if t_blocks_reconnect (c_sub c s) then c
                 else start_channel_recovery s (Some gen) c) subs c"

text \<open>
  \<open>_recover_channel\<close> between its waits. \<open>recover_turn\<close> is the loop head: the wait before the next
  attempt (none for an immediate one), or the end. \<open>recover_failed\<close> is the handler of a failed
  attempt, \<open>recover_joined\<close> the test after an attempt that returned.
\<close>

datatype turn = Give_Up | Attempt_Now | Attempt_After nat

definition recover_turn :: "sid \<Rightarrow> nat \<Rightarrow> bool \<Rightarrow> nat \<Rightarrow> client \<Rightarrow> turn" where
  "recover_turn s gen immediate attempt c =
     (if \<not> can_recover c s gen then Give_Up
      else if immediate then Attempt_Now else Attempt_After attempt)"

definition caught_by_recovery :: "exn \<Rightarrow> bool" where
  "caught_by_recovery e \<longleftrightarrow> is_channel_error e \<or> e = TimeoutError \<or> is_socket_error e"

definition recover_failed :: "tid option \<Rightarrow> sid \<Rightarrow> nat \<Rightarrow> exn \<Rightarrow> client \<Rightarrow> bool \<times> client" where
  "recover_failed me s gen exc c =
     (if refused_cause (t_cause (c_sub c s)) then
        (False, start_topic_loss me s (rejoin_rejected (c_sub c s) exc) c)
      else (can_recover c s gen, c))"

definition recover_joined :: "sid \<Rightarrow> client \<Rightarrow> bool" where
  "recover_joined s c \<longleftrightarrow> is_current_join_ready c s"

end
