(* ===== verification/Channel_Invariants.thy ===== *)
theory Channel_Invariants
  imports Channel_Lifecycle
begin

text \<open>
  What every operation of the channel runtime respects. \<open>progress\<close> relates the states before
  and after: a settled future keeps its outcome and none is set twice, a topic that was left stays left, a leave
  task is the only one of its topic, a name is released only for a topic whose join is over, and
  what a call waits for (the outcome of a push, of a first join, of a leave) is forgotten only once
  it is settled. \<open>inv\<close> is the invariant of the client's topics.
  Both are proved operation by operation; the run-level properties follow.
\<close>

section \<open>Progress\<close>

definition released :: "topic \<Rightarrow> bool" where
  "released t \<longleftrightarrow> t_state t = LEFT \<and> (t_join_submitted t \<longrightarrow> t_terminal_received t)"

definition topic_progress :: "topic \<Rightarrow> topic \<Rightarrow> bool" where
  "topic_progress t t' \<longleftrightarrow>
     t_name t' = t_name t \<and> (t_state t' = CREATED \<longrightarrow> t_state t = CREATED) \<and>
     (t_leave_task t' = t_leave_task t \<or> t_leave_task t = None \<and> t_state t' = LEFT) \<and>
     (t_established t \<longrightarrow> t_established t') \<and> (t_loss_reported t \<longrightarrow> t_loss_reported t') \<and>
     (\<forall>f. t_unsubscribed t = Some f \<longrightarrow> t_unsubscribed t' = Some f) \<and>
     (t_state t = LEFT \<longrightarrow> t_state t' = LEFT \<and>
        (t_join_submitted t' \<longrightarrow> t_join_submitted t) \<and>
        (t_terminal_received t \<longrightarrow> t_terminal_received t'))"

abbreviation pending_push :: "client \<Rightarrow> sid \<Rightarrow> pystr \<Rightarrow> fid option" where
  "pending_push c s r \<equiv> dict_get (t_pending_pushes (c_sub c s)) r"

definition awaits_join :: "topic \<Rightarrow> fid \<Rightarrow> bool" where
  "awaits_join t f \<longleftrightarrow> t_state t = JOINING \<and> t_join_ready t = Some f"

definition set_once :: "client \<Rightarrow> client \<Rightarrow> bool" where
  "set_once c c' \<longleftrightarrow> (\<forall>f. c_fut c' f = Set_Twice \<longrightarrow> c_fut c f = Set_Twice)"

lemma set_once_same [simp]: "c_fut c' = c_fut c \<Longrightarrow> set_once c c'"
  by (simp add: set_once_def)

lemma set_once_trans: "set_once a b \<Longrightarrow> set_once b c \<Longrightarrow> set_once a c"
  by (simp add: set_once_def)

definition progress :: "client \<Rightarrow> client \<Rightarrow> bool" where
  "progress c c' \<longleftrightarrow>
     c_next c \<le> c_next c' \<and> c_ref_counter c \<le> c_ref_counter c' \<and>
     (\<forall>f < c_next c. c_fut c f \<noteq> Pending \<longrightarrow> c_fut c' f = c_fut c f) \<and>
     (\<forall>s < c_next c. topic_progress (c_sub c s) (c_sub c' s)) \<and>
     (\<forall>n. \<forall>s < c_next c. dict_get (c_registry c) n = Some s \<longrightarrow>
        dict_get (c_registry c') n = Some s \<or> released (c_sub c' s)) \<and>
     (\<forall>r. \<forall>s < c_next c. \<forall>f < c_next c. pending_push c s r = Some f \<longrightarrow>
        c_fut c' f = Pending \<longrightarrow> pending_push c' s r = Some f) \<and>
     (\<forall>s < c_next c. \<forall>f < c_next c. awaits_join (c_sub c s) f \<longrightarrow>
        c_fut c' f = Pending \<longrightarrow> awaits_join (c_sub c' s) f) \<and>
     set_once c c'"

lemma topic_progress_refl [simp]: "topic_progress t t"
  by (simp add: topic_progress_def)

lemma topic_progress_trans:
  assumes "topic_progress a b" "topic_progress b c"
  shows "topic_progress a c"
  using assms unfolding topic_progress_def by (intro conjI) (blast | metis)+

lemma released_progress: "topic_progress a b \<Longrightarrow> released a \<Longrightarrow> released b"
  by (auto simp: topic_progress_def released_def)

lemma progress_refl [simp, intro]: "progress c c"
  by (simp add: progress_def)

lemma progressD:
  assumes "progress c c'"
  shows "c_next c \<le> c_next c'" "c_ref_counter c \<le> c_ref_counter c'"
    "f < c_next c \<Longrightarrow> c_fut c f \<noteq> Pending \<Longrightarrow> c_fut c' f = c_fut c f"
    "s < c_next c \<Longrightarrow> topic_progress (c_sub c s) (c_sub c' s)"
    "s < c_next c \<Longrightarrow> dict_get (c_registry c) n = Some s \<Longrightarrow>
     dict_get (c_registry c') n = Some s \<or> released (c_sub c' s)"
    "s < c_next c \<Longrightarrow> f < c_next c \<Longrightarrow> pending_push c s r = Some f \<Longrightarrow> c_fut c' f = Pending \<Longrightarrow>
     pending_push c' s r = Some f"
    "s < c_next c \<Longrightarrow> f < c_next c \<Longrightarrow> awaits_join (c_sub c s) f \<Longrightarrow> c_fut c' f = Pending \<Longrightarrow>
     awaits_join (c_sub c' s) f"
    "set_once c c'"
  using assms unfolding progress_def by blast+

lemma progressI:
  assumes "c_next c \<le> c_next c'" "c_ref_counter c \<le> c_ref_counter c'"
    "\<And>f. f < c_next c \<Longrightarrow> c_fut c f \<noteq> Pending \<Longrightarrow> c_fut c' f = c_fut c f"
    "\<And>s. s < c_next c \<Longrightarrow> topic_progress (c_sub c s) (c_sub c' s)"
    "\<And>n s. s < c_next c \<Longrightarrow> dict_get (c_registry c) n = Some s \<Longrightarrow>
      dict_get (c_registry c') n = Some s \<or> released (c_sub c' s)"
    "\<And>r s f. s < c_next c \<Longrightarrow> f < c_next c \<Longrightarrow> pending_push c s r = Some f \<Longrightarrow> c_fut c' f = Pending \<Longrightarrow>
      pending_push c' s r = Some f"
    "\<And>s f. s < c_next c \<Longrightarrow> f < c_next c \<Longrightarrow> awaits_join (c_sub c s) f \<Longrightarrow> c_fut c' f = Pending \<Longrightarrow>
      awaits_join (c_sub c' s) f"
    "set_once c c'"
  shows "progress c c'"
  using assms unfolding progress_def by blast

lemma progress_trans [trans]:
  assumes ab: "progress a b" and bc: "progress b c"
  shows "progress a c"
proof (rule progressI)
  note n = progressD(1) [OF ab] progressD(1) [OF bc]
  show "c_next a \<le> c_next c" using n by simp
  show "c_ref_counter a \<le> c_ref_counter c"
    using progressD(2) [OF ab] progressD(2) [OF bc] by simp
  show "c_fut c f = c_fut a f" if "f < c_next a" "c_fut a f \<noteq> Pending" for f
    using progressD(3) [OF ab that] progressD(3) [OF bc, of f] that n by simp
  show "set_once a c" using set_once_trans [OF progressD(8) [OF ab] progressD(8) [OF bc]] .
  fix s
  assume s: "s < c_next a"
  then have "s < c_next b" using n by simp
  note t = progressD(4) [OF ab s] progressD(4) [OF bc \<open>s < c_next b\<close>]
  show "topic_progress (c_sub a s) (c_sub c s)" by (rule topic_progress_trans [OF t])
  fix k
  assume "dict_get (c_registry a) k = Some s"
  from progressD(5) [OF ab s this]
  show "dict_get (c_registry c) k = Some s \<or> released (c_sub c s)"
    using progressD(5) [OF bc \<open>s < c_next b\<close>] released_progress [OF t(2)] by blast
next
  fix s f
  assume p: "s < c_next a" "f < c_next a" "c_fut c f = Pending"
  then have b: "s < c_next b" "f < c_next b" using progressD(1) [OF ab] by simp_all
  then have f: "c_fut b f = Pending" using progressD(3) [OF bc b(2)] p(3) by auto
  show "pending_push c s r = Some f" if "pending_push a s r = Some f" for r
    using progressD(6) [OF bc b] progressD(6) [OF ab p(1,2) that f] p(3) by blast
  show "awaits_join (c_sub c s) f" if "awaits_join (c_sub a s) f"
    using progressD(7) [OF bc b] progressD(7) [OF ab p(1,2) that f] p(3) by blast
qed

lemma progress_fold:
  "(\<And>x c. x \<in> set xs \<Longrightarrow> progress c (h x c)) \<Longrightarrow> progress c (fold h xs c)"
  by (induction xs arbitrary: c) (auto intro: progress_trans)

text \<open>A change outside topics, futures and names is progress.\<close>

definition same_channels :: "client \<Rightarrow> client \<Rightarrow> bool" where
  "same_channels c c' \<longleftrightarrow>
     c_next c \<le> c_next c' \<and> c_ref_counter c \<le> c_ref_counter c' \<and> c_sub c' = c_sub c \<and>
     c_fut c' = c_fut c \<and> c_registry c' = c_registry c"

lemma same_channels_progress: "same_channels c c' \<Longrightarrow> progress c c'"
  by (auto simp: same_channels_def progress_def)

definition keeps_waits :: "topic \<Rightarrow> topic \<Rightarrow> bool" where
  "keeps_waits t t' \<longleftrightarrow>
     t_pending_pushes t' = t_pending_pushes t \<and> (\<forall>f. awaits_join t f \<longrightarrow> awaits_join t' f)"

lemmas waits_defs = keeps_waits_def awaits_join_def

lemma progress_upd [intro]:
  "topic_progress (c_sub c s) (g (c_sub c s)) \<Longrightarrow> keeps_waits (c_sub c s) (g (c_sub c s)) \<Longrightarrow>
   progress c (upd_topic s g c)"
  by (auto simp: progress_def keeps_waits_def)

text \<open>Forgetting what is settled, or was created meanwhile.\<close>

lemma progress_forget:
  assumes "progress a c" "topic_progress (c_sub c s) (g (c_sub c s))"
    "\<And>r f. pending_push c s r = Some f \<Longrightarrow> f < c_next a \<Longrightarrow> c_fut c f = Pending \<Longrightarrow>
       dict_get (t_pending_pushes (g (c_sub c s))) r = Some f"
    "\<And>f. awaits_join (c_sub c s) f \<Longrightarrow> f < c_next a \<Longrightarrow> c_fut c f = Pending \<Longrightarrow>
       awaits_join (g (c_sub c s)) f"
  shows "progress a (upd_topic s g c)"
proof (rule progressI)
  note p = progressD [OF assms(1)]
  show "c_next a \<le> c_next (upd_topic s g c)" "c_ref_counter a \<le> c_ref_counter (upd_topic s g c)"
    using p(1,2) by simp_all
  show "c_fut (upd_topic s g c) f = c_fut a f" if "f < c_next a" "c_fut a f \<noteq> Pending" for f
    using p(3) [OF that] by simp
  show "set_once a (upd_topic s g c)" using set_once_trans [OF p(8)] by simp
  have t: "topic_progress (c_sub c x) (c_sub (upd_topic s g c) x)" for x
    using assms(2) by simp
  show "topic_progress (c_sub a x) (c_sub (upd_topic s g c) x)" if "x < c_next a" for x
    using topic_progress_trans [OF p(4) [OF that] t] .
  show "dict_get (c_registry (upd_topic s g c)) n = Some x \<or> released (c_sub (upd_topic s g c) x)"
    if "x < c_next a" "dict_get (c_registry a) n = Some x" for n x
    using p(5) [OF that] released_progress [OF t [of x]] by auto
  show "pending_push (upd_topic s g c) x r = Some f"
    if "x < c_next a" "f < c_next a" "pending_push a x r = Some f"
      "c_fut (upd_topic s g c) f = Pending" for r x f
    using p(6) [OF that(1-3)] that(2,4) assms(3) [of r f] by (cases "x = s") simp_all
  show "awaits_join (c_sub (upd_topic s g c) x) f"
    if "x < c_next a" "f < c_next a" "awaits_join (c_sub a x) f" "c_fut (upd_topic s g c) f = Pending"
    for x f
    using p(7) [OF that(1-3)] that(2,4) assms(4) [of f] by (cases "x = s") simp_all
qed

lemma progress_set_exception [simp, intro]: "progress c (set_future_exception f e c)"
  by (auto simp: progress_def set_once_def fut_done_def)

lemma progress_set_result [simp, intro]:
  "c_fut c f = Pending \<Longrightarrow> progress c (set_future_result f r c)"
  by (auto simp: progress_def set_once_def fut_done_def)

lemma progress_cancel_future [simp, intro]: "progress c (cancel_future f c)"
  by (auto simp: progress_def set_once_def fut_done_def)

lemma progress_new_future [simp, intro]: "progress c (snd (new_future c))"
  by (auto simp: progress_def set_once_def)

lemma progress_new_task [simp, intro]: "progress c (snd (new_task w c))"
  by (auto simp: progress_def)

lemma progress_request_cancel [simp, intro]: "progress c (request_cancel k c)"
  by (auto simp: progress_def)

lemma progress_generate_ref [simp, intro]: "progress c (snd (generate_ref c))"
  by (auto simp: progress_def)

section \<open>The invariant\<close>

text \<open>The references a topic waits on: its join, its leave, its pushes.\<close>

definition refs_of :: "topic \<Rightarrow> pystr list" where
  "refs_of t =
     (if t_join_ref t = [] then [] else [t_join_ref t]) @
     (case t_leave_ref t of None \<Rightarrow> [] | Some r \<Rightarrow> [r]) @ map fst (t_pending_pushes t)"

definition refs_ok :: "nat \<Rightarrow> topic \<Rightarrow> bool" where
  "refs_ok n t \<longleftrightarrow> distinct (refs_of t) \<and> set (refs_of t) \<subseteq> str_nat ` {1..n}"

definition topic_ok :: "client \<Rightarrow> topic \<Rightarrow> bool" where
  "topic_ok c t \<longleftrightarrow>
     (t_leave_requested t \<longleftrightarrow> t_state t = LEFT) \<and>
     (t_state t = JOINED \<longrightarrow> t_established t \<and>
        (\<exists>f r. t_join_ready t = Some f \<and> c_fut c f = Result r)) \<and>
     (t_state t = REJOINING \<longrightarrow> t_established t) \<and>
     (t_established t \<longrightarrow> t_state t \<in> {JOINED, REJOINING, LEFT}) \<and>
     (t_state t \<in> {CREATED, JOINING, LEFT} \<longrightarrow> t_pending_pushes t = []) \<and>
     (\<forall>f. t_join_ready t = Some f \<longrightarrow> f < c_next c) \<and>
     refs_ok (c_ref_counter c) t"

definition registry_ok :: "client \<Rightarrow> bool" where
  "registry_ok c \<longleftrightarrow>
     distinct (map fst (c_registry c)) \<and>
     (\<forall>n s. dict_get (c_registry c) n = Some s \<longrightarrow>
        s < c_next c \<and> t_name (c_sub c s) = n \<and> t_state (c_sub c s) \<noteq> CREATED)"

definition inv :: "client \<Rightarrow> bool" where
  "inv c \<longleftrightarrow> (\<forall>s. topic_ok c (c_sub c s)) \<and> registry_ok c"

lemma refs_ok_mono: "refs_ok n t \<Longrightarrow> n \<le> m \<Longrightarrow> refs_ok m t"
  by (auto simp: refs_ok_def)

lemma topic_ok_progress: "progress c c' \<Longrightarrow> topic_ok c t \<Longrightarrow> topic_ok c' t"
  unfolding topic_ok_def
  by (elim conjE, intro conjI)
    (auto simp: progress_def intro: refs_ok_mono order_less_le_trans)

lemma fresh_ref:
  "refs_ok n t \<Longrightarrow> str_nat (n + 1) \<notin> set (refs_of t)"
  by (auto simp: refs_ok_def)

lemma inv_topic: "inv c \<Longrightarrow> topic_ok c (c_sub c s)"
  by (simp add: inv_def)

text \<open>An operation that leaves topics and names as they are keeps the invariant.\<close>

lemma inv_frame:
  assumes "inv c" "progress c c'" "c_sub c' = c_sub c" "c_registry c' = c_registry c"
  shows "inv c'"
proof -
  have n: "c_next c \<le> c_next c'" using assms(2) by (simp add: progress_def)
  have "registry_ok c'"
    using assms(1) n unfolding inv_def registry_ok_def assms(3,4)
    by (meson order_less_le_trans)
  then show ?thesis
    using assms(1,3) topic_ok_progress [OF assms(2)] by (simp add: inv_def)
qed

lemma inv_same_channels: "inv c \<Longrightarrow> same_channels c c' \<Longrightarrow> inv c'"
  by (rule inv_frame) (auto simp: same_channels_def same_channels_progress)

text \<open>An update of one topic that keeps its name and does not go back to \<open>CREATED\<close>.\<close>

lemma inv_upd:
  assumes "inv c" "topic_ok c (g (c_sub c s))" "t_name (g (c_sub c s)) = t_name (c_sub c s)"
    "t_state (g (c_sub c s)) = CREATED \<Longrightarrow> t_state (c_sub c s) = CREATED"
  shows "inv (upd_topic s g c)"
proof -
  have "topic_ok (upd_topic s g c) t = topic_ok c t" for t by (simp add: topic_ok_def)
  with assms show ?thesis by (auto simp: inv_def registry_ok_def)
qed

text \<open>One topic changed, the others and the names as they were.\<close>

lemma inv_one:
  assumes "inv c" "progress c c'" "\<And>x. x \<noteq> s \<Longrightarrow> c_sub c' x = c_sub c x"
    "c_registry c' = c_registry c" "topic_ok c' (c_sub c' s)"
    "topic_progress (c_sub c s) (c_sub c' s)"
  shows "inv c'"
  unfolding inv_def
proof (intro conjI allI)
  fix x
  show "topic_ok c' (c_sub c' x)"
    using assms(1,3,5) topic_ok_progress [OF assms(2)] by (cases "x = s") (auto simp: inv_def)
next
  have "t_name (c_sub c' x) = t_name (c_sub c x) \<and>
      (t_state (c_sub c' x) = CREATED \<longrightarrow> t_state (c_sub c x) = CREATED)" for x
    using assms(3,6) by (cases "x = s") (auto simp: topic_progress_def)
  then show "registry_ok c'"
    using assms(1) progressD(1) [OF assms(2)] unfolding inv_def registry_ok_def assms(4)
    by (metis order_less_le_trans)
qed

section \<open>The lazily created futures\<close>

lemma join_ready_upd:
  assumes "current_join_ready s c = (f, c1)"
  shows "progress c c1" "c_sub c1 = (c_sub c)(s := (c_sub c s)\<lparr>t_join_ready := Some f\<rparr>)"
    "c_fut c1 f = join_future c s" "c_registry c1 = c_registry c"
    "(\<And>g. t_join_ready (c_sub c s) = Some g \<Longrightarrow> g < c_next c) \<Longrightarrow> f < c_next c1"
proof -
  have same: "(c_sub c s)\<lparr>t_join_ready := Some g\<rparr> = c_sub c s" if "t_join_ready (c_sub c s) = Some g" for g
    using that by (cases "c_sub c s") simp
  show "progress c c1"
    using assms by (cases "t_join_ready (c_sub c s)")
      (auto simp: current_join_ready_def case_prod_beta topic_progress_def waits_defs
        intro!: progress_trans [OF progress_new_future progress_upd])
  show "c_sub c1 = (c_sub c)(s := (c_sub c s)\<lparr>t_join_ready := Some f\<rparr>)"
    "c_fut c1 f = join_future c s" "c_registry c1 = c_registry c"
    "(\<And>g. t_join_ready (c_sub c s) = Some g \<Longrightarrow> g < c_next c) \<Longrightarrow> f < c_next c1"
    using assms same
    by (auto simp: current_join_ready_def case_prod_beta join_future_def split: option.splits)
qed

lemma unsubscribed_upd:
  assumes "unsubscribe_completed s c = (f, c1)"
  shows "progress c c1" "c_sub c1 = (c_sub c)(s := (c_sub c s)\<lparr>t_unsubscribed := Some f\<rparr>)"
    "c_fut c1 f = unsubscribe_future c s" "c_registry c1 = c_registry c"
proof -
  have same: "(c_sub c s)\<lparr>t_unsubscribed := Some g\<rparr> = c_sub c s" if "t_unsubscribed (c_sub c s) = Some g" for g
    using that by (cases "c_sub c s") simp
  show "progress c c1"
    using assms by (cases "t_unsubscribed (c_sub c s)")
      (auto simp: unsubscribe_completed_def case_prod_beta topic_progress_def waits_defs
        intro!: progress_trans [OF progress_new_future progress_upd])
  show "c_sub c1 = (c_sub c)(s := (c_sub c s)\<lparr>t_unsubscribed := Some f\<rparr>)"
    "c_fut c1 f = unsubscribe_future c s" "c_registry c1 = c_registry c"
    using assms same
    by (auto simp: unsubscribe_completed_def case_prod_beta unsubscribe_future_def split: option.splits)
qed

section \<open>Transitions\<close>

text \<open>What a transition never touches: the connection, the session, the client's own flags.\<close>

definition same_env :: "client \<Rightarrow> client \<Rightarrow> bool" where
  "same_env c c' \<longleftrightarrow>
     c_connection c' = c_connection c \<and> c_state c' = c_state c \<and>
     c_generation c' = c_generation c \<and> c_version c' = c_version c \<and>
     c_shutdown c' = c_shutdown c \<and> c_send_session c' = c_send_session c \<and>
     c_sess c' = c_sess c \<and> c_sent c' = c_sent c \<and> c_lost c' = c_lost c \<and>
     c_ref_counter c' = c_ref_counter c \<and> c_max_queue c' = c_max_queue c \<and>
     c_join_timeout c' = c_join_timeout c \<and> c_leave_timeout c' = c_leave_timeout c"

lemma same_env_refl [simp]: "same_env c c"
  by (simp add: same_env_def)

lemma same_env_trans [trans]: "same_env a b \<Longrightarrow> same_env b c \<Longrightarrow> same_env a c"
  by (simp add: same_env_def)

lemma join_ready_env: "current_join_ready s c = (f, c1) \<Longrightarrow> same_env c c1"
  by (auto simp: current_join_ready_def case_prod_beta same_env_def split: option.splits)

lemma unsubscribed_env: "unsubscribe_completed s c = (f, c1) \<Longrightarrow> same_env c c1"
  by (auto simp: unsubscribe_completed_def case_prod_beta same_env_def split: option.splits)

lemma fail_current_join_env: "same_env c (fail_current_join s e c)"
  using join_ready_env [of s c]
  by (cases "current_join_ready s c") (auto simp: fail_current_join_def case_prod_beta same_env_def)

lemma fail_current_join_upd:
  assumes "\<And>g. t_join_ready (c_sub c s) = Some g \<Longrightarrow> g < c_next c"
  obtains f where
    "progress c (fail_current_join s e c)"
    "c_sub (fail_current_join s e c) = (c_sub c)(s := (c_sub c s)\<lparr>t_join_ready := Some f\<rparr>)"
    "c_fut (fail_current_join s e c) f = Failed e" "f < c_next (fail_current_join s e c)"
    "c_registry (fail_current_join s e c) = c_registry c"
    "\<And>g. c_fut c g = Pending \<Longrightarrow> c_fut (fail_current_join s e c) g \<in> {Pending, Failed e}"
proof -
  obtain f c1 where c1: "current_join_ready s c = (f, c1)" by force
  note u = join_ready_upd [OF c1]
  have same: "c_fut c g = Pending \<Longrightarrow> c_fut c1 g = Pending" for g
    using c1 by (auto simp: current_join_ready_def case_prod_beta split: option.splits)
  show thesis
  proof (cases "fut_done (c_fut c1 f)")
    case False
    then have "fail_current_join s e c = set_future_exception f e c1"
      using c1 by (simp add: fail_current_join_def)
    then show thesis
      using that [of f] u assms False same progress_trans [OF u(1) progress_set_exception] by auto
  next
    case True
    let ?c2 = "upd_topic s (\<lambda>t. t\<lparr>t_join_ready := Some (c_next c1)\<rparr>) (snd (new_future c1))"
    have e: "fail_current_join s e c = set_future_exception (c_next c1) e ?c2"
      using c1 True by (simp add: fail_current_join_def case_prod_beta)
    have "progress c1 ?c2"
      by (rule progress_forget [OF progress_new_future])
        (use u(2) True in \<open>auto simp: topic_progress_def awaits_join_def fut_done_def\<close>)
    then have "progress c (fail_current_join s e c)"
      unfolding e using u(1) progress_set_exception progress_trans by blast
    then show thesis
      using that [of "c_next c1"] u same unfolding e by (simp add: fut_done_def)
  qed
qed

text \<open>Failing the join commutes with changes of the other fields.\<close>

lemma current_join_ready_upd:
  assumes "\<And>t. t_join_ready (g t) = t_join_ready t"
    "\<And>t x. g (t\<lparr>t_join_ready := x\<rparr>) = (g t)\<lparr>t_join_ready := x\<rparr>"
  shows "current_join_ready s (upd_topic s g c) =
    (fst (current_join_ready s c), upd_topic s g (snd (current_join_ready s c)))"
  using assms
  by (simp add: current_join_ready_def new_future_def upd_topic_def Let_def split: option.split)

lemma fail_current_join_commute:
  assumes "\<And>t. t_join_ready (g t) = t_join_ready t"
    "\<And>t x. g (t\<lparr>t_join_ready := x\<rparr>) = (g t)\<lparr>t_join_ready := x\<rparr>"
  shows "fail_current_join s e (upd_topic s g c) = upd_topic s g (fail_current_join s e c)"
proof -
  obtain f c1 where c1: "current_join_ready s c = (f, c1)" by force
  have "current_join_ready s (upd_topic s g c) = (f, upd_topic s g c1)"
    using current_join_ready_upd [of g s c] assms c1 by simp
  then show ?thesis
    using c1 assms(2)
    by (simp add: fail_current_join_def Let_def new_future_def set_future_exception_def put_outcome_def
        upd_topic_def fut_done_def)
qed

lemma fold_fail_sel [simp]:
  "c_sub (fold (\<lambda>f. set_future_exception f e) fs c) = c_sub c"
  "c_registry (fold (\<lambda>f. set_future_exception f e) fs c) = c_registry c"
  "c_next (fold (\<lambda>f. set_future_exception f e) fs c) = c_next c"
  by (induction fs arbitrary: c) simp_all

lemma fold_fail_env: "same_env c (fold (\<lambda>f. set_future_exception f e) fs c)"
  by (induction fs arbitrary: c) (auto simp: same_env_def)

lemma fold_fail_progress: "progress c (fold (\<lambda>f. set_future_exception f e) fs c)"
  by (rule progress_fold) simp

lemma fold_fail_fut:
  "c_fut (fold (\<lambda>f. set_future_exception f e) fs c) g =
     (if g \<in> set fs \<and> c_fut c g = Pending then Failed e else c_fut c g)"
  by (induction fs arbitrary: c) (auto simp: fut_done_def)

text \<open>The topic a transition leaves behind, for every cause but an acceptance.\<close>

definition lost_topic :: "client \<Rightarrow> topic \<Rightarrow> channel_cause \<Rightarrow> fid \<Rightarrow> topic" where
  "lost_topic c t cause f =
     t\<lparr>t_cause := Some cause, t_state := lost_state c t cause,
       t_leave_requested := (lost_state c t cause = LEFT \<or> t_leave_requested t),
       t_join_ready := Some f, t_pending_pushes := []\<rparr>"

definition failure_of :: "exn option \<Rightarrow> exn" where
  "failure_of error = (case error of Some e \<Rightarrow> e | None \<Rightarrow> ChannelError (lit ''Channel is not joined''))"

lemma lost_state_upd [simp]:
  "lost_state (upd_topic s g c) = lost_state c"
  "lost_state c (t\<lparr>t_cause := x\<rparr>) = lost_state c t"
  by (simp_all add: lost_state_def fun_eq_iff)

lemma lost_state_left: "t_leave_requested t \<Longrightarrow> lost_state c t cause = LEFT"
  by (simp add: lost_state_def)

lemma lost_state_cases: "lost_state c t cause = LEFT \<or> lost_state c t cause = REJOINING \<and> t_established t"
  by (simp add: lost_state_def)

lemma transition_env: "same_env c (transition_channel s cause error c)"
proof (cases "cause = ACCEPTED")
  case True
  have u: "same_env c (upd_topic s g c)" for g c by (simp add: same_env_def)
  have r: "same_env c (set_future_result f None c)" for f c by (simp add: same_env_def)
  have a: "same_env c (accept_channel s c)" for c
    using same_env_trans [OF u same_env_trans [OF join_ready_env r]] same_env_trans [OF u join_ready_env]
    by (auto simp: accept_channel_def Let_def split: prod.split)
  show ?thesis
    using same_env_trans [OF u a] True by (simp add: transition_channel_def)
next
  case False
  have u: "same_env c (upd_topic s g c)" for g c by (simp add: same_env_def)
  show ?thesis
    unfolding transition_channel_def Let_def fail_pushes_def if_not_P [OF False]
    by (intro same_env_trans [OF _ u] same_env_trans [OF _ fold_fail_env]
        same_env_trans [OF _ fail_current_join_env] u)
qed

lemma transition_lost:
  assumes "cause \<noteq> ACCEPTED" "topic_ok c (c_sub c s)"
  obtains f where
    "progress c (transition_channel s cause error c)"
    "c_sub (transition_channel s cause error c) =
      (c_sub c)(s := lost_topic c (c_sub c s) cause f)"
    "f < c_next (transition_channel s cause error c)"
    "c_fut (transition_channel s cause error c) f = Failed (failure_of error)"
    "c_registry (transition_channel s cause error c) = c_registry c"
    "\<And>g. g \<in> snd ` set (t_pending_pushes (c_sub c s)) \<Longrightarrow> c_fut c g = Pending \<Longrightarrow>
      c_fut (transition_channel s cause error c) g = Failed (failure_of error)"
proof -
  define t where "t = c_sub c s"
  define e where "e = failure_of error"
  define st where "st = lost_state c t cause"
  define c2 where "c2 = upd_topic s (\<lambda>t. t\<lparr>t_state := st, t_leave_requested := (st = LEFT \<or> t_leave_requested t)\<rparr>)
    (upd_topic s (\<lambda>t. t\<lparr>t_cause := Some cause\<rparr>) c)"
  define c3 where "c3 = fail_current_join s e c2"
  define c4 where "c4 = fold (\<lambda>f. set_future_exception f e) (dict_values (t_pending_pushes (c_sub c3 s))) c3"
  have eq: "transition_channel s cause error c = upd_topic s (\<lambda>t. t\<lparr>t_pending_pushes := []\<rparr>) c4"
    using assms(1)
    by (simp add: transition_channel_def Let_def fail_pushes_def failure_of_def c4_def c3_def
        c2_def st_def t_def e_def)
  have "t_state t = LEFT \<Longrightarrow> st = LEFT"
    using assms(2) lost_state_left [of t c cause] by (simp add: topic_ok_def st_def t_def)
  moreover have "st \<noteq> CREATED" using lost_state_cases [of c t cause] by (auto simp: st_def)
  ultimately have p2: "topic_progress t (c_sub c2 s)" by (simp add: topic_progress_def c2_def t_def)
  have bound: "\<And>g. t_join_ready (c_sub c2 s) = Some g \<Longrightarrow> g < c_next c2"
    using assms(2) by (simp add: topic_ok_def c2_def)
  have p3: "progress c c3"
  proof -
    define g where "g = (\<lambda>t :: topic. t\<lparr>t_cause := Some cause, t_state := st,
      t_leave_requested := (st = LEFT \<or> t_leave_requested t)\<rparr>)"
    obtain f where f: "progress c (fail_current_join s e c)"
      "c_sub (fail_current_join s e c) = (c_sub c)(s := (c_sub c s)\<lparr>t_join_ready := Some f\<rparr>)"
      "c_fut (fail_current_join s e c) f = Failed e"
      by (rule fail_current_join_upd [of c s e]) (use assms(2) in \<open>auto simp: topic_ok_def\<close>)
    have "c2 = upd_topic s g c" by (simp add: c2_def g_def upd_topic_def)
    then have c3: "c3 = upd_topic s g (fail_current_join s e c)"
      unfolding c3_def by (simp add: fail_current_join_commute g_def)
    show ?thesis
      unfolding c3
      by (rule progress_forget [OF f(1)])
        (use f(2,3) p2 in \<open>simp_all add: g_def c2_def t_def topic_progress_def awaits_join_def\<close>)
  qed
  obtain f where f: "c_sub c3 = (c_sub c2)(s := (c_sub c2 s)\<lparr>t_join_ready := Some f\<rparr>)"
    "c_fut c3 f = Failed e" "f < c_next c3" "c_registry c3 = c_registry c2"
    "\<And>g. c_fut c2 g = Pending \<Longrightarrow> c_fut c3 g \<in> {Pending, Failed e}"
    unfolding c3_def by (rule fail_current_join_upd [OF bound]) auto
  have p4: "progress c3 c4" unfolding c4_def by (rule fold_fail_progress)
  have p5: "progress c4 (upd_topic s (\<lambda>t. t\<lparr>t_pending_pushes := []\<rparr>) c4)"
  proof (rule progress_forget)
    fix r g
    assume g: "pending_push c4 s r = Some g" "c_fut c4 g = Pending"
    then have "g \<in> snd ` set (t_pending_pushes (c_sub c3 s))"
      using map_of_SomeD [of "t_pending_pushes (c_sub c3 s)" r g] by (force simp: c4_def)
    then show "dict_get (t_pending_pushes ((c_sub c4 s)\<lparr>t_pending_pushes := []\<rparr>)) r = Some g"
      using g(2) by (auto simp: c4_def fold_fail_fut split: if_splits)
  qed (simp_all add: topic_progress_def awaits_join_def)
  have sub4: "c_sub c4 = c_sub c3" "c_registry c4 = c_registry c3" "c_next c4 = c_next c3"
    unfolding c4_def by simp_all
  have pushes: "t_pending_pushes (c_sub c3 s) = t_pending_pushes t"
    unfolding f(1) by (simp add: c2_def t_def)
  show thesis
  proof (rule that [of f]; unfold eq)
    show "progress c (upd_topic s (\<lambda>t. t\<lparr>t_pending_pushes := []\<rparr>) c4)"
      by (rule progress_trans [OF p3 progress_trans [OF p4 p5]])
    show "c_sub (upd_topic s (\<lambda>t. t\<lparr>t_pending_pushes := []\<rparr>) c4) = (c_sub c)(s := lost_topic c (c_sub c s) cause f)"
      unfolding upd_topic_sel sub4 f(1) by (simp add: lost_topic_def fun_eq_iff c2_def st_def t_def)
    show "f < c_next (upd_topic s (\<lambda>t. t\<lparr>t_pending_pushes := []\<rparr>) c4)"
      using f(3) by (simp add: sub4)
    show "c_fut (upd_topic s (\<lambda>t. t\<lparr>t_pending_pushes := []\<rparr>) c4) f = Failed (failure_of error)"
      using f(2) by (simp add: c4_def fold_fail_fut e_def)
    show "c_registry (upd_topic s (\<lambda>t. t\<lparr>t_pending_pushes := []\<rparr>) c4) = c_registry c"
      using f(4) by (simp add: sub4 c2_def)
    fix g
    assume g: "g \<in> snd ` set (t_pending_pushes (c_sub c s))" "c_fut c g = Pending"
    then have "c_fut c3 g \<in> {Pending, Failed e}" using f(5) [of g] by (simp add: c2_def)
    moreover have "g \<in> set (dict_values (t_pending_pushes (c_sub c3 s)))"
      using g(1) unfolding pushes by (simp add: t_def)
    ultimately show "c_fut (upd_topic s (\<lambda>t. t\<lparr>t_pending_pushes := []\<rparr>) c4) g = Failed (failure_of error)"
      by (auto simp: c4_def fold_fail_fut e_def)
  qed
qed

section \<open>Sound operations\<close>

text \<open>From a state that satisfies the invariant the operation progresses and keeps it.\<close>

definition sound :: "client \<Rightarrow> client \<Rightarrow> bool" where
  "sound c c' \<longleftrightarrow> (inv c \<longrightarrow> progress c c' \<and> inv c')"

lemma soundI: "(inv c \<Longrightarrow> progress c c') \<Longrightarrow> (inv c \<Longrightarrow> inv c') \<Longrightarrow> sound c c'"
  by (simp add: sound_def)

lemma soundD: "sound c c' \<Longrightarrow> inv c \<Longrightarrow> progress c c'" "sound c c' \<Longrightarrow> inv c \<Longrightarrow> inv c'"
  by (simp_all add: sound_def)

lemma sound_refl [simp, intro]: "sound c c"
  by (simp add: sound_def)

lemma sound_trans [trans]: "sound a b \<Longrightarrow> sound b c \<Longrightarrow> sound a c"
  using progress_trans unfolding sound_def by blast

lemma sound_fold: "(\<And>x c. sound c (h x c)) \<Longrightarrow> sound c (fold h xs c)"
  by (induction xs arbitrary: c) (auto intro: sound_trans)

lemma sound_frame:
  "progress c c' \<Longrightarrow> c_sub c' = c_sub c \<Longrightarrow> c_registry c' = c_registry c \<Longrightarrow> sound c c'"
  by (auto simp: sound_def intro: inv_frame)

lemma sound_same_channels: "same_channels c c' \<Longrightarrow> sound c c'"
  by (intro sound_frame same_channels_progress) (simp_all add: same_channels_def)

lemma sound_futures [simp, intro]:
  "sound c (set_future_exception f e c)" "c_fut c f = Pending \<Longrightarrow> sound c (set_future_result f r c)"
  "sound c (cancel_future f c)" "sound c (snd (new_future c))" "sound c (snd (new_task w c))"
  "sound c (request_cancel k c)" "sound c (snd (generate_ref c))" "sound c (upd_session ss h c)"
  by (auto intro!: sound_frame simp: progress_def)

text \<open>Updates of the fields the invariant does not mention.\<close>

definition same_core :: "topic \<Rightarrow> topic \<Rightarrow> bool" where
  "same_core t t' \<longleftrightarrow>
     t_name t' = t_name t \<and> t_join_ref t' = t_join_ref t \<and> t_join_ready t' = t_join_ready t \<and>
     t_state t' = t_state t \<and> t_leave_requested t' = t_leave_requested t \<and>
     t_established t' = t_established t \<and> t_leave_ref t' = t_leave_ref t \<and>
     t_pending_pushes t' = t_pending_pushes t"

lemma topic_ok_core: "same_core t t' \<Longrightarrow> topic_ok c t \<Longrightarrow> topic_ok c t'"
proof -
  assume c: "same_core t t'"
  then have "refs_of t' = refs_of t" by (simp add: same_core_def refs_of_def)
  then have "refs_ok n t' = refs_ok n t" for n by (simp add: refs_ok_def)
  then show "topic_ok c t \<Longrightarrow> topic_ok c t'" using c by (simp add: topic_ok_def same_core_def)
qed

lemma join_future_upd [simp]:
  "t_join_ready (g (c_sub c s)) = t_join_ready (c_sub c s) \<Longrightarrow>
   join_future (upd_topic s g c) x = join_future c x"
  by (simp add: join_future_def split: option.split)

lemma sound_core:
  assumes "\<And>t. same_core t (g t)" "topic_progress (c_sub c s) (g (c_sub c s))"
  shows "sound c (upd_topic s g c)"
proof (rule soundI)
  show "progress c (upd_topic s g c)"
    using assms(2) by (rule progress_upd) (use assms(1) [of "c_sub c s"] in \<open>simp add: same_core_def waits_defs\<close>)
  assume i: "inv c"
  show "inv (upd_topic s g c)"
  proof (rule inv_upd [OF i])
    show "topic_ok c (g (c_sub c s))" using topic_ok_core [OF assms(1)] inv_topic [OF i] .
  qed (use assms(1) [of "c_sub c s"] in \<open>simp_all add: same_core_def\<close>)
qed

lemma sound_benign [simp, intro]:
  "sound c (upd_topic s (\<lambda>t. t\<lparr>t_terminal_received := True\<rparr>) c)"
  "sound c (upd_topic s (\<lambda>t. t\<lparr>t_recovery_task := k\<rparr>) c)"
  "sound c (upd_topic s (\<lambda>t. t\<lparr>t_process_task := k\<rparr>) c)"
  "sound c (upd_topic s (\<lambda>t. t\<lparr>t_callback_task := k\<rparr>) c)"
  "sound c (upd_topic s (\<lambda>t. t\<lparr>t_restart_requested := b\<rparr>) c)"
  "sound c (upd_topic s (\<lambda>t. t\<lparr>t_cleanup_done := b\<rparr>) c)"
  "sound c (upd_topic s (\<lambda>t. t\<lparr>t_loss_reported := True\<rparr>) c)"
  "sound c (upd_topic s (\<lambda>t. t\<lparr>t_queue := q\<rparr>) c)"
  "sound c (upd_topic s (enqueue_message limit m) c)"
  "sound c (upd_topic s (\<lambda>t. t\<lparr>t_send_session := ss, t_send_outcomes := os\<rparr>) c)"
  by (auto intro!: sound_core simp: same_core_def topic_progress_def enqueue_message_def Let_def)

lemma sound_unsubscribed:
  "t_unsubscribed (c_sub c s) = None \<Longrightarrow> sound c (upd_topic s (\<lambda>t. t\<lparr>t_unsubscribed := u\<rparr>) c)"
  by (auto intro!: sound_core simp: same_core_def topic_progress_def)

lemma sound_leave_task:
  "t_state (c_sub c s) = LEFT \<Longrightarrow> t_leave_task (c_sub c s) = None \<Longrightarrow>
     sound c (upd_topic s (\<lambda>t. t\<lparr>t_leave_task := k\<rparr>) c)"
  by (auto intro!: sound_core simp: same_core_def topic_progress_def)

lemma refs_ok_pending:
  assumes "refs_ok n t" "t_join_ref t' = t_join_ref t" "t_leave_ref t' = t_leave_ref t"
    "set (map fst (t_pending_pushes t')) \<subseteq> set (map fst (t_pending_pushes t))"
    "distinct (map fst (t_pending_pushes t'))"
  shows "refs_ok n t'"
proof -
  obtain h where h: "refs_of t = h @ map fst (t_pending_pushes t)"
    "refs_of t' = h @ map fst (t_pending_pushes t')"
    using assms(2,3) unfolding refs_of_def by (metis append_assoc)
  have "set h \<inter> set (map fst (t_pending_pushes t')) = {}"
    using assms(1,4) unfolding refs_ok_def h(1) distinct_append by blast
  then show ?thesis
    using assms(1,4,5) unfolding refs_ok_def h distinct_append set_append by blast
qed

lemma refs_ok_same:
  "t_join_ref t' = t_join_ref t \<Longrightarrow> t_leave_ref t' = t_leave_ref t \<Longrightarrow>
   t_pending_pushes t' = t_pending_pushes t \<Longrightarrow> refs_ok n t' = refs_ok n t"
  by (simp add: refs_ok_def refs_of_def)

lemma topic_ok_lost:
  assumes "topic_ok c t" "f < c_next c"
  shows "topic_ok c (lost_topic d t cause f)"
proof -
  define st where "st = lost_state d t cause"
  have r: "refs_ok (c_ref_counter c) (lost_topic d t cause f)"
    by (rule refs_ok_pending [of _ t]) (use assms(1) in \<open>simp_all add: topic_ok_def lost_topic_def\<close>)
  have l: "st \<noteq> LEFT \<Longrightarrow> \<not> t_leave_requested t"
    using lost_state_left [of t d cause] by (auto simp: st_def)
  have "st = LEFT \<or> st = REJOINING \<and> t_established t"
    unfolding st_def by (rule lost_state_cases)
  then show ?thesis
    unfolding topic_ok_def using r l assms(2)
    by (elim disjE) (simp_all add: lost_topic_def st_def [symmetric] l)
qed

lemma sound_transition_lost:
  assumes "cause \<noteq> ACCEPTED"
  shows "sound c (transition_channel s cause error c)"
proof -
  have "progress c (transition_channel s cause error c) \<and> inv (transition_channel s cause error c)"
    if i: "inv c"
  proof -
    let ?c = "transition_channel s cause error c"
    note t = inv_topic [OF i, of s]
    obtain f where f: "progress c ?c" "c_sub ?c = (c_sub c)(s := lost_topic c (c_sub c s) cause f)"
      "f < c_next ?c" "c_registry ?c = c_registry c"
      using transition_lost [OF assms t, of error] by metis
    have "topic_ok ?c (c_sub ?c s)"
      using topic_ok_lost [OF topic_ok_progress [OF f(1) t] f(3)] f(2) by simp
    moreover have "topic_progress (c_sub c s) (c_sub ?c s)"
      using t lost_state_left [of "c_sub c s" c cause] lost_state_cases [of c "c_sub c s" cause] f(2)
      by (auto simp: topic_progress_def lost_topic_def topic_ok_def)
    ultimately have "inv ?c" using f(2,4) by (intro inv_one [OF i f(1), of s]) simp_all
    with f(1) show ?thesis ..
  qed
  then show ?thesis by (simp add: sound_def)
qed

lemma accept_channel_upd:
  assumes "\<not> (t_state (c_sub c s) = LEFT \<or> t_leave_requested (c_sub c s))"
    "\<And>g. t_join_ready (c_sub c s) = Some g \<Longrightarrow> g < c_next c" "join_future c s = Pending"
  obtains f where "progress c (accept_channel s c)"
    "c_sub (accept_channel s c) =
       (c_sub c)(s := (c_sub c s)\<lparr>t_state := JOINED, t_established := True, t_join_ready := Some f\<rparr>)"
    "c_fut (accept_channel s c) f = Result None" "f < c_next (accept_channel s c)"
    "c_registry (accept_channel s c) = c_registry c"
proof -
  define g where "g = (\<lambda>t :: topic. t\<lparr>t_state := JOINED, t_established := True\<rparr>)"
  obtain f c2 where c2: "current_join_ready s c = (f, c2)" by force
  note u = join_ready_upd [OF c2]
  have f: "c_fut c2 f = Pending" "f < c_next c2" using u(3) assms(3) u(5) [OF assms(2)] by simp_all
  have e: "accept_channel s c = upd_topic s g (set_future_result f None c2)"
    using assms(1) current_join_ready_upd [of g s c] c2 f(1)
    by (simp add: accept_channel_def g_def Let_def set_future_result_def put_outcome_def upd_topic_def
        fut_done_def)
  have "progress c (set_future_result f None c2)"
    using u(1) progress_set_result [of c2 f] f(1) progress_trans by blast
  then have "progress c (accept_channel s c)"
    unfolding e
    by (rule progress_forget)
      (use assms(1) f(1) in \<open>auto simp: g_def u(2) topic_progress_def awaits_join_def fut_done_def\<close>)
  moreover have "c_sub (accept_channel s c) =
      (c_sub c)(s := (c_sub c s)\<lparr>t_state := JOINED, t_established := True, t_join_ready := Some f\<rparr>)"
    unfolding e by (simp add: g_def u(2) fun_eq_iff)
  ultimately show thesis
    using that [of f] u(4) f unfolding e by (simp add: fut_done_def)
qed

lemma sound_accept:
  assumes "join_future c s = Pending"
  shows "sound c (set_subscription_ready s c)"
proof -
  define c1 where "c1 = upd_topic s (\<lambda>t. t\<lparr>t_cause := Some ACCEPTED\<rparr>) c"
  have e: "set_subscription_ready s c = accept_channel s c1"
    by (simp add: set_subscription_ready_def transition_channel_def c1_def)
  have s1: "sound c c1"
    unfolding c1_def by (rule sound_core) (simp_all add: same_core_def topic_progress_def)
  have "progress c1 (accept_channel s c1) \<and> inv (accept_channel s c1)" if i: "inv c1"
  proof (cases "t_state (c_sub c1 s) = LEFT \<or> t_leave_requested (c_sub c1 s)")
    case True
    then have "accept_channel s c1 = c1" by (simp add: accept_channel_def)
    with i show ?thesis by simp
  next
    case False
    let ?c = "accept_channel s c1"
    note t = inv_topic [OF i, of s]
    have "join_future c1 s = Pending" using assms by (simp add: c1_def)
    with t obtain f where f: "progress c1 ?c" "c_sub ?c = (c_sub c1)(s := (c_sub c1 s)
        \<lparr>t_state := JOINED, t_established := True, t_join_ready := Some f\<rparr>)"
      "c_fut ?c f = Result None" "f < c_next ?c" "c_registry ?c = c_registry c1"
      using accept_channel_upd [OF False] by (auto simp: topic_ok_def)
    have "refs_ok (c_ref_counter ?c) (c_sub ?c s)"
      by (rule refs_ok_same [where t = "c_sub c1 s", THEN iffD2])
        (use topic_ok_progress [OF f(1) t] f(2) in \<open>simp_all add: topic_ok_def\<close>)
    then have "topic_ok ?c (c_sub ?c s)" using f False by (simp add: topic_ok_def)
    moreover have "topic_progress (c_sub c1 s) (c_sub ?c s)"
      using f(2) False by (simp add: topic_progress_def)
    ultimately have "inv ?c" using f(2,5) by (intro inv_one [OF i f(1), of s]) simp_all
    with f(1) show ?thesis ..
  qed
  then have "sound c1 (accept_channel s c1)" by (simp add: sound_def)
  with s1 show ?thesis unfolding e by (rule sound_trans)
qed

end
