(* ===== verification/Channel_Sound.thy ===== *)
theory Channel_Sound
  imports Channel_Invariants
begin

text \<open>
  Every operation of the channel runtime is sound: it progresses and keeps the invariant.
\<close>

named_theorems sound_ops

declare sound_futures [sound_ops] sound_benign [sound_ops]

section \<open>Releases and tasks\<close>

lemma registry_ok_pop: "registry_ok c \<Longrightarrow> registry_ok (c\<lparr>c_registry := dict_pop n (c_registry c)\<rparr>)"
  by (auto simp: registry_ok_def dict_pop_distinct dict_get_pop simp del: map_of_eq_Some_iff
      split: if_splits)

lemma topic_ok_registry [simp]: "topic_ok (c\<lparr>c_registry := r\<rparr>) = topic_ok c"
  by (simp add: fun_eq_iff topic_ok_def)

lemma sound_release [sound_ops]: "sound c (release_reservation s c)"
proof -
  have "sound c (c\<lparr>c_registry := dict_pop (t_name (c_sub c s)) (c_registry c)\<rparr>)" (is "sound c ?c")
    if r: "is_registered c s" and l: "released (c_sub c s)"
  proof (rule soundI)
    show "progress c ?c"
      using r l by (auto simp: progress_def is_registered_def dict_get_pop simp del: map_of_eq_Some_iff)
    assume "inv c"
    then show "inv ?c" using registry_ok_pop by (simp add: inv_def)
  qed
  then show ?thesis by (auto simp: release_reservation_def Let_def released_def)
qed

lemma sound_log [simp, intro, sound_ops]:
  "sound c (c\<lparr>c_lifecycle_tasks := ks\<rparr>)" "sound c (c\<lparr>c_cleanup_tasks := ks\<rparr>)"
  "sound c (c\<lparr>c_sent := l\<rparr>)" "sound c (c\<lparr>c_lost := m\<rparr>)" "sound c (c\<lparr>c_state := st\<rparr>)"
  by (auto intro!: sound_same_channels simp: same_channels_def)

lemma sound_track [sound_ops]: "sound c (snd (track_lifecycle_task w c))"
  unfolding track_lifecycle_task_def case_prod_beta Let_def snd_conv
  by (rule sound_trans [OF sound_futures(5) sound_log(1)])

lemma transition_leaves:
  assumes "inv c" "cause = LEAVE \<or> cause = CLOSE"
  shows "t_state (c_sub (transition_channel s cause e c) s) = LEFT"
proof -
  have "cause \<noteq> ACCEPTED" using assms(2) by auto
  then obtain f where "c_sub (transition_channel s cause e c) = (c_sub c)(s := lost_topic c (c_sub c s) cause f)"
    using transition_lost [OF _ inv_topic [OF assms(1)]] by metis
  then show ?thesis using assms(2) by (auto simp: lost_topic_def lost_state_def recoverable_def)
qed

lemma transition_keeps_leave_task:
  assumes "inv c" "cause \<noteq> ACCEPTED"
  shows "t_leave_task (c_sub (transition_channel s cause e c) s) = t_leave_task (c_sub c s)"
proof -
  obtain f where "c_sub (transition_channel s cause e c) = (c_sub c)(s := lost_topic c (c_sub c s) cause f)"
    using transition_lost [OF assms(2) inv_topic [OF assms(1)]] by metis
  then show ?thesis by (simp add: lost_topic_def)
qed

lemma sound_start_leave [sound_ops]: "sound c (snd (start_leave_task s k c))"
proof (cases "t_leave_task (c_sub c s)")
  case None
  define c1 where "c1 = (if t_state (c_sub c s) \<noteq> LEFT
    then transition_channel s LEAVE (Some (ChannelError (lit ''Channel was left''))) c else c)"
  define c2 where "c2 = snd (new_task (Leave_And_Cleanup s k) c1)"
  have "sound c (snd (start_leave_task s k c))" if i: "inv c"
  proof -
    have "sound c c1" unfolding c1_def using sound_transition_lost by auto
    also have "sound c1 c2" unfolding c2_def by (rule sound_futures)
    also have "t_state (c_sub c2 s) = LEFT" "t_leave_task (c_sub c2 s) = None"
      using transition_leaves [OF i, of LEAVE] None transition_keeps_leave_task [OF i, of LEAVE]
      by (simp_all add: c1_def c2_def)
    then have "sound c2 (snd (start_leave_task s k c))"
      using None
      by (simp add: start_leave_task_def c1_def [symmetric] c2_def [symmetric] Let_def case_prod_beta)
        (rule sound_trans [OF sound_leave_task sound_log(2)])
    finally show ?thesis .
  qed
  then show ?thesis by (simp add: sound_def)
qed (simp add: start_leave_task_def)

lemma sound_recovery [sound_ops]: "sound c (start_channel_recovery s g c)"
  unfolding start_channel_recovery_def Let_def case_prod_beta
  using sound_trans [OF sound_track sound_benign(2)] by (auto split: if_splits)

lemma sound_lost [sound_ops]:
  "sound c (transition_channel s CRASH e c)" "sound c (transition_channel s CLOSE e c)"
  "sound c (transition_channel s REJECTED e c)" "sound c (transition_channel s CONFIGURATION e c)"
  "sound c (transition_channel s TRANSPORT e c)" "sound c (transition_channel s TIMEOUT e c)"
  "sound c (transition_channel s LEAVE e c)" "sound c (transition_channel s STOP e c)"
  by (simp_all add: sound_transition_lost)

lemma sound_topic_loss [sound_ops]: "sound c (start_topic_loss me s e c)"
proof -
  define c1 where "c1 = (if t_state (c_sub c s) = LEFT then c else transition_channel s CLOSE
    (Some (if t_state (c_sub c s) \<noteq> LEFT \<and> \<not> is_channel_error e
       then ChannelError (lit ''Channel processor failed'') else e)) c)"
  have "sound c c1" unfolding c1_def using sound_lost by auto
  moreover have "sound c1 (start_topic_loss me s e c)"
    unfolding start_topic_loss_def Let_def c1_def [symmetric] using sound_start_leave sound_track by auto
  ultimately show ?thesis by (rule sound_trans)
qed

section \<open>All channels at once\<close>

lemma sound_unsubscribe_completed: "unsubscribe_completed s c = (f, c1) \<Longrightarrow> sound c c1"
  unfolding unsubscribe_completed_def case_prod_beta Let_def
  using sound_trans [OF sound_futures(4) sound_unsubscribed] by (auto split: option.splits)

lemma sound_fail_unsubscribe [sound_ops]: "sound c (fail_unsubscribe s e c)"
  using sound_trans [OF sound_unsubscribe_completed sound_futures(1)]
  by (auto simp: fail_unsubscribe_def split: prod.split)

lemma sound_fail_pending_join: "sound c (fail_pending_join me e s c)"
proof -
  define c1 where "c1 = transition_channel s TRANSPORT (Some e) c"
  define c2 where "c2 = (if t_leave_requested (c_sub c1 s) then fail_unsubscribe s e c1 else c1)"
  have "sound c c1" unfolding c1_def by (rule sound_lost)
  moreover have "sound c1 c2" unfolding c2_def using sound_fail_unsubscribe by auto
  moreover have "sound c2 (snd (start_leave_task s me c2))" by (rule sound_start_leave)
  ultimately have "sound c c2" "sound c (snd (start_leave_task s me c2))"
    using sound_trans by blast+
  then show ?thesis
    unfolding fail_pending_join_def Let_def c1_def [symmetric] c2_def [symmetric]
    using sound_fail_unsubscribe by auto
qed

lemma sound_fail_pending_joins [sound_ops]: "sound c (fail_pending_joins me e c)"
  unfolding fail_pending_joins_def by (rule sound_fold) (rule sound_fail_pending_join)

lemma sound_retire_channel: "sound c (retire_channel me e s c)"
proof -
  define c1 where "c1 = transition_channel s STOP (Some e) c"
  define c2 where "c2 = upd_topic s (\<lambda>t. t\<lparr>t_terminal_received := True\<rparr>) c1"
  have "sound c c1" unfolding c1_def by (rule sound_lost)
  moreover have "sound c1 (release_reservation s (snd (start_leave_task s me c2)))"
    unfolding c2_def using sound_trans sound_benign(1) sound_start_leave sound_release by metis
  ultimately show ?thesis
    unfolding retire_channel_def Let_def c1_def [symmetric] c2_def [symmetric]
    using sound_trans by auto
qed

lemma sound_retire_channels [sound_ops]: "sound c (retire_channels me e c)"
  unfolding retire_channels_def by (rule sound_fold) (rule sound_retire_channel)

section \<open>Control messages\<close>

lemma sound_lifecycle [sound_ops]: "sound c (handle_channel_lifecycle me s m c)"
proof -
  define c1 where "c1 = upd_topic s (\<lambda>t. t\<lparr>t_terminal_received := True\<rparr>) c"
  have s1: "sound c c1" unfolding c1_def by (rule sound_benign)
  have r: "sound c1 (release_reservation s c1)" by (rule sound_release)
  have t: "sound c (transition_channel s CRASH x c1)" "sound c (transition_channel s CLOSE x c1)" for x
    using sound_trans [OF s1 sound_lost(1)] sound_trans [OF s1 sound_lost(2)] .
  have l: "sound c (start_channel_recovery s None (transition_channel s CRASH x c1))"
    "sound c (start_topic_loss me s e (transition_channel s CLOSE x c1))" for x e
    using sound_trans [OF t(1) sound_recovery] sound_trans [OF t(2) sound_topic_loss] .
  show ?thesis
    unfolding handle_channel_lifecycle_def Let_def c1_def [symmetric]
    using s1 sound_trans [OF s1 r] t l by (auto split: sum.split)
qed

lemma sound_late_join [sound_ops]: "sound c (late_join_response s m c)"
  unfolding late_join_response_def using sound_trans [OF sound_benign(1) sound_release] by auto

lemma sound_join_accepted:
  "join_future c s = Pending \<Longrightarrow> sound c (join_accepted s p c)"
  unfolding join_accepted_def using sound_accept sound_lost by (auto split: sum.split)

lemma sound_join_rejected [sound_ops]: "sound c (join_rejected s p c)"
  unfolding join_rejected_def by (rule sound_trans [OF sound_benign(1) sound_lost(3)])

lemma sound_join_response [sound_ops]: "sound c (handle_join_response_mode me s m c)"
  unfolding handle_join_response_mode_def
  using sound_lifecycle sound_late_join sound_lost sound_join_accepted sound_join_rejected
  by (auto simp: fut_done_def split: payload.split)

lemma sound_set_unsubscribed [sound_ops]: "sound c (set_unsubscribe_completed s c)"
  using sound_trans [OF sound_unsubscribe_completed sound_futures(2)] sound_unsubscribe_completed
  by (auto simp: set_unsubscribe_completed_def fut_done_def split: prod.split)

lemma sound_leave_response [sound_ops]: "sound c (handle_leave_response s m c)"
  unfolding handle_leave_response_def using sound_set_unsubscribed sound_fail_unsubscribe by auto

lemma sound_settle_push: "c_fut c f = Pending \<Longrightarrow> sound c (settle_push f r c)"
  by (auto simp: settle_push_def split: sum.split)

lemma inv_pop_push:
  assumes i: "inv c"
  shows "inv (upd_topic s (\<lambda>t. t\<lparr>t_pending_pushes := dict_pop r (t_pending_pushes t)\<rparr>) c)"
    (is "inv (upd_topic s ?g c)")
proof -
  have t: "topic_ok c (c_sub c s)" using i by (rule inv_topic)
  have r: "refs_ok (c_ref_counter c) (c_sub c s)" using t by (simp add: topic_ok_def)
  then have "distinct (map fst (t_pending_pushes (c_sub c s)))" by (simp add: refs_ok_def refs_of_def)
  then have "refs_ok (c_ref_counter c) (?g (c_sub c s))"
    by (intro refs_ok_pending [OF r]) (auto simp: delete_keys distinct_removeAll simp del: set_map)
  with t have "topic_ok c (?g (c_sub c s))" by (auto simp: topic_ok_def)
  then show "inv (upd_topic s ?g c)" by (intro inv_upd [OF i]) simp_all
qed

lemma sound_pop_push:
  assumes "sound a c" "pending_push c s r = Some f" "f < c_next a \<longrightarrow> c_fut c f \<noteq> Pending"
  shows "sound a (upd_topic s (\<lambda>t. t\<lparr>t_pending_pushes := dict_pop r (t_pending_pushes t)\<rparr>) c)"
    (is "sound a (upd_topic s ?g c)")
proof (rule soundI)
  assume i: "inv a"
  show "progress a (upd_topic s ?g c)"
    by (rule progress_forget [OF soundD(1) [OF assms(1) i]])
      (use assms(2,3) in \<open>auto simp: topic_progress_def awaits_join_def dict_get_pop simp del: map_of_eq_Some_iff\<close>)
  show "inv (upd_topic s ?g c)" by (rule inv_pop_push [OF soundD(2) [OF assms(1) i]])
qed

lemma settle_push_upd:
  "settle_push f r (upd_topic s g c) = upd_topic s g (settle_push f r c)"
  by (simp add: settle_push_def set_future_result_def set_future_exception_def put_outcome_def
      upd_topic_def fut_done_def split: sum.split)

lemma settle_push_sel [simp]:
  "c_sub (settle_push f r c) = c_sub c" "c_fut (settle_push f r c) f \<noteq> Pending"
  by (simp_all add: settle_push_def fut_done_def split: sum.split)

lemma sound_push_reply [sound_ops]: "sound c (snd (resolve_push_reply s m b c))"
proof -
  let ?pop = "\<lambda>r. upd_topic s (\<lambda>t. t\<lparr>t_pending_pushes := dict_pop r (t_pending_pushes t)\<rparr>)"
  have "sound c (?pop r c)" if "pending_push c s r = Some f" "c_fut c f \<noteq> Pending" for r f c
    by (rule sound_pop_push [OF _ that(1)]) (use that(2) in auto)
  moreover have "sound c (settle_push f x (?pop r c))"
    if "pending_push c s r = Some f" "c_fut c f = Pending" for r f x
    unfolding settle_push_upd
    by (rule sound_pop_push [OF sound_settle_push, of _ _ _ s r f]) (use that in simp_all)
  ultimately show ?thesis
    by (auto simp: resolve_push_reply_def Let_def fut_done_def split: option.split)
qed

lemma sound_control [sound_ops]: "sound c (snd (handle_channel_control me s m b c))"
  unfolding handle_channel_control_def Let_def
  using sound_lifecycle sound_leave_response sound_join_response sound_push_reply [of c s m b]
  by (auto split: prod.split)

interpretation sound_routing: frame_callbacks "\<lambda>_ c. c" "handle_channel_control me" sound for me
  by unfold_locales (auto intro: sound_trans sound_control sound_benign(9))

lemma sound_route [sound_ops]: "sound c (snd (route_message (\<lambda>_ c. c) (handle_channel_control me) g d c))"
  by (rule sound_routing.route_keeps)

lemma sound_process [sound_ops]:
  "process_topic_message s c = Some (p, c') \<Longrightarrow> sound c c'"
proof -
  have "sound c (snd (handle_normal_message_mode s m c))" for m c
    unfolding handle_normal_message_mode_def case_prod_beta Let_def
    using sound_trans [OF sound_futures(5) sound_benign(4)] by (auto split: prod.split option.split)
  then have "sound c c1 \<Longrightarrow> sound c (snd (handle_normal_message_mode s m c1))" for c1 m
    using sound_trans by blast
  then show "process_topic_message s c = Some (p, c') \<Longrightarrow> sound c c'"
    by (auto simp: process_topic_message_def Let_def split: list.splits if_splits)
      (metis sound_benign(8) snd_conv)
qed

section \<open>Sends\<close>

lemma sound_session_for: "session_for conn c = (ss, c1) \<Longrightarrow> sound c c1"
  by (auto simp: session_for_def same_channels_def split: option.splits if_splits
      intro!: sound_same_channels)

lemma sound_fail_session [sound_ops]: "sound c (fail_send_session me ss e c)"
proof -
  define c1 where "c1 = fail_pending_joins me e c"
  define c2 where "c2 = (if c_state c1 = CONNECTED then c1\<lparr>c_state := RECONNECTING\<rparr> else c1)"
  have "sound c c1" unfolding c1_def by (rule sound_fail_pending_joins)
  moreover have "sound c1 c2" unfolding c2_def by (simp add: sound_log)
  moreover have "sound c2 (snd (track_lifecycle_task (Close_Send_Session ss) c2))" by (rule sound_track)
  ultimately have "sound c (snd (track_lifecycle_task (Close_Send_Session ss) c2))"
    using sound_trans by blast
  then show ?thesis
    unfolding fail_send_session_def Let_def c1_def [symmetric] c2_def [symmetric] by simp
qed

lemma sound_notify [sound_ops]: "sound c (notify_failure (fail_send_session me ss') ss e c)"
  unfolding notify_failure_def using sound_trans [OF sound_futures(8) sound_fail_session] by auto

lemma sound_operations [simp, intro, sound_ops]:
  "sound c (discard ss f c)" "sound c (set_operation ss f op c)" "sound c (finish_end ss c)"
  by (simp_all add: discard_def set_operation_def finish_end_def sound_futures(8))

lemma sound_send_begin: "send_begin ss f q t e c = Inr c' \<Longrightarrow> sound c c'"
  unfolding send_begin_def case_prod_beta Let_def
  using sound_trans [OF sound_futures(5) sound_operations(2)] by (auto split: if_splits)

lemma sound_send_cancelled [sound_ops]: "sound c (send_cancelled ss f c)"
  unfolding send_cancelled_def Let_def
  using sound_trans [OF sound_futures(3) sound_futures(6)] by (auto split: option.split)

lemma sound_send_end [sound_ops]: "sound c (send_end (fail_send_session me ss) ss f r c)"
  unfolding send_end_def Let_def
  using sound_trans [OF sound_futures(1) sound_notify] by (auto split: option.split)

lemma sound_send_callbacks [sound_ops]:
  "sound c (send_done ss f c)" "sound c (outcome_done ss f c)"
  by (auto simp: send_done_def outcome_done_def split: option.split)

lemma sound_expire [sound_ops]: "sound c (expire (fail_send_session me ss) ss f c)"
  unfolding expire_def Let_def
  using sound_trans [OF sound_futures(1) sound_notify] sound_trans [OF sound_futures(1) sound_operations(1)]
    sound_trans [OF sound_futures(1) sound_futures(6)] by (auto split: option.split)

lemma sound_finish_begin [sound_ops]: "sound c (finish_begin ss c)"
  unfolding finish_begin_def Let_def
  by (rule sound_trans [OF sound_futures(8) sound_fold]) auto

lemma sound_submit:
  assumes "eligible q c"
  shows "sound c (submit_frame q c)"
proof -
  define c1 where "c1 = (if q_joining q then upd_topic (q_topic q) (\<lambda>t. t\<lparr>t_join_submitted := True\<rparr>) c else c)"
  have "sound c c1"
  proof (cases "q_joining q")
    case True
    with assms joining_not_leaving have "t_state (c_sub c (q_topic q)) \<noteq> LEFT"
      by (auto simp: eligible_def)
    then show ?thesis
      unfolding c1_def by (auto intro!: sound_core simp: same_core_def topic_progress_def)
  qed (simp add: c1_def)
  then show ?thesis
    unfolding submit_frame_def Let_def c1_def [symmetric] using sound_trans [OF _ sound_log(3)] by blast
qed

lemma sound_run_send [sound_ops]: "sound c (snd (run_send ss f q c))"
proof -
  have "sound c (submit_frame q (set_operation ss f op c))" if "eligible q c" for op
  proof -
    have "eligible q (set_operation ss f op c)"
      using that
      by (auto simp: eligible_def set_operation_def is_registered_def channel_joined_def
          is_on_current_connection_def is_connected_def is_current_join_ready_def join_future_def
          cong: fut.case_cong option.case_cong)
    then show ?thesis using sound_trans [OF sound_operations(2) sound_submit] by blast
  qed
  then show ?thesis
    unfolding run_send_def send_start_def using sound_submit by (auto split: option.split)
qed

text \<open>The frame, then the session: admitting an operation touches no topic but the books of \<open>s\<close>.\<close>

lemma sound_send_operation [sound_ops]: "sound c (snd (send_channel_operation s m f t e c))"
proof (cases "t_connection (c_sub c s)")
  case (Some conn)
  obtain ss c1 where c1: "session_for conn c = (ss, c1)" by force
  define c2 where "c2 = upd_topic s (\<lambda>t. t\<lparr>t_send_session := Some ss,
    t_send_outcomes := List.insert f (filter (has_pending c1 ss) (t_send_outcomes (c_sub c1 s)))\<rparr>) c1"
  have s2: "sound c c2"
    unfolding c2_def by (rule sound_trans [OF sound_session_for [OF c1] sound_benign(10)])
  have s3: "sound c c3" if "send_begin ss f q t e c2 = Inr c3" for q c3
    using sound_trans [OF s2 sound_send_begin [OF that]] .
  show ?thesis
    unfolding send_channel_operation_def Some option.case Let_def c1 prod.case c2_def [symmetric]
    using s2 s3 by (auto split: sum.split)
qed (simp add: send_channel_operation_def)

section \<open>Pushes\<close>

lemma push_end_sound:
  "sound a c \<Longrightarrow> f < c_next a \<longrightarrow> c_fut c f \<noteq> Pending \<Longrightarrow> sound a (push_end s r f c)"
  unfolding push_end_def using sound_pop_push by auto

text \<open>The new push of a joined topic, under a fresh reference.\<close>

definition with_push :: "pystr \<Rightarrow> fid \<Rightarrow> topic \<Rightarrow> topic" where
  "with_push r f t = t\<lparr>t_pending_pushes := dict_set r f (t_pending_pushes t)\<rparr>"

lemma dict_set_fresh: "r \<notin> set (map fst d) \<Longrightarrow> dict_set r f d = d @ [(r, f)]"
  by (rule dict_set_new) simp

lemma refs_ok_push:
  assumes "refs_ok n t"
  shows "refs_ok (n + 1) (with_push (str_nat (n + 1)) f t)"
proof -
  have fresh: "str_nat (n + 1) \<notin> set (refs_of t)" by (rule fresh_ref [OF assms])
  then have "refs_of (with_push (str_nat (n + 1)) f t) = refs_of t @ [str_nat (n + 1)]"
    by (simp add: refs_of_def with_push_def dict_set_fresh)
  with fresh assms show ?thesis by (auto simp: refs_ok_def)
qed

lemma sound_new_push:
  assumes "t_state (c_sub c s) = JOINED"
  shows "sound c (upd_topic s (with_push (str_nat (c_ref_counter c + 1)) f)
    (snd (new_future (snd (generate_ref c)))))" (is "sound c (upd_topic s ?g ?c)")
proof (rule soundI)
  have p: "progress c ?c" by (rule progress_trans [OF progress_generate_ref progress_new_future])
  show "progress c (upd_topic s ?g ?c)" if i: "inv c"
  proof (rule progress_forget [OF p])
    fix r x
    assume r: "pending_push ?c s r = Some x"
    then have "r \<in> set (refs_of (c_sub c s))"
      by (force simp: refs_of_def dest!: map_of_SomeD)
    then have "r \<noteq> str_nat (c_ref_counter c + 1)"
      using fresh_ref [of "c_ref_counter c" "c_sub c s"] inv_topic [OF i, of s] by (auto simp: topic_ok_def)
    then show "dict_get (t_pending_pushes (?g (c_sub ?c s))) r = Some x"
      using r by (simp add: with_push_def del: map_of_eq_Some_iff)
  qed (simp_all add: topic_progress_def with_push_def awaits_join_def)
  assume i: "inv c"
  have "sound c ?c" by (rule sound_trans [OF sound_futures(7) sound_futures(4)])
  then have "inv ?c" using i by (rule soundD)
  have t: "topic_ok ?c (c_sub c s)" using topic_ok_progress [OF p inv_topic [OF i]] .
  have "refs_ok (c_ref_counter c) (c_sub c s)" using inv_topic [OF i] by (simp add: topic_ok_def)
  then have r: "refs_ok (c_ref_counter ?c) (?g (c_sub c s))" using refs_ok_push by simp
  have "topic_ok ?c (?g (c_sub c s))"
    using t r assms unfolding topic_ok_def by (simp add: with_push_def)
  then show "inv (upd_topic s ?g ?c)"
    using \<open>inv ?c\<close> by (intro inv_upd) (simp_all add: with_push_def)
qed

lemma sound_push_begin [sound_ops]: "sound c (snd (push_begin s e v t c))"
proof (cases "channel_joined c s")
  case True
  then have "t_state (c_sub c s) = JOINED" by (simp add: channel_joined_def)
  from sound_new_push [OF this] have p: "sound c (upd_topic s (with_push (str_nat (c_ref_counter c + 1)) f)
      (snd (new_future (snd (generate_ref c)))))" for f .
  have o: "sound c (snd (send_channel_operation s m f t push_timeout
      (upd_topic s (with_push (str_nat (c_ref_counter c + 1)) g) (snd (new_future (snd (generate_ref c)))))))"
    for m f g
    by (rule sound_trans [OF p sound_send_operation])
  show ?thesis
    unfolding push_begin_def Let_def case_prod_beta with_push_def [symmetric] generate_ref_sel(1)
      new_future_sel(1)
    using o push_end_sound [OF o] by (auto split: sum.split option.split)
qed (simp add: push_begin_def)

section \<open>Joins\<close>

lemma sound_join_ready: "current_join_ready s c = (f, c1) \<Longrightarrow> sound c c1"
proof (rule soundI)
  assume e: "current_join_ready s c = (f, c1)"
  note u = join_ready_upd [OF e]
  show "progress c c1" by (rule u(1))
  assume i: "inv c"
  note t = topic_ok_progress [OF u(1) inv_topic [OF i, of s]]
  have f: "f < c_next c1" by (rule u(5)) (use inv_topic [OF i, of s] in \<open>simp add: topic_ok_def\<close>)
  have r: "refs_ok n (c_sub c1 s) = refs_ok n (c_sub c s)" for n
    by (rule refs_ok_same) (simp_all add: u(2))
  have j: "t_join_ready (c_sub c s) = Some g \<Longrightarrow> g = f" for g
    using e by (simp add: current_join_ready_def)
  have k: "topic_ok c1 (c_sub c1 s)"
    using t f r j unfolding topic_ok_def by (auto simp: u(2))
  show "inv c1" by (rule inv_one [OF i u(1) _ u(4) k]) (simp_all add: u(2) topic_progress_def)
qed

lemma sound_join_error [sound_ops]: "sound c (snd (join_error s e c))"
  unfolding join_error_def using sound_lost by auto

lemma sound_join_begin [sound_ops]: "sound c (snd (join_begin s c))"
proof (cases "resolve_join_params (c_sub c s)")
  case (Inl e)
  then show ?thesis
    using sound_join_error [of c s e] by (simp add: join_begin_def case_prod_beta)
next
  case (Inr params)
  obtain f c1 where c1: "current_join_ready s c = (f, c1)" by force
  have o: "sound c (snd (send_channel_operation s m f t e c1))" for m t e
    by (rule sound_trans [OF sound_join_ready [OF c1] sound_send_operation])
  have j: "sound c (snd (join_error s x (snd (send_channel_operation s m f t e c1))))" for m t e x
    by (rule sound_trans [OF o sound_join_error])
  show ?thesis
    unfolding join_begin_def Inr sum.case Let_def c1 prod.case case_prod_beta
    using o j by (auto split: option.split)
qed

lemma sound_join_end [sound_ops]: "sound c (snd (join_end s r c))"
  unfolding join_end_def case_prod_beta using sound_join_error by (auto split: sum.split)

lemma sound_start_processor [sound_ops]: "sound c (start_processor s c)"
  unfolding start_processor_def case_prod_beta Let_def
  by (rule sound_trans [OF sound_futures(5) sound_benign(3)])

lemma sound_join_channel_begin [sound_ops]: "sound c (snd (join_channel_begin s c))"
  unfolding join_channel_begin_def Let_def
  using sound_start_processor sound_trans [OF sound_start_processor sound_join_begin]
  by (auto split: sum.split)

lemma refs_ok_join:
  assumes "refs_ok n t" "t_join_ref t' = str_nat (n + 1)" "t_leave_ref t' = t_leave_ref t"
    "t_pending_pushes t' = t_pending_pushes t"
  shows "refs_ok (n + 1) t'"
proof -
  obtain j r where r: "refs_of t = j @ r" "refs_of t' = str_nat (n + 1) # r"
    using assms(2-4) by (simp add: refs_of_def)
  have "str_nat (n + 1) \<notin> set r" using fresh_ref [OF assms(1)] r(1) by simp
  then show ?thesis using assms(1) r by (auto simp: refs_ok_def)
qed

lemma refs_ok_leave:
  assumes "refs_ok n t" "t_join_ref t' = t_join_ref t" "t_leave_ref t' = Some (str_nat (n + 1))"
    "t_pending_pushes t' = t_pending_pushes t"
  shows "refs_ok (n + 1) t'"
proof -
  obtain j r l where r: "refs_of t = j @ l @ r" "refs_of t' = j @ str_nat (n + 1) # r"
    using assms(2-4) by (simp add: refs_of_def)
  have "str_nat (n + 1) \<notin> set (j @ r)" using fresh_ref [OF assms(1)] r(1) by simp
  then show ?thesis using assms(1) r by (auto simp: refs_ok_def)
qed

lemma sound_reserve:
  assumes "reserve_name s c = Inr c'" "s < c_next c"
  shows "sound c c'"
proof (rule soundI)
  define c1 where "c1 = upd_topic s (\<lambda>t. t\<lparr>t_state := JOINING, t_conn_generation := c_generation c,
    t_connection := c_connection c, t_join_ref := str_nat (c_ref_counter c + 1)\<rparr>) (snd (generate_ref c))"
  let ?n = "t_name (c_sub c s)"
  have r: "t_state (c_sub c s) = CREATED" "dict_get (c_registry c) ?n = None"
    "c' = c1\<lparr>c_registry := dict_set ?n s (c_registry c1)\<rparr>"
    using assms(1) by (auto simp: reserve_name_def andThen_Inr_iff Let_def case_prod_beta c1_def
        split: if_splits)
  have "topic_progress (c_sub c s) (c_sub c1 s)" using r(1) by (simp add: topic_progress_def c1_def)
  then have p1: "progress c c1" using r(1) by (auto simp: progress_def c1_def awaits_join_def)
  have reg: "c_registry c1 = c_registry c" by (simp add: c1_def)
  then show p: "progress c c'" using p1 r(2,3) set_once_trans [of c c1 c', OF _ set_once_same]
    by (auto simp: progress_def)
  assume i: "inv c"
  have t: "topic_ok c1 (c_sub c1 s)"
  proof -
    have "refs_ok (c_ref_counter c1) (c_sub c1 s)"
      using inv_topic [OF i, of s] refs_ok_join [of "c_ref_counter c" "c_sub c s" "c_sub c1 s"]
      by (simp add: topic_ok_def c1_def)
    then show ?thesis
      using topic_ok_progress [OF p1 inv_topic [OF i, of s]] r(1) unfolding topic_ok_def
      by (simp add: c1_def)
  qed
  have i1: "inv c1"
    by (rule inv_one [OF i p1 _ reg t]) (use r(1) in \<open>simp_all add: c1_def topic_progress_def\<close>)
  have "topic_ok c' = topic_ok c1" unfolding r(3) by (simp add: fun_eq_iff topic_ok_def)
  moreover have "registry_ok c'"
  proof -
    have "t_state (c_sub c1 s) = JOINING" "t_name (c_sub c1 s) = ?n" "s < c_next c1"
      using assms(2) by (simp_all add: c1_def)
    then show ?thesis
      using i1 unfolding inv_def registry_ok_def r(3) by (auto simp: dict_set_distinct)
  qed
  ultimately show "inv c'" using i1 unfolding inv_def r(3) by simp
qed

section \<open>Leaving\<close>

lemma sound_leave_channel [sound_ops]: "sound c (snd (leave_channel s k c))"
proof (cases "t_state (c_sub c s) = CREATED")
  case True
  let ?g = "\<lambda>t. t\<lparr>t_state := LEFT, t_cause := Some LEAVE, t_leave_requested := True\<rparr>"
  have "sound c (upd_topic s ?g c)"
  proof (rule soundI)
    show "progress c (upd_topic s ?g c)"
      using True by (intro progress_upd) (simp_all add: topic_progress_def waits_defs)
    assume i: "inv c"
    have "refs_ok n (?g (c_sub c s)) = refs_ok n (c_sub c s)" for n by (rule refs_ok_same) simp_all
    then have "topic_ok c (?g (c_sub c s))"
      using inv_topic [OF i, of s] True unfolding topic_ok_def by simp
    then show "inv (upd_topic s ?g c)" by (rule inv_upd [OF i]) simp_all
  qed
  with True show ?thesis by (simp add: leave_channel_def)
next
  case False
  with sound_start_leave [of c s k] show ?thesis by (simp add: leave_channel_def case_prod_beta)
qed

lemma sound_leave_ref:
  "sound c (upd_topic s (\<lambda>t. t\<lparr>t_leave_ref := Some (str_nat (c_ref_counter c + 1))\<rparr>)
     (snd (generate_ref c)))" (is "sound c (upd_topic s ?g ?c)")
proof (rule soundI)
  show p: "progress c (upd_topic s ?g ?c)"
    by (rule progress_trans [OF progress_generate_ref progress_upd]) (simp_all add: topic_progress_def waits_defs)
  assume i: "inv c"
  have i1: "inv ?c" using soundD(2) [OF sound_futures(7) i] .
  have t: "topic_ok ?c (c_sub ?c s)" using i1 by (rule inv_topic)
  have "refs_ok (c_ref_counter ?c) (?g (c_sub ?c s))"
    using inv_topic [OF i, of s] refs_ok_leave [of "c_ref_counter c" "c_sub c s" "?g (c_sub ?c s)"]
    by (simp add: topic_ok_def)
  with t have "topic_ok ?c (?g (c_sub ?c s))" unfolding topic_ok_def by simp
  then show "inv (upd_topic s ?g ?c)" by (rule inv_upd [OF i1]) simp_all
qed

lemma sound_leave_and_cleanup [sound_ops]: "sound c (snd (leave_and_cleanup s c))"
proof -
  define c2 where "c2 = upd_topic s (\<lambda>t. t\<lparr>t_leave_ref := Some (str_nat (c_ref_counter c + 1))\<rparr>)
    (snd (generate_ref c))"
  obtain f c3 where c3: "unsubscribe_completed s c2 = (f, c3)" by force
  have "sound c c3"
    unfolding c2_def
    by (rule sound_trans [OF sound_leave_ref sound_unsubscribe_completed [OF c3 [unfolded c2_def]]])
  then have "sound c (snd (send_channel_operation s m f t e c3))" for m t e
    using sound_trans sound_send_operation by blast
  then show ?thesis
    unfolding leave_and_cleanup_def Let_def case_prod_beta generate_ref_sel(1) c2_def [symmetric] c3
    by (auto split: option.split)
qed

lemma sound_cancel_unless [sound_ops]: "sound c (cancel_unless_current me k c)"
  by (auto simp: cancel_unless_current_def split: option.split)

lemma sound_cleanup [sound_ops]:
  "sound c (cleanup_cancel_recovery me k s c)" "sound c (cleanup_cancel_processor me k s c)"
  "sound c (cleanup_end s c)"
  unfolding cleanup_cancel_recovery_def cleanup_cancel_processor_def cleanup_end_def
  using sound_cancel_unless sound_trans [OF sound_benign(6) sound_release] by auto

section \<open>Losses and rejoins\<close>

lemma sound_unregister [sound_ops]: "sound c (snd (unregister_topic n e only me c))"
proof -
  have "sound c (snd (leave_channel s me c))"
    "sound c (snd (leave_channel s me (transition_channel s CLOSE x c)))" for s x
    using sound_leave_channel sound_trans [OF sound_lost(2) sound_leave_channel] by blast+
  then show ?thesis
    by (auto simp: unregister_topic_def Let_def case_prod_beta split: option.split)
qed

lemma sound_lose_topic [sound_ops]: "sound c (snd (lose_topic me s e c))"
  using sound_unregister [of c "t_name (c_sub c s)" "Some e" "Some s" me]
  by (auto simp: lose_topic_def split: prod.split option.split)

lemma sound_report [sound_ops]: "sound c (report_topic_lost s e c)"
  unfolding report_topic_lost_def Let_def using sound_trans [OF sound_benign(7) sound_log(4)] by auto

lemma sound_rejoin_begin [sound_ops]: "sound c (snd (rejoin_begin s c))"
  unfolding rejoin_begin_def Let_def
  using sound_benign(5) sound_trans [OF sound_lost(5) sound_benign(5)] by auto

lemma sound_restart:
  assumes "should_rejoin c s"
  shows "sound c (restart_topic s g c)"
proof -
  define c2 where "c2 = snd (new_future (snd (generate_ref c)))"
  define h where "h = (\<lambda>t. drain_topic_queue (t\<lparr>t_conn_generation := g,
    t_connection := c_connection c, t_state := REJOINING, t_cause := None, t_join_submitted := False,
    t_terminal_received := False, t_restart_requested := False,
    t_join_ref := str_nat (c_ref_counter c + 1), t_join_ready := Some (c_next c)\<rparr>))"
  have e: "restart_topic s g c = start_processor s (upd_topic s h c2)"
    by (simp add: restart_topic_def case_prod_beta Let_def c2_def h_def)
  have s2: "sound c c2"
    unfolding c2_def by (rule sound_trans [OF sound_futures(7) sound_futures(4)])
  have "sound c (upd_topic s h c2)"
  proof (rule soundI)
    assume i: "inv c"
    have not_joining: "t_state (c_sub c s) \<noteq> JOINING"
      using inv_topic [OF i, of s] assms by (auto simp: topic_ok_def should_rejoin_def)
    have "topic_progress (c_sub c2 s) (h (c_sub c2 s))"
      using assms by (simp add: topic_progress_def should_rejoin_def c2_def h_def drain_topic_queue_def)
    then have "progress c2 (upd_topic s h c2)"
      by (rule progress_upd) (use not_joining in \<open>simp add: h_def drain_topic_queue_def c2_def waits_defs\<close>)
    then show "progress c (upd_topic s h c2)" using soundD(1) [OF s2 i] progress_trans by blast
    have r: "refs_ok (c_ref_counter c2) (h (c_sub c2 s))"
      using inv_topic [OF i, of s] refs_ok_join [of "c_ref_counter c" "c_sub c s" "h (c_sub c2 s)"]
      by (simp add: topic_ok_def c2_def h_def drain_topic_queue_def)
    have "topic_ok c2 (h (c_sub c2 s))"
      using inv_topic [OF soundD(2) [OF s2 i], of s] r assms unfolding topic_ok_def
      by (simp add: h_def drain_topic_queue_def c2_def should_rejoin_def)
    then show "inv (upd_topic s h c2)"
      by (rule inv_upd [OF soundD(2) [OF s2 i]]) (simp_all add: h_def drain_topic_queue_def)
  qed
  then show ?thesis unfolding e using sound_trans sound_start_processor by blast
qed

lemma sound_rejoin_restart [sound_ops]: "sound c (snd (rejoin_restart s g c))"
  unfolding rejoin_restart_def case_prod_beta
  using sound_trans [OF sound_restart sound_join_begin] by auto

lemma sound_rejoin_failure [sound_ops]: "sound c (snd (handle_rejoin_failure me s e c))"
  unfolding handle_rejoin_failure_def Let_def
  using sound_recovery sound_unregister [of c "t_name (c_sub c s)" "Some (rejoin_rejected (c_sub c s) e)" "Some s" me]
  by (auto split: prod.split option.split)

lemma sound_background [sound_ops]: "sound c (recover_in_background g subs c)"
  unfolding recover_in_background_def by (rule sound_fold) (auto simp: sound_recovery)

lemma sound_recover_failed [sound_ops]: "sound c (snd (recover_failed me s g e c))"
  unfolding recover_failed_def using sound_topic_loss by auto

end
