(* ===== verification/Connection.thy ===== *)
theory Connection
  imports Channel_Sound
begin

text \<open>
  What happens to the channels when the client gains or loses its connection, stops, or its
  supervisor exits: the parts of \<open>supervisor.py\<close> and \<open>client.py\<close> that touch the channel
  runtime's state, segment by segment.
\<close>

section \<open>A connection comes up\<close>

text \<open>A new connection object: it is no connection the client had before.\<close>

definition set_connection :: "client \<Rightarrow> client" where
  "set_connection c = c\<lparr>c_connection := Some (c_next c), c_next := c_next c + 1\<rparr>"

definition next_generation :: "client \<Rightarrow> client" where
  "next_generation c = c\<lparr>c_generation := c_generation c + 1\<rparr>"

section \<open>A connection goes away\<close>

definition connection_lost_waiting :: exn where
  "connection_lost_waiting =
     SocketError (lit ''Connection lost while waiting for a channel operation'')"

text \<open>The first segment of \<open>_cleanup_connection\<close>: fail what waits, forget the connection, cancel.\<close>

definition cleanup_connection_begin :: "tid option \<Rightarrow> tid list \<Rightarrow> client \<Rightarrow> client" where
  "cleanup_connection_begin me own_tasks c =
     (let c1 = fail_pending_joins me connection_lost_waiting c;
          running = filter (\<lambda>k. \<not> task_done c1 k) (own_tasks @ channel_recoveries c1)
      in fold request_cancel running (c1\<lparr>c_connection := None\<rparr>))"

text \<open>Its last segment, once the socket is closed and the sends have ended.\<close>

definition settle_topic :: "cid option \<Rightarrow> sid \<Rightarrow> client \<Rightarrow> client" where
  "settle_topic conn s c =
     (if t_connection (c_sub c s) = conn then
        (let c1 = upd_topic s (\<lambda>t. t\<lparr>t_terminal_received := True\<rparr>) c
         in if t_state (c_sub c1 s) = LEFT then release_reservation s c1 else c1)
      else c)"

definition cleanup_connection_end :: "cid option \<Rightarrow> ssid option \<Rightarrow> client \<Rightarrow> client" where
  "cleanup_connection_end conn session c =
     (let c1 = (case session of
                  None \<Rightarrow> c
                | Some ss \<Rightarrow>
                    (let c' = finish_end ss c
                     in if c_send_session c' = Some ss then c'\<lparr>c_send_session := None\<rparr> else c'))
      in fold (settle_topic conn) (dict_values (c_registry c1)) c1)"

section \<open>Starting and stopping\<close>

definition shutting_down_error :: exn where
  "shutting_down_error = ChannelError (lit ''Client is shutting down'')"

text \<open>From every state but the two excluded ones the transition to \<open>SHUTTING_DOWN\<close> is allowed.\<close>

definition request_stop :: "tid option \<Rightarrow> client \<Rightarrow> client" where
  "request_stop me c =
     (let c1 = (if c_state c \<notin> {SHUTTING_DOWN, CLOSED} then c\<lparr>c_state := SHUTTING_DOWN\<rparr> else c)
      in retire_channels me shutting_down_error (c1\<lparr>c_shutdown := True\<rparr>))"

lemma stop_allowed:
  "c_state c \<notin> {SHUTTING_DOWN, CLOSED} \<Longrightarrow>
   transition_state SHUTTING_DOWN c = Inr (c\<lparr>c_state := SHUTTING_DOWN\<rparr>)"
  by (cases "c_state c") (simp_all add: transition_state_def transition_client_state_def)

text \<open>The end of \<open>_shutdown\<close>: the client is closed.\<close>

definition shutdown_end :: "client \<Rightarrow> exn + client" where
  "shutdown_end c = transition_state CLOSED c"

definition supervisor_stopped :: exn where
  "supervisor_stopped = SocketError (lit ''Connection supervisor stopped'')"

definition retire_at_exit :: "tid option \<Rightarrow> client \<Rightarrow> exn + client" where
  "retire_at_exit me c =
     (if c_state c \<noteq> SHUTTING_DOWN then
        transition_state CLOSED
          (if c_registry c \<noteq> [] then retire_channels me supervisor_stopped c else c)
      else Inr c)"

definition is_fully_closed :: "client \<Rightarrow> bool" where
  "is_fully_closed c \<longleftrightarrow>
     c_state c = CLOSED \<and> c_registry c = [] \<and> c_connection c = None \<and> c_cleanup_tasks c = []"

text \<open>\<open>__aenter__\<close> up to its wait; \<open>stopping\<close> says that a shutdown is still running.\<close>

definition enter_client :: "bool \<Rightarrow> client \<Rightarrow> exn + client" where
  "enter_client stopping c =
     (if c_state c \<noteq> CLOSED \<or> stopping then Inl (SocketError (lit ''Client is already running''))
      else transition_state CONNECTING (c\<lparr>c_shutdown := False, c_generation := 0\<rparr>))"

section \<open>Soundness\<close>

lemma sound_connection [sound_ops]:
  "sound c (set_connection c)" "sound c (next_generation c)" "sound c (c\<lparr>c_connection := x\<rparr>)"
  "sound c (c\<lparr>c_send_session := ss\<rparr>)" "sound c (c\<lparr>c_shutdown := b\<rparr>)"
  "sound c (c\<lparr>c_shutdown := b, c_generation := g\<rparr>)"
  by (auto intro!: sound_same_channels simp: same_channels_def set_connection_def next_generation_def)

lemma sound_transition_state: "transition_state st c = Inr c' \<Longrightarrow> sound c c'"
  by (auto simp: transition_state_def andThen_Inr_iff sound_log split: if_splits)

lemma sound_cleanup_begin [sound_ops]: "sound c (cleanup_connection_begin me own c)"
proof -
  define c1 where "c1 = fail_pending_joins me connection_lost_waiting c"
  have "sound c c1" unfolding c1_def by (rule sound_fail_pending_joins)
  also have "sound c1 (c1\<lparr>c_connection := None\<rparr>)" by (rule sound_connection)
  also have "sound (c1\<lparr>c_connection := None\<rparr>)
      (fold request_cancel (filter (\<lambda>k. \<not> task_done c1 k) (own @ channel_recoveries c1))
        (c1\<lparr>c_connection := None\<rparr>))"
    by (rule sound_fold) (rule sound_futures)
  finally show ?thesis by (simp add: cleanup_connection_begin_def c1_def Let_def)
qed

lemma sound_settle_topic: "sound c (settle_topic conn s c)"
  unfolding settle_topic_def Let_def
  using sound_benign(1) sound_trans [OF sound_benign(1) sound_release] by auto

lemma sound_cleanup_end [sound_ops]: "sound c (cleanup_connection_end conn ses c)"
proof -
  define c1 where "c1 = (case ses of None \<Rightarrow> c
    | Some ss \<Rightarrow> (let c' = finish_end ss c
        in if c_send_session c' = Some ss then c'\<lparr>c_send_session := None\<rparr> else c'))"
  have "sound c c1"
    unfolding c1_def Let_def using sound_trans [OF sound_operations(3) sound_connection(4)]
    by (auto split: option.split)
  moreover have "sound c1 (fold (settle_topic conn) (dict_values (c_registry c1)) c1)"
    by (rule sound_fold) (rule sound_settle_topic)
  ultimately have "sound c (fold (settle_topic conn) (dict_values (c_registry c1)) c1)"
    by (rule sound_trans)
  then show ?thesis by (simp add: cleanup_connection_end_def c1_def Let_def)
qed

lemma sound_request_stop [sound_ops]: "sound c (request_stop me c)"
proof -
  define c1 where "c1 = (if c_state c \<notin> {SHUTTING_DOWN, CLOSED} then c\<lparr>c_state := SHUTTING_DOWN\<rparr> else c)"
  have "sound c c1" unfolding c1_def by (simp add: sound_log)
  also have "sound c1 (c1\<lparr>c_shutdown := True\<rparr>)" by (rule sound_connection)
  also have "sound (c1\<lparr>c_shutdown := True\<rparr>)
      (retire_channels me shutting_down_error (c1\<lparr>c_shutdown := True\<rparr>))"
    by (rule sound_retire_channels)
  finally show ?thesis by (simp add: request_stop_def c1_def Let_def)
qed

lemma sound_exit: "retire_at_exit me c = Inr c' \<Longrightarrow> sound c c'"
  using sound_transition_state sound_trans [OF sound_retire_channels sound_transition_state]
  by (auto simp: retire_at_exit_def split: if_splits)

lemma sound_enter: "enter_client b c = Inr c' \<Longrightarrow> sound c c'"
  using sound_trans [OF sound_connection(6) sound_transition_state]
  by (auto simp: enter_client_def split: if_splits)

end
