(* ===== verification/Channel_Runs.thy ===== *)
theory Channel_Runs
  imports Connection
begin

text \<open>
  The runs of the channel runtime: a step relation with one rule per segment, the states a
  client can reach, and what holds in all of them. Between two segments of one coroutine any
  other segment may run, so every interleaving of the event loop is a run; a rule's premises
  are only what the code itself tests or waits for. The relation allows more than the event
  loop does (a segment may run although its coroutine is elsewhere), and what is proved of all
  its runs holds of the program's.
\<close>

section \<open>Steps\<close>

text \<open>A channel object the application creates.\<close>

definition open_channel ::
  "pystr \<Rightarrow> join_params \<Rightarrow> (json \<Rightarrow> hook_result) option \<Rightarrow> bool \<Rightarrow> bool \<Rightarrow> client \<Rightarrow> sid \<times> client" where
  "open_channel name params hook hook_async blocks =
     new_topic (new_subscription name params hook hook_async blocks)"

text \<open>A task ends.\<close>

definition end_task :: "tid \<Rightarrow> client \<Rightarrow> client" where
  "end_task k c = c\<lparr>c_task := (c_task c)(k := (c_task c k)\<lparr>k_done := True\<rparr>)\<rparr>"

text \<open>One frame of the routing loop; the answer to a heartbeat does not touch the channels.\<close>

definition deliver ::
  "tid option \<Rightarrow> (json \<Rightarrow> exn + pystr) \<Rightarrow> nat \<Rightarrow> ws_frame \<Rightarrow> client \<Rightarrow> exn + client" where
  "deliver me coerce gen frame c =
     andThen (decode_message coerce frame (c_version c)) (\<lambda>d.
       Inr (snd (route_message (\<lambda>_ c. c) (handle_channel_control me) gen d c)))"

inductive app_step :: "client \<Rightarrow> client \<Rightarrow> bool" where
  opened: "app_step c (snd (open_channel name params hook async blocks c))"
| handler_on: "add_event_handler (c_sub c s) e h = Inr t \<Longrightarrow> app_step c (upd_topic s (\<lambda>_. t) c)"
| handler_off: "app_step c (upd_topic s (\<lambda>t. remove_event_handler t e) c)"
| any_handler: "app_step c (upd_topic s (\<lambda>t. t\<lparr>t_async_callback := h\<rparr>) c)"
| reserved: "s < c_next c \<Longrightarrow> reserve_name s c = Inr c' \<Longrightarrow> app_step c c'"
| join_sent: "app_step c (snd (join_channel_begin s c))"
| joined_or_failed: "await_outcome (c_fut c f) = Some r \<Longrightarrow> app_step c (snd (join_end s r c))"
| left: "app_step c (snd (leave_channel s k c))"
| pushed: "app_step c (snd (push_begin s e v t c))"
| push_over: "c_fut c f \<noteq> Pending \<Longrightarrow> app_step c (push_end s r f c)"
| caller_cancelled: "app_step c (send_cancelled ss f c)"

inductive send_step :: "client \<Rightarrow> client \<Rightarrow> bool" where
  started: "k_work (c_task c k) = Send_Frame ss f q \<Longrightarrow> \<not> task_done c k \<Longrightarrow>
    send_step c (snd (run_send ss f q c))"
| ended: "send_step c (send_end (fail_send_session me ss) ss f raised c)"
| callback: "send_step c (send_done ss f c)"
| outcome: "send_step c (outcome_done ss f c)"
| expired: "send_step c (expire (fail_send_session me ss) ss f c)"
| finishing: "send_step c (finish_begin ss c)"

inductive task_step :: "client \<Rightarrow> client \<Rightarrow> bool" where
  ended: "task_step c (end_task k c)"
| forgotten: "task_step c (finish_lifecycle_task k (finish_cleanup_task k c))"
| frame: "deliver me coerce gen frame c = Inr c' \<Longrightarrow> task_step c c'"
| processed: "process_topic_message s c = Some (p, c') \<Longrightarrow> task_step c c'"
| handlers: "task_step c (handlers_finished s c)"
| processor_failed: "task_step c (start_topic_loss me s e c)"
| leaving: "task_step c (snd (leave_and_cleanup s c))"
| cleanup_recovery: "task_step c (cleanup_cancel_recovery me i s c)"
| cleanup_processor: "task_step c (cleanup_cancel_processor me i s c)"
| cleaned: "task_step c (cleanup_end s c)"
| losing: "task_step c (snd (lose_topic me s e c))"
| lost: "s < c_next c \<Longrightarrow> task_step c (report_topic_lost s e c)"
| rejoining: "task_step c (snd (rejoin_begin s c))"
| restarted: "task_step c (snd (rejoin_restart s gen c))"
| rejoin_failed: "task_step c (snd (handle_rejoin_failure me s e c))"
| reporting: "task_step c (snd (track_lifecycle_task (Report_Topic_Lost s e) c))"
| background: "task_step c (recover_in_background gen subs c)"
| recovery_failed: "task_step c (snd (recover_failed me s gen e c))"
| rejoin_over: "await_outcome (c_fut c f) = Some r \<Longrightarrow> task_step c (snd (join_end s r c))"

text \<open>A heartbeat is the one message that belongs to no channel.\<close>

definition is_heartbeat :: "message \<Rightarrow> bool" where
  "is_heartbeat m \<longleftrightarrow> m_topic m = phoenix_topic \<and> event_text (m_event m) = heartbeat_event"

inductive connection_step :: "client \<Rightarrow> client \<Rightarrow> bool" where
  connected: "\<not> c_shutdown c \<Longrightarrow>
    transition_state CONNECTED (next_generation (set_connection c)) = Inr c' \<Longrightarrow> connection_step c c'"
| stop_won: "c_shutdown c \<Longrightarrow> connection_step c (set_connection c)"
| gate_raised: "\<not> c_shutdown c \<Longrightarrow> connection_step c (next_generation (set_connection c))"
| refused: "\<not> c_shutdown c \<Longrightarrow>
    connection_step c (cleanup_connection_begin me own (next_generation (set_connection c)))"
| routing_stopped: "connection_step c (fail_pending_joins me e c)"
| cleanup: "connection_step c (cleanup_connection_begin me own c)"
| cleaned_up: "connection_step c (cleanup_connection_end conn ses c)"
| reconnecting: "transition_state RECONNECTING c = Inr c' \<Longrightarrow> connection_step c c'"
| exited: "retire_at_exit me c = Inr c' \<Longrightarrow> connection_step c c'"
| stop: "connection_step c (request_stop me c)"
| stopped: "shutdown_end c = Inr c' \<Longrightarrow> connection_step c c'"
| heartbeat: "is_heartbeat m \<Longrightarrow> send_message conn m (snd (generate_ref c)) = Inr c' \<Longrightarrow> connection_step c c'"
| entered: "enter_client stopping c = Inr c' \<Longrightarrow> connection_step c c'"
| started: "connection_step c (snd (new_task w c))"
| ref_taken: "connection_step c (snd (generate_ref c))"
| cancel_requested: "connection_step c (request_cancel k c)"

definition channel_step :: "client \<Rightarrow> client \<Rightarrow> bool" where
  "channel_step c c' \<longleftrightarrow> app_step c c' \<or> send_step c c' \<or> task_step c c' \<or> connection_step c c'"

section \<open>Runs\<close>

text \<open>A client as its constructor leaves it.\<close>

definition new_client ::
  "protocol_version \<Rightarrow> pyfloat \<Rightarrow> pyfloat \<Rightarrow> nat \<Rightarrow> (json \<Rightarrow> pystr) \<Rightarrow> client" where
  "new_client version join_timeout leave_timeout max_queue str =
     \<lparr>c_connection = None, c_state = CLOSED, c_ref_counter = 0, c_generation = 0,
      c_registry = [], c_version = version, c_shutdown = False, c_join_timeout = join_timeout,
      c_leave_timeout = leave_timeout, c_max_queue = max_queue, c_lifecycle_tasks = [],
      c_cleanup_tasks = [], c_send_session = None,
      c_sub = (\<lambda>_. new_subscription [] No_Params None False True), c_fut = (\<lambda>_. Pending),
      c_task = (\<lambda>_. \<lparr>k_work = Process_Topic_Messages [], k_done = True, k_cancel = False\<rparr>),
      c_sess = (\<lambda>_. new_session 0 0), c_next = 0, c_sent = [], c_lost = [], c_str = str\<rparr>"

inductive reachable :: "client \<Rightarrow> bool" where
  new: "reachable (new_client version join_timeout leave_timeout max_queue str)"
| step: "reachable c \<Longrightarrow> channel_step c c' \<Longrightarrow> reachable c'"

inductive run :: "client \<Rightarrow> client \<Rightarrow> bool" where
  stay: "run c c"
| go: "run c c' \<Longrightarrow> channel_step c' c'' \<Longrightarrow> run c c''"

inductive_cases reachableE: "reachable c"

lemma run_trans: "run b c \<Longrightarrow> run a b \<Longrightarrow> run a c"
  by (induction rule: run.induct) (auto intro: run.go)

lemma run_step: "channel_step c c' \<Longrightarrow> run c c'"
  using run.go [OF run.stay] .

lemma run_reachable: "run c c' \<Longrightarrow> reachable c \<Longrightarrow> reachable c'"
  by (induction rule: run.induct) (auto intro: reachable.step)

section \<open>Every step is sound\<close>

lemma new_subscription_ok: "topic_ok c (new_subscription name params hook async blocks)"
  by (simp add: topic_ok_def new_subscription_def refs_ok_def refs_of_def)

lemma sound_open: "sound c (snd (open_channel name params hook async blocks c))"
proof (rule soundI)
  let ?t = "new_subscription name params hook async blocks"
  let ?c = "snd (open_channel name params hook async blocks c)"
  have e: "?c = c\<lparr>c_sub := (c_sub c)(c_next c := ?t), c_next := c_next c + 1\<rparr>"
    by (simp add: open_channel_def new_topic_def)
  show p: "progress c ?c" unfolding e by (simp add: progress_def)
  assume i: "inv c"
  have "topic_ok ?c t" if "topic_ok c t" for t by (rule topic_ok_progress [OF p that])
  moreover have "registry_ok ?c"
  proof -
    have r: "registry_ok c" using i by (simp add: inv_def)
    have "s \<noteq> c_next c" if "dict_get (c_registry c) n = Some s" for n s
      using r that unfolding registry_ok_def by blast
    then show ?thesis using r unfolding registry_ok_def e by (simp del: map_of_eq_Some_iff) fastforce
  qed
  ultimately show "inv ?c"
    using i new_subscription_ok by (simp add: inv_def) (simp add: e)
qed

lemma sound_handlers:
  "add_event_handler (c_sub c s) e h = Inr t \<Longrightarrow> sound c (upd_topic s (\<lambda>_. t) c)"
  "sound c (upd_topic s (\<lambda>t. remove_event_handler t e) c)"
  "sound c (upd_topic s (\<lambda>t. t\<lparr>t_async_callback := x\<rparr>) c)"
proof -
  assume "add_event_handler (c_sub c s) e h = Inr t"
  then have "upd_topic s (\<lambda>_. t) c =
      upd_topic s (\<lambda>t. t\<lparr>t_event_handlers := dict_set (event_text e) h (t_event_handlers t)\<rparr>) c"
    by (auto simp: add_event_handler_def upd_topic_def split: if_splits)
  then show "sound c (upd_topic s (\<lambda>_. t) c)"
    by (simp add: sound_core same_core_def topic_progress_def)
qed (auto intro!: sound_core simp: same_core_def topic_progress_def remove_event_handler_def)

lemma sound_app: "app_step c c' \<Longrightarrow> sound c c'"
  by (induction rule: app_step.induct)
    (simp_all add: sound_open sound_handlers sound_reserve push_end_sound sound_ops)

lemma sound_send: "send_step c c' \<Longrightarrow> sound c c'"
  by (induction rule: send_step.induct) (simp_all add: sound_ops)

lemma sound_end_task: "sound c (end_task k c)"
  by (rule sound_same_channels) (simp add: same_channels_def end_task_def)

lemma sound_forgotten: "sound c (finish_lifecycle_task k (finish_cleanup_task k c))"
  by (rule sound_same_channels)
    (simp add: same_channels_def finish_lifecycle_task_def finish_cleanup_task_def)

lemma sound_deliver: "deliver me coerce g frame c = Inr c' \<Longrightarrow> sound c c'"
  by (auto simp: deliver_def andThen_Inr_iff intro!: sound_route)

lemma sound_handlers_finished: "sound c (handlers_finished s c)"
  by (simp add: handlers_finished_def sound_benign)

lemma sound_task: "task_step c c' \<Longrightarrow> sound c c'"
  by (induction rule: task_step.induct)
    (simp_all add: sound_end_task sound_forgotten sound_deliver sound_handlers_finished
      sound_process sound_ops)

lemma sound_connection_step: "connection_step c c' \<Longrightarrow> sound c c'"
proof (induction rule: connection_step.induct)
  case (connected c c')
  have "sound c (next_generation (set_connection c))"
    using sound_trans sound_connection by blast
  then show ?case using sound_trans sound_transition_state [OF connected(2)] by blast
next
  case (gate_raised c)
  show ?case using sound_trans sound_connection by blast
next
  case (refused c me own)
  have "sound c (next_generation (set_connection c))"
    using sound_trans sound_connection by blast
  then show ?case using sound_trans sound_cleanup_begin by blast
next
  case (heartbeat m conn c c')
  then show ?case
    using sound_trans [OF sound_futures(7) sound_log(3)] by (auto simp: send_message_def andThen_Inr_iff)
qed (auto simp: sound_ops shutdown_end_def intro: sound_transition_state sound_exit sound_enter)

lemma sound_step: "channel_step c c' \<Longrightarrow> sound c c'"
  unfolding channel_step_def
  using sound_app sound_send sound_task sound_connection_step by blast

lemma inv_new_client: "inv (new_client v j l q str)"
  by (simp add: inv_def registry_ok_def new_client_def new_subscription_ok)

lemma reachable_inv: "reachable c \<Longrightarrow> inv c"
  by (induction rule: reachable.induct) (auto intro: inv_new_client dest: sound_step soundD)

lemma reachable_set_once: "reachable c \<Longrightarrow> c_fut c f \<noteq> Set_Twice"
proof (induction rule: reachable.induct)
  case (step c c')
  with progressD(8) [OF soundD(1) [OF sound_step [OF step(2)] reachable_inv [OF step(1)]]]
  show ?case by (auto simp: set_once_def)
qed (simp add: new_client_def)

lemma run_progress: "run c c' \<Longrightarrow> reachable c \<Longrightarrow> progress c c'"
proof (induction rule: run.induct)
  case (go c c' c'')
  then have "progress c c'" "inv c'" using reachable_inv run_reachable by auto
  with go.hyps(2) show ?case using soundD(1) [OF sound_step] progress_trans by blast
qed simp

end
