(* ===== verification/Channel_Samples.thy ===== *)
theory Channel_Samples
  imports Channel_Runs
begin

text \<open>
  A client that joined one channel, built by the steps of the run: entered, connected, the name
  reserved, the acknowledgement received. The properties of the runtime are shown to apply to
  it and to what follows from it.
\<close>

definition sample_client :: client where
  "sample_client = new_client V2 (Fin 10) (Fin 5) 2 (\<lambda>_. [])"

definition sample_connected :: client where
  "sample_connected = sample_client
     \<lparr>c_connection := Some 0, c_next := 1, c_generation := 1, c_state := CONNECTED\<rparr>"

lemma sample_connected_reachable: "reachable sample_connected"
proof -
  let ?c = "sample_client\<lparr>c_state := CONNECTING\<rparr>"
  have "enter_client False sample_client = Inr ?c"
    by (simp add: enter_client_def transition_state_def transition_client_state_def
        sample_client_def new_client_def)
  then have "channel_step sample_client ?c"
    unfolding channel_step_def by (intro disjI2 connection_step.entered)
  then have "reachable ?c"
    unfolding sample_client_def using reachable.step [OF reachable.new] by blast
  moreover have "transition_state CONNECTED (next_generation (set_connection ?c)) = Inr sample_connected"
    by (simp add: transition_state_def transition_client_state_def next_generation_def
        set_connection_def sample_client_def new_client_def sample_connected_def)
  then have "channel_step ?c sample_connected"
    unfolding channel_step_def
    by (intro disjI2 connection_step.connected [of ?c]) (simp add: sample_client_def new_client_def)
  ultimately show ?thesis by (rule reachable.step)
qed

text \<open>The channel object has number 1.\<close>

definition sample_topic :: topic where
  "sample_topic = new_subscription (lit ''room'') No_Params None False True"

definition sample_opened :: client where
  "sample_opened = snd (open_channel (lit ''room'') No_Params None False True sample_connected)"

definition sample_joining :: client where
  "sample_joining = sample_connected\<lparr>c_next := 2, c_ref_counter := 1,
     c_registry := [(lit ''room'', 1)],
     c_sub := (c_sub sample_connected)(1 := sample_topic\<lparr>t_state := JOINING,
       t_conn_generation := 1, t_connection := Some 0, t_join_ref := str_nat 1\<rparr>)\<rparr>"

lemma sample_joining_reachable: "reachable sample_joining"
proof -
  have "channel_step sample_connected sample_opened"
    unfolding channel_step_def sample_opened_def by (intro disjI1 app_step.opened)
  then have o: "reachable sample_opened" using sample_connected_reachable reachable.step by blast
  have s: "sample_opened = sample_connected
      \<lparr>c_next := 2, c_sub := (c_sub sample_connected)(1 := sample_topic)\<rparr>"
    by (simp add: sample_opened_def open_channel_def new_topic_def sample_topic_def
        sample_connected_def)
  have "reserve_name 1 sample_opened = Inr sample_joining"
    unfolding s
    by (simp add: reserve_name_def ensure_can_send_def is_connected_def sample_topic_def
        new_subscription_def sample_connected_def sample_client_def new_client_def
        sample_joining_def generate_ref_def upd_topic_def)
  then have "channel_step sample_opened sample_joining"
    unfolding channel_step_def by (intro disjI1 app_step.reserved [of 1]) (simp_all add: s)
  then show ?thesis using o reachable.step by blast
qed

section \<open>The acknowledgement\<close>

definition sample_ack :: message where
  "sample_ack = make_message (System SysReply) (lit ''room'') (Some (lit ''1''))
     (Some (PDict [(lit ''status'', JStr (lit ''ok'')), (lit ''response'', JDict [])]))
     (Some (lit ''1''))"

definition sample_joined :: client where
  "sample_joined = sample_joining\<lparr>c_next := 3, c_fut := (c_fut sample_joining)(2 := Result None),
     c_sub := (c_sub sample_connected)(1 := sample_topic\<lparr>t_state := JOINED, t_established := True,
       t_cause := Some ACCEPTED, t_conn_generation := 1, t_connection := Some 0,
       t_join_ref := str_nat 1, t_join_ready := Some 2\<rparr>)\<rparr>"

lemma str_nat_1: "str_nat 1 = lit ''1''" "str_nat (Suc 0) = lit ''1''"
  by (subst str_nat.simps, simp add: lit_def)+

lemmas sample_defs = sample_joining_def sample_joined_def sample_topic_def new_subscription_def
  sample_connected_def sample_client_def new_client_def

lemma sample_control:
  "handle_channel_control None 1 sample_ack None sample_joining = (True, sample_joined)"
  by (simp add: handle_channel_control_def handle_join_response_mode_def sample_ack_def
      is_registered_def is_on_current_connection_def is_connected_def client_lifecycle_def
      make_message_def join_future_def fut_done_def status_is_def join_accepted_def
      install_join_response_def set_subscription_ready_def transition_channel_def
      accept_channel_def current_join_ready_def new_future_def upd_topic_def set_future_result_def put_outcome_def
      str_nat_1 sample_defs Let_def)

lemma sample_joined_reachable: "reachable sample_joined"
proof -
  let ?d = "[(lit ''status'', JStr (lit ''ok'')), (lit ''response'', JDict [])]"
  let ?t = "lit ''[\"1\", \"1\", \"room\", \"phx_reply\", {\"status\": \"ok\", \"response\": {}}]''"
  let ?decoded = "\<lparr>d_message = sample_ack, d_binary_reply_status = None\<rparr>"
  have dumps: "dumps (text_frame sample_ack ?d V2) = Inr ?t"
    by (simp add: sample_ack_def make_message_def text_frame_def text_eval)
  have "text_safe sample_ack"
    by (simp add: sample_ack_def make_message_def text_safe_def or_empty_def utf8_eval)
  then have decode: "decode_message (\<lambda>_. Inl OverflowError) (TextFrame ?t) V2 = Inr ?decoded"
    using decode_text_frame [OF dumps] by (simp add: sample_ack_def make_message_def canonical_def)
  have "deliver None (\<lambda>_. Inl OverflowError) 1 (TextFrame ?t) sample_joining = Inr sample_joined"
    using sample_control decode
    by (simp add: deliver_def route_message_def phoenix_topic_def is_stale_join_def sample_ack_def
        make_message_def str_nat_1 sample_defs Let_def)
  then have "channel_step sample_joining sample_joined"
    unfolding channel_step_def by (intro disjI2 disjI1 task_step.frame)
  then show ?thesis using sample_joining_reachable reachable.step by blast
qed

lemma sample_channel_joined: "channel_joined sample_joined 1"
  by (simp add: channel_joined_def is_registered_def is_on_current_connection_def is_connected_def
      is_current_join_ready_def join_future_def sample_defs)

end
