(* ===== verification/Channel_Properties.thy ===== *)
theory Channel_Properties
  imports Channel_Samples
begin

text \<open>What holds of every run of the channel runtime.\<close>

section \<open>States and outcomes\<close>

text \<open>
  \<open>LEFT\<close> is final. Once a channel was left, lost, refused or retired, no later step of
  any interleaving joins it again: it stays left, it never counts as joined, no push waits on it,
  and the request to leave stays set.
\<close>

lemma left_is_final:
  assumes "reachable c" "run c c'" "s < c_next c" "t_state (c_sub c s) = LEFT"
  shows "t_state (c_sub c' s) = LEFT \<and> \<not> channel_joined c' s \<and>
    t_pending_pushes (c_sub c' s) = [] \<and> t_leave_requested (c_sub c' s)"
proof -
  have "topic_progress (c_sub c s) (c_sub c' s)"
    using progressD(4) [OF run_progress [OF assms(2,1)] assms(3)] .
  then have l: "t_state (c_sub c' s) = LEFT" using assms(4) by (simp add: topic_progress_def)
  moreover have "topic_ok c' (c_sub c' s)"
    using inv_topic [OF reachable_inv [OF run_reachable [OF assms(2,1)]]] .
  ultimately show ?thesis by (simp add: topic_ok_def channel_joined_def)
qed

definition sample_left :: client where
  "sample_left = snd (leave_channel 1 None sample_joined)"

lemma sample_left_step: "channel_step sample_joined sample_left"
  unfolding channel_step_def sample_left_def by (intro disjI1 app_step.left)

lemma sample_left_reachable: "reachable sample_left"
  using sample_joined_reachable sample_left_step by (rule reachable.step)

lemma sample_left_state: "t_state (c_sub sample_left 1) = LEFT" "c_next sample_left = 5"
  by (simp_all add: sample_left_def leave_channel_def start_leave_task_def transition_channel_def
      lost_state_def recoverable_def fail_pushes_def fail_current_join_def current_join_ready_def
      fut_done_def sample_defs case_prod_beta Let_def)

lemma left_is_final_witness: "t_state (c_sub (request_stop None sample_left) 1) = LEFT"
proof -
  have "run sample_left (request_stop None sample_left)"
    by (rule run.go [OF run.stay]) (simp add: channel_step_def connection_step.stop)
  from left_is_final [OF sample_left_reachable this, of 1] show ?thesis
    using sample_left_state by (simp del: One_nat_def)
qed

text \<open>
  Claim C7: a result is delivered once. No run of the client gives a future an outcome when it has one
  already, which asyncio would answer with an \<open>InvalidStateError\<close> in the middle of a transition or
  of the routing loop: each place that settles a join, a leave or a push asks first, or comes after
  one that did. So whatever settled it - a reply, an error, a cancellation - no later step of any
  interleaving changes the outcome its caller sees.
\<close>

theorem outcome_never_changes:
  assumes "reachable c" "run c c'"
  shows "(\<forall>f. c_fut c' f \<noteq> Set_Twice) \<and>
    (\<forall>f < c_next c. c_fut c f \<noteq> Pending \<longrightarrow> c_fut c' f = c_fut c f)"
  using progressD(3) [OF run_progress [OF assms(2,1)]]
    reachable_set_once [OF run_reachable [OF assms(2,1)]] by blast

lemma outcome_never_changes_witness:
  "c_fut sample_left 2 = Result None \<and> c_fut sample_left 4 \<noteq> Set_Twice"
proof -
  have "run sample_joined sample_left" using run.go [OF run.stay sample_left_step] .
  from outcome_never_changes [OF sample_joined_reachable this] show ?thesis
    by (simp add: sample_defs)
qed

text \<open>
  A channel says it is joined only after the server accepted it: in every reachable
  state a channel in state \<open>JOINED\<close> has been established and its current join succeeded, a
  rejoining channel had been joined before, and exactly the left channels have their leave
  requested.
\<close>

lemma joined_means_accepted:
  assumes "reachable c"
  shows "(t_state (c_sub c s) = JOINED \<longrightarrow>
      t_established (c_sub c s) \<and> is_current_join_ready c s) \<and>
    (t_state (c_sub c s) = REJOINING \<longrightarrow> t_established (c_sub c s)) \<and>
    (t_leave_requested (c_sub c s) \<longleftrightarrow> t_state (c_sub c s) = LEFT)"
  using inv_topic [OF reachable_inv [OF assms], of s]
  by (auto simp: topic_ok_def is_current_join_ready_def join_future_def)

lemma joined_means_accepted_witness: "is_current_join_ready sample_joined 1"
proof -
  have "t_state (c_sub sample_joined 1) = JOINED" by (simp add: sample_defs)
  with joined_means_accepted [OF sample_joined_reachable, of 1] show ?thesis by blast
qed

section \<open>Names and references\<close>

text \<open>
  Claim C5: a topic name is freed only when its channel is really over. If a name maps to a
  channel and at some later point of any run no longer does, the channel was left and either its
  join had never been put on the wire or the server (or the loss of its connection) had ended it;
  so no second channel of that name can join while the server may still hold the first.
\<close>

theorem name_freed_when_over:
  assumes "reachable c" "run c c'" "dict_get (c_registry c) n = Some s"
    and "dict_get (c_registry c') n \<noteq> Some s"
  shows "t_state (c_sub c' s) = LEFT \<and>
    (t_join_submitted (c_sub c' s) \<longrightarrow> t_terminal_received (c_sub c' s))"
proof -
  have "s < c_next c"
    using reachable_inv [OF assms(1)] assms(3) unfolding inv_def registry_ok_def by blast
  from progressD(5) [OF run_progress [OF assms(2,1)] this assms(3)] assms(4)
  show ?thesis by (simp add: released_def)
qed

lemma sample_released:
  "dict_get (c_registry sample_left) (lit ''room'') = Some 1"
  "dict_get (c_registry (cleanup_end 1 sample_left)) (lit ''room'') = None"
  by (simp_all add: sample_left_def leave_channel_def start_leave_task_def transition_channel_def
      lost_state_def recoverable_def fail_pushes_def fail_current_join_def current_join_ready_def
      fut_done_def cleanup_end_def release_reservation_def is_registered_def sends_pending_def
      sample_defs case_prod_beta Let_def)

lemma name_freed_when_over_witness: "t_state (c_sub (cleanup_end 1 sample_left) 1) = LEFT"
proof -
  have "run sample_left (cleanup_end 1 sample_left)"
    by (rule run.go [OF run.stay]) (simp add: channel_step_def task_step.cleaned)
  from name_freed_when_over [OF sample_left_reachable this sample_released(1)] show ?thesis
    using sample_released(2) by simp
qed

text \<open>
  Claim C35: a reply has at most one addressee. In every reachable state the references a channel
  waits on - of its join, of its leave and of each pending push - are pairwise different texts
  the client generated itself, and the next reference it generates is none of them.
\<close>

theorem references_unambiguous:
  assumes "reachable c"
  shows "distinct (refs_of (c_sub c s)) \<and>
    (\<forall>r \<in> set (refs_of (c_sub c s)). \<exists>k. 1 \<le> k \<and> k \<le> c_ref_counter c \<and> r = str_nat k) \<and>
    fst (generate_ref c) \<notin> set (refs_of (c_sub c s))"
proof -
  have r: "refs_ok (c_ref_counter c) (c_sub c s)"
    using inv_topic [OF reachable_inv [OF assms]] by (simp add: topic_ok_def)
  then have "\<forall>r \<in> set (refs_of (c_sub c s)). \<exists>k. 1 \<le> k \<and> k \<le> c_ref_counter c \<and> r = str_nat k"
    unfolding refs_ok_def by auto
  with r fresh_ref [OF r] show ?thesis by (simp add: refs_ok_def)
qed

lemma references_unambiguous_witness: "fst (generate_ref sample_joined) \<notin> set (refs_of (c_sub sample_joined 1))"
  using references_unambiguous [OF sample_joined_reachable, of 1] by blast

end

