(* ===== verification/Channel_Behaviour.thy ===== *)
theory Channel_Behaviour
  imports Channel_Properties
begin

text \<open>What each message and each loss does to a channel, in any reachable state.\<close>

section \<open>Losing a channel\<close>

lemma lost_topic_sel [simp]:
  "t_state (lost_topic c t cause f) = lost_state c t cause"
  "t_pending_pushes (lost_topic c t cause f) = []"
  "t_join_ready (lost_topic c t cause f) = Some f"
  "t_name (lost_topic c t cause f) = t_name t"
  "t_established (lost_topic c t cause f) = t_established t"
  "t_cause (lost_topic c t cause f) = Some cause"
  "t_join_ref (lost_topic c t cause f) = t_join_ref t"
  "t_connection (lost_topic c t cause f) = t_connection t"
  "t_conn_generation (lost_topic c t cause f) = t_conn_generation t"
  "t_recovery_task (lost_topic c t cause f) = t_recovery_task t"
  "t_leave_task (lost_topic c t cause f) = t_leave_task t"
  "t_leave_requested (lost_topic c t cause f) = (lost_state c t cause = LEFT \<or> t_leave_requested t)"
  by (simp_all add: lost_topic_def)

lemma transition_task: "c_task (transition_channel s cause e c) = c_task c"
proof -
  have j: "c_task (snd (current_join_ready s c)) = c_task c" for c
    by (simp add: current_join_ready_def case_prod_beta split: option.split)
  have f: "c_task (fold (\<lambda>f. set_future_exception f x) fs c) = c_task c" for x fs c
    by (induction fs arbitrary: c) simp_all
  show ?thesis
    by (simp add: transition_channel_def accept_channel_def fail_pushes_def fail_current_join_def
        Let_def case_prod_beta f j)
qed

text \<open>
  Claim C8: losing a channel leaves nobody waiting. Whatever ends a join or a joined channel (a
  crash, a close, a refusal, a timeout, a lost connection, a leave, a stop), it fails the
  channel's current join and every pending push with the same error, forgets the pushes and
  touches no other channel; the channel waits for a rejoin exactly if it had been joined, the
  cause is a crash, a lost transport or a timeout, and neither a leave nor a shutdown is under
  way; otherwise it is left.
\<close>

theorem losing_settles_everything:
  assumes "reachable c" "cause \<noteq> ACCEPTED"
  shows "t_state (c_sub (transition_channel s cause (Some e) c) s) =
      (if t_established (c_sub c s) \<and> cause \<in> {CRASH, TRANSPORT, TIMEOUT} \<and>
          \<not> t_leave_requested (c_sub c s) \<and> \<not> c_shutdown c then REJOINING else LEFT) \<and>
    join_future (transition_channel s cause (Some e) c) s = Failed e \<and>
    t_pending_pushes (c_sub (transition_channel s cause (Some e) c) s) = [] \<and>
    (\<forall>f \<in> snd ` set (t_pending_pushes (c_sub c s)). c_fut c f = Pending \<longrightarrow>
       c_fut (transition_channel s cause (Some e) c) f = Failed e) \<and>
    (\<forall>x. x \<noteq> s \<longrightarrow> c_sub (transition_channel s cause (Some e) c) x = c_sub c x)"
proof -
  let ?c = "transition_channel s cause (Some e) c"
  obtain f where f: "c_sub ?c = (c_sub c)(s := lost_topic c (c_sub c s) cause f)"
    "c_fut ?c f = Failed (failure_of (Some e))"
    "\<And>g. g \<in> snd ` set (t_pending_pushes (c_sub c s)) \<Longrightarrow> c_fut c g = Pending \<Longrightarrow>
      c_fut ?c g = Failed (failure_of (Some e))"
    using transition_lost [OF assms(2) inv_topic [OF reachable_inv [OF assms(1)], of s], of "Some e"]
    by metis
  have e: "failure_of (Some e) = e" by (simp add: failure_of_def)
  have "join_future ?c s = Failed e" using f(1,2) by (simp add: join_future_def e)
  moreover have "t_state (c_sub ?c s) = lost_state c (c_sub c s) cause" using f(1) by simp
  ultimately show ?thesis
    using f(1) f(3) unfolding e lost_state_def recoverable_def by simp
qed

lemma losing_settles_everything_witness:
  "join_future (transition_channel 1 CRASH (Some TimeoutError) sample_joined) 1 = Failed TimeoutError"
  using losing_settles_everything [OF sample_joined_reachable, of CRASH 1 TimeoutError] by blast

section \<open>Losing the connection\<close>

lemma fail_unsubscribe_upd:
  "same_env c (fail_unsubscribe s e c)"
  "x \<noteq> s \<Longrightarrow> c_sub (fail_unsubscribe s e c) x = c_sub c x"
  "t_connection (c_sub (fail_unsubscribe s e c) s) = t_connection (c_sub c s)"
proof -
  obtain f c1 where c1: "unsubscribe_completed s c = (f, c1)" by force
  note u = unsubscribed_upd [OF c1] unsubscribed_env [OF c1]
  show "same_env c (fail_unsubscribe s e c)"
    using u(5) by (simp add: fail_unsubscribe_def c1 same_env_def)
  show "x \<noteq> s \<Longrightarrow> c_sub (fail_unsubscribe s e c) x = c_sub c x"
    "t_connection (c_sub (fail_unsubscribe s e c) s) = t_connection (c_sub c s)"
    by (simp_all add: fail_unsubscribe_def c1 u(2))
qed

lemma start_leave_left:
  assumes l: "t_state (c_sub c s) = LEFT"
  shows "same_env c (snd (start_leave_task s me c))"
    "x \<noteq> s \<Longrightarrow> c_sub (snd (start_leave_task s me c)) x = c_sub c x"
    "t_connection (c_sub (snd (start_leave_task s me c)) s) = t_connection (c_sub c s)"
proof -
  consider "snd (start_leave_task s me c) = c"
    | "snd (start_leave_task s me c) =
        (upd_topic s (\<lambda>t. t\<lparr>t_leave_task := Some (c_next c)\<rparr>) (snd (new_task (Leave_And_Cleanup s me) c)))
          \<lparr>c_cleanup_tasks := c_cleanup_tasks c @ [c_next c]\<rparr>"
    by (cases "t_leave_task (c_sub c s)") (simp_all add: start_leave_task_def Let_def case_prod_beta l)
  note cs = this
  show "same_env c (snd (start_leave_task s me c))"
    by (cases rule: cs) (simp_all add: same_env_def)
  show "x \<noteq> s \<Longrightarrow> c_sub (snd (start_leave_task s me c)) x = c_sub c x"
    by (cases rule: cs) simp_all
  show "t_connection (c_sub (snd (start_leave_task s me c)) s) = t_connection (c_sub c s)"
    by (cases rule: cs) simp_all
qed

lemma transition_other:
  assumes "inv c" "cause \<noteq> ACCEPTED"
  shows "x \<noteq> s \<Longrightarrow> c_sub (transition_channel s cause e c) x = c_sub c x"
    "t_connection (c_sub (transition_channel s cause e c) s) = t_connection (c_sub c s)"
    "t_state (c_sub (transition_channel s cause e c) s) = lost_state c (c_sub c s) cause"
    "t_established (c_sub (transition_channel s cause e c) s) = t_established (c_sub c s)"
    "t_name (c_sub (transition_channel s cause e c) x) = t_name (c_sub c x)"
    "c_registry (transition_channel s cause e c) = c_registry c"
    "join_future (transition_channel s cause e c) s = Failed (failure_of e)"
    "t_pending_pushes (c_sub (transition_channel s cause e c) s) = []"
proof -
  obtain f where f: "c_sub (transition_channel s cause e c) = (c_sub c)(s := lost_topic c (c_sub c s) cause f)"
    "c_fut (transition_channel s cause e c) f = Failed (failure_of e)"
    "c_registry (transition_channel s cause e c) = c_registry c"
    using transition_lost [OF assms(2) inv_topic [OF assms(1), of s], of e] by metis
  show "x \<noteq> s \<Longrightarrow> c_sub (transition_channel s cause e c) x = c_sub c x"
    "t_connection (c_sub (transition_channel s cause e c) s) = t_connection (c_sub c s)"
    "t_state (c_sub (transition_channel s cause e c) s) = lost_state c (c_sub c s) cause"
    "t_established (c_sub (transition_channel s cause e c) s) = t_established (c_sub c s)"
    "t_name (c_sub (transition_channel s cause e c) x) = t_name (c_sub c x)"
    "c_registry (transition_channel s cause e c) = c_registry c"
    "join_future (transition_channel s cause e c) s = Failed (failure_of e)"
    "t_pending_pushes (c_sub (transition_channel s cause e c) s) = []"
    using f(2,3) by (simp_all add: f(1) join_future_def)
qed

text \<open>A channel that no longer counts on the connection.\<close>

definition cut_off :: "client \<Rightarrow> sid \<Rightarrow> bool" where
  "cut_off c s \<longleftrightarrow>
     t_state (c_sub c s) = LEFT \<or>
     (t_state (c_sub c s) = REJOINING \<and> join_future c s \<noteq> Pending \<and>
      t_pending_pushes (c_sub c s) = [])"

lemma transition_lost_progress:
  "inv c \<Longrightarrow> cause \<noteq> ACCEPTED \<Longrightarrow>
   progress c (transition_channel s cause e c) \<and> inv (transition_channel s cause e c)"
  using sound_transition_lost soundD by blast

lemma fail_pending_join_effect:
  assumes i: "inv c"
  shows "same_env c (fail_pending_join me e s c) \<and>
    (\<forall>x. x \<noteq> s \<longrightarrow> c_sub (fail_pending_join me e s c) x = c_sub c x) \<and>
    t_connection (c_sub (fail_pending_join me e s c) s) = t_connection (c_sub c s) \<and>
    (s < c_next c \<and> (t_connection (c_sub c s) = None \<or> t_connection (c_sub c s) = c_connection c) \<longrightarrow>
      cut_off (fail_pending_join me e s c) s)"
proof -
  define c1 where "c1 = transition_channel s TRANSPORT (Some e) c"
  define c2 where "c2 = (if t_leave_requested (c_sub c1 s) then fail_unsubscribe s e c1 else c1)"
  define c3 where "c3 = (if t_state (c_sub c2 s) = LEFT \<and> t_leave_task (c_sub c2 s) = None
    then snd (start_leave_task s me c2) else c2)"
  have ne: "TRANSPORT \<noteq> ACCEPTED" by simp
  note t = transition_other [OF i ne, where s = s and e = "Some e", folded c1_def]
  have p1: "progress c c1" and i1: "inv c1"
    using transition_lost_progress [OF i ne] by (auto simp: c1_def)
  have e1: "same_env c c1" unfolding c1_def by (rule transition_env)
  have e2: "same_env c c2" using same_env_trans [OF e1 fail_unsubscribe_upd(1)] e1 by (simp add: c2_def)
  have e3: "same_env c c3" using same_env_trans [OF e2 start_leave_left(1)] e2 by (simp add: c3_def)
  have o3: "\<forall>x. x \<noteq> s \<longrightarrow> c_sub c3 x = c_sub c x"
    using t(1) fail_unsubscribe_upd(2) start_leave_left(2) by (simp add: c3_def c2_def)
  have n3: "t_connection (c_sub c3 s) = t_connection (c_sub c s)"
    using t(2) fail_unsubscribe_upd(3) start_leave_left(3) by (simp add: c3_def c2_def)
  have "sound c1 c2" unfolding c2_def using sound_fail_unsubscribe by auto
  moreover have "sound c2 c3" unfolding c3_def using sound_start_leave by auto
  ultimately have p13: "progress c1 c3" using i1 sound_trans soundD(1) by blast
  have cut: "cut_off c3 s" if "s < c_next c"
  proof (cases "t_state (c_sub c1 s) = LEFT")
    case True
    have "s < c_next c1" using that progressD(1) [OF p1] by simp
    then show ?thesis
      using True progressD(4) [OF p13] by (simp add: cut_off_def topic_progress_def)
  next
    case False
    then have st: "t_state (c_sub c1 s) = REJOINING" using lost_state_cases t(3) by metis
    then have "\<not> t_leave_requested (c_sub c1 s)" using inv_topic [OF i1, of s] by (simp add: topic_ok_def)
    then have "c3 = c1" using st by (simp add: c3_def c2_def)
    then show ?thesis using st t(7,8) by (simp add: cut_off_def)
  qed
  have e: "fail_pending_join me e s c =
      (if t_connection (c_sub c s) \<noteq> None \<and> t_connection (c_sub c s) \<noteq> c_connection c then c
       else if t_state (c_sub c s) = LEFT then fail_unsubscribe s e c else c3)"
    by (simp add: fail_pending_join_def Let_def c1_def c2_def c3_def)
  have l: "cut_off (fail_unsubscribe s e c) s" if "t_state (c_sub c s) = LEFT" "s < c_next c"
    using that progressD(4) [OF soundD(1) [OF sound_fail_unsubscribe i] that(2)]
    by (simp add: cut_off_def topic_progress_def)
  consider "t_connection (c_sub c s) \<noteq> None \<and> t_connection (c_sub c s) \<noteq> c_connection c"
    | "\<not> (t_connection (c_sub c s) \<noteq> None \<and> t_connection (c_sub c s) \<noteq> c_connection c)"
      "t_state (c_sub c s) = LEFT"
    | "\<not> (t_connection (c_sub c s) \<noteq> None \<and> t_connection (c_sub c s) \<noteq> c_connection c)"
      "t_state (c_sub c s) \<noteq> LEFT" by blast
  then show ?thesis
  proof cases
    case 1
    then show ?thesis unfolding e by auto
  next
    case 2
    then have f: "fail_pending_join me e s c = fail_unsubscribe s e c" unfolding e by argo
    show ?thesis unfolding f using fail_unsubscribe_upd l 2(2) by simp
  next
    case 3
    then have f: "fail_pending_join me e s c = c3" unfolding e by argo
    show ?thesis unfolding f using e3 o3 n3 cut by simp
  qed
qed

lemma cut_off_keep:
  assumes "inv c" "progress c c'" "c_sub c' x = c_sub c x" "cut_off c x"
  shows "cut_off c' x"
proof -
  have "join_future c' x \<noteq> Pending" if j: "join_future c x \<noteq> Pending"
  proof -
    obtain f where f: "t_join_ready (c_sub c x) = Some f" "c_fut c f \<noteq> Pending"
      using j by (auto simp: join_future_def split: option.splits)
    have "f < c_next c" using inv_topic [OF assms(1), of x] f(1) by (simp add: topic_ok_def)
    from progressD(3) [OF assms(2) this f(2)] f assms(3) show ?thesis by (simp add: join_future_def)
  qed
  with assms(3,4) show ?thesis by (auto simp: cut_off_def)
qed

lemma fail_pending_joins_effect:
  assumes "inv c" "\<forall>s \<in> set ss. s < c_next c"
  shows "same_env c (fold (fail_pending_join me e) ss c) \<and>
    (\<forall>x. t_connection (c_sub (fold (fail_pending_join me e) ss c) x) = t_connection (c_sub c x)) \<and>
    (\<forall>x \<in> set ss. t_connection (c_sub c x) = None \<or> t_connection (c_sub c x) = c_connection c \<longrightarrow>
      cut_off (fold (fail_pending_join me e) ss c) x)"
  using assms
proof (induction ss rule: rev_induct)
  case (snoc s ss)
  define c1 where "c1 = fold (fail_pending_join me e) ss c"
  have c': "fold (fail_pending_join me e) (ss @ [s]) c = fail_pending_join me e s c1"
    by (simp add: c1_def)
  have s1: "sound c c1" unfolding c1_def by (rule sound_fold) (rule sound_fail_pending_join)
  then have i1: "inv c1" and n1: "c_next c \<le> c_next c1"
    using snoc.prems(1) soundD progressD(1) by blast+
  have p: "progress c1 (fail_pending_join me e s c1)"
    using soundD(1) [OF sound_fail_pending_join i1] .
  from snoc have IH: "same_env c c1" "\<And>x. t_connection (c_sub c1 x) = t_connection (c_sub c x)"
    "\<And>x. x \<in> set ss \<Longrightarrow> t_connection (c_sub c x) = None \<or> t_connection (c_sub c x) = c_connection c \<Longrightarrow>
      cut_off c1 x"
    by (auto simp: c1_def)
  note e = fail_pending_join_effect [OF i1, of me e s]
  have env: "same_env c (fail_pending_join me e s c1)" using same_env_trans [OF IH(1)] e by blast
  have con: "t_connection (c_sub (fail_pending_join me e s c1) x) = t_connection (c_sub c x)" for x
    using e IH(2) by (cases "x = s") auto
  have "cut_off (fail_pending_join me e s c1) x"
    if x: "x \<in> set (ss @ [s])" "t_connection (c_sub c x) = None \<or> t_connection (c_sub c x) = c_connection c" for x
  proof (cases "x = s")
    case True
    have "s < c_next c1" using snoc.prems(2) n1 by auto
    moreover have "c_connection c1 = c_connection c" using IH(1) by (simp add: same_env_def)
    ultimately show ?thesis using e x(2) IH(2) True by metis
  next
    case False
    with x have "cut_off c1 x" using IH(3) by simp
    then show ?thesis using cut_off_keep [OF i1 p] e False by blast
  qed
  then show ?case using env con unfolding c' by blast
qed simp

lemma registered_allocated: "inv c \<Longrightarrow> \<forall>s \<in> set (dict_values (c_registry c)). s < c_next c"
  by (auto simp: inv_def registry_ok_def simp del: map_of_eq_Some_iff dest: map_of_is_SomeI)

text \<open>
  Claim C9: a lost connection takes all of its channels down at once. After
  \<open>_fail_pending_joins\<close> every registered channel of the current connection is left, or waits for a
  rejoin with its join's outcome settled and no push pending; no channel of that connection still
  looks joined.
\<close>

theorem lost_connection_cuts_all:
  assumes "reachable c" "(n, s) \<in> set (c_registry c)"
    and "t_connection (c_sub c s) = c_connection c"
  shows "cut_off (fail_pending_joins me e c) s \<and> \<not> channel_joined (fail_pending_joins me e c) s"
proof -
  note i = reachable_inv [OF assms(1)]
  have "s \<in> set (dict_values (c_registry c))" using assms(2) by force
  with fail_pending_joins_effect [OF i registered_allocated [OF i], of me e] assms(3)
  have "cut_off (fail_pending_joins me e c) s" unfolding fail_pending_joins_def by blast
  then show ?thesis by (auto simp: cut_off_def channel_joined_def)
qed

lemma lost_connection_cuts_all_witness:
  "\<not> channel_joined (fail_pending_joins None TimeoutError sample_joined) 1"
proof -
  have "(lit ''room'', 1) \<in> set (c_registry sample_joined)"
    "t_connection (c_sub sample_joined 1) = c_connection sample_joined"
    by (simp_all add: sample_defs)
  from lost_connection_cuts_all [OF sample_joined_reachable this] show ?thesis by blast
qed

end
