(* ===== verification/Channel_Messages.thy ===== *)
theory Channel_Messages
  imports Channel_Behaviour
begin

text \<open>What the server's messages do to a channel, in any reachable state.\<close>

section \<open>Where a reply goes\<close>

lemma reply_not_lifecycle: "event_is e SysReply \<Longrightarrow> \<not> client_lifecycle e"
  by (auto simp: client_lifecycle_def event_is_def)

lemma lifecycle_not_reply: "client_lifecycle e \<Longrightarrow> \<not> event_is e SysReply"
  using reply_not_lifecycle by blast

lemma inv_refs: "inv c \<Longrightarrow> refs_ok (c_ref_counter c) (c_sub c s)"
  using inv_topic [of c s] by (simp add: topic_ok_def)

lemma leave_ref_other:
  assumes "inv c"
  shows "t_leave_ref (c_sub c s) \<noteq> Some (t_join_ref (c_sub c s))"
proof
  assume l: "t_leave_ref (c_sub c s) = Some (t_join_ref (c_sub c s))"
  have r: "refs_ok (c_ref_counter c) (c_sub c s)" using assms by (rule inv_refs)
  show False
  proof (cases "t_join_ref (c_sub c s) = []")
    case True
    with l have "[] \<in> set (refs_of (c_sub c s))" by (simp add: refs_of_def)
    with r have "[] \<in> str_nat ` {1..c_ref_counter c}"
      unfolding refs_ok_def by blast
    then show False using str_nat_nonempty by (metis imageE)
  next
    case False
    with l r show False by (simp add: refs_ok_def refs_of_def)
  qed
qed

lemma pending_ref:
  assumes "inv c" "dict_get (t_pending_pushes (c_sub c s)) r = Some f"
  shows "r \<noteq> []" "r \<noteq> t_join_ref (c_sub c s)" "t_leave_ref (c_sub c s) \<noteq> Some r"
proof -
  have k: "r \<in> set (map fst (t_pending_pushes (c_sub c s)))"
    using map_of_SomeD [OF assms(2)] by force
  have ok: "refs_ok (c_ref_counter c) (c_sub c s)" using assms(1) by (rule inv_refs)
  then have "r \<in> str_nat ` {1..c_ref_counter c}"
    using k unfolding refs_ok_def refs_of_def by (auto simp del: set_map)
  then show ne: "r \<noteq> []" by auto
  show "r \<noteq> t_join_ref (c_sub c s)" "t_leave_ref (c_sub c s) \<noteq> Some r"
    using ok k ne by (auto simp: refs_ok_def refs_of_def simp del: set_map)
qed

text \<open>
  Claim C33: a reply settles exactly the push it answers. When a reply with the reference of a
  pending push arrives on the push's channel, the push's outcome becomes that reply, or a channel
  error when it is malformed; the push is forgotten, and no other outcome, push or channel
  changes.
\<close>

theorem push_reply_settles_push:
  assumes "reachable c" "is_registered c s" "is_on_current_connection c s"
    and "event_is (m_event m) SysReply" "m_ref m = Some r"
    and "dict_get (t_pending_pushes (c_sub c s)) r = Some f" "c_fut c f = Pending"
  shows "\<exists>c'. handle_channel_control me s m status c = (True, c') \<and>
    c_fut c' = (c_fut c)(f := (case reply_from_message m status of
        Inr x \<Rightarrow> Result (Some x) | Inl _ \<Rightarrow> Failed malformed_push_reply)) \<and>
    t_pending_pushes (c_sub c' s) = dict_pop r (t_pending_pushes (c_sub c s)) \<and>
    (\<forall>x. x \<noteq> s \<longrightarrow> c_sub c' x = c_sub c x) \<and> c_registry c' = c_registry c"
proof -
  note i = reachable_inv [OF assms(1)]
  note r = pending_ref [OF i assms(6)]
  have n: "t_join_ref (c_sub c s) \<noteq> r" using r(2) by simp
  show ?thesis
    using assms(2-7) r n reply_not_lifecycle [OF assms(4)]
    by (auto simp: handle_channel_control_def resolve_push_reply_def Let_def settle_push_def
        fut_done_def split: sum.split)
qed

text \<open>What taking a session leaves alone, and that a new session has no operation.\<close>

lemma session_for_upd:
  assumes "session_for conn c = (ss, c1)"
  shows "c_sub c1 = c_sub c" "c_fut c1 = c_fut c" "c_task c1 = c_task c" "c_sent c1 = c_sent c"
    "c_registry c1 = c_registry c" "c_connection c1 = c_connection c" "c_state c1 = c_state c"
    "c_generation c1 = c_generation c" "c_version c1 = c_version c" "c_shutdown c1 = c_shutdown c"
    "(\<forall>x. operation c x f = None) \<Longrightarrow> operation c1 ss f = None"
    "c_ref_counter c1 = c_ref_counter c"
  using assms
  by (auto simp: session_for_def operation_def new_session_def split: option.splits if_splits)

lemma str_nat_2: "str_nat 2 = lit ''2''" "str_nat (Suc 1) = lit ''2''"
  by (subst str_nat.simps, simp add: lit_def)+

text \<open>A push that passes its checks: the frame is with a send task of its own.\<close>

definition live_session :: "client \<Rightarrow> ssid \<Rightarrow> bool" where
  "live_session c ss \<longleftrightarrow>
     session_current c ss \<and> \<not> s_retired (c_sess c ss) \<and> \<not> s_failed (c_sess c ss)"

lemma session_for_live:
  assumes "session_for conn c = (ss, c1)" "c_send_session c = None" "c_connection c = Some conn"
  shows "live_session c1 ss"
  using assms by (auto simp: session_for_def live_session_def session_current_def new_session_def)

lemma push_begin_admitted:
  fixes c :: client
  defines "ref \<equiv> str_nat (c_ref_counter c + 1)" and "f \<equiv> c_next c"
  assumes "reachable c" "channel_joined c s" "t_connection (c_sub c s) = Some conn"
    and "c_connection c = Some conn" "\<forall>ss. operation c ss f = None"
    and "\<not> bad_timeout timeout" "require_payload value = Inr p"
    and "application_event e (t_name (c_sub c s))"
    and "encode_message (make_message e (t_name (c_sub c s)) (Some ref) (Some p)
      (Some (t_join_ref (c_sub c s)))) (c_version c) = Inr frame"
  shows "\<exists>ss k c'. push_begin s e value timeout c = (Inr (ref, f), c') \<and>
    t_pending_pushes (c_sub c' s) = t_pending_pushes (c_sub c s) @ [(ref, f)] \<and>
    c_fut c' f = Pending \<and>
    c_task c' k = \<lparr>k_work = Send_Frame ss f \<lparr>q_topic = s, q_event = m_event (make_message e [] None None None),
      q_join_ref = Some (t_join_ref (c_sub c s)), q_connection = conn, q_frame = frame\<rparr>,
      k_done = False, k_cancel = False\<rparr> \<and>
    c_sent c' = c_sent c \<and> channel_joined c' s \<and>
    (\<forall>x. x \<noteq> s \<longrightarrow> c_sub c' x = c_sub c x) \<and>
    (c_send_session c = None \<longrightarrow> live_session c' ss) \<and>
    (\<not> c_shutdown c \<longrightarrow> eligible \<lparr>q_topic = s, q_event = m_event (make_message e [] None None None),
      q_join_ref = Some (t_join_ref (c_sub c s)), q_connection = conn, q_frame = frame\<rparr> c')"
proof -
  let ?m = "make_message e (t_name (c_sub c s)) (Some ref) (Some p) (Some (t_join_ref (c_sub c s)))"
  note i = reachable_inv [OF assms(3)]
  have refs: "refs_ok (c_ref_counter c) (c_sub c s)" using i by (rule inv_refs)
  have "ref \<notin> str_nat ` {1..c_ref_counter c}" by (auto simp: ref_def)
  then have new: "ref \<notin> fst ` set (t_pending_pushes (c_sub c s))"
    using refs unfolding refs_ok_def refs_of_def by auto
  define c1 where "c1 = upd_topic s (\<lambda>t. t\<lparr>t_pending_pushes := t_pending_pushes t @ [(ref, f)]\<rparr>)
    (snd (new_future (snd (generate_ref c))))"
  obtain ss c2 where ses: "session_for conn c1 = (ss, c2)" by force
  note u = session_for_upd [OF ses]
  have op: "operation c2 ss f = None"
    using u(11) assms(7) by (simp add: c1_def operation_def)
  define c3 where "c3 = upd_topic s (\<lambda>t. t\<lparr>t_send_session := Some ss,
    t_send_outcomes := List.insert f (filter (has_pending c2 ss) (t_send_outcomes (c_sub c2 s)))\<rparr>) c2"
  define q where "q = \<lparr>q_topic = s, q_event = m_event ?m, q_join_ref = m_join_ref ?m,
    q_connection = conn, q_frame = frame\<rparr>"
  define c4 where "c4 = set_operation ss f \<lparr>o_timeout_error = push_timeout, o_task = c_next c3,
    o_timer = True, o_submitted = False\<rparr> (snd (new_task (Send_Frame ss f q) c3))"
  have f3: "c_fut c3 f = Pending" "operation c3 ss f = None"
    using op by (simp_all add: c3_def u c1_def f_def operation_def)
  have "send_begin ss f q timeout push_timeout c3 = Inr c4"
    using assms(8) f3 by (simp add: send_begin_def fut_done_def c4_def new_task_def Let_def)
  then have "send_channel_operation s ?m f timeout push_timeout c1 = (None, c4)"
    using assms(5,6,11) ses
    by (simp add: send_channel_operation_def c1_def q_def c3_def u Let_def)
  moreover have "c1 = upd_topic s (\<lambda>t. t\<lparr>t_pending_pushes := dict_set ref f (t_pending_pushes t)\<rparr>)
      (snd (new_future (snd (generate_ref c))))"
    using new by (simp add: c1_def upd_topic_def dict_set_new)
  ultimately have "push_begin s e value timeout c = (Inr (ref, f), c4)"
    using assms(4,8-10) by (simp add: push_begin_def case_prod_beta Let_def ref_def f_def)
  moreover have "c_task c4 (c_next c3) = \<lparr>k_work = Send_Frame ss f q, k_done = False, k_cancel = False\<rparr>"
    by (simp add: c4_def set_operation_def)
  moreover have "c_fut c4 f = Pending" "c_sent c4 = c_sent c"
    "t_pending_pushes (c_sub c4 s) = t_pending_pushes (c_sub c s) @ [(ref, f)]"
    "\<forall>x. x \<noteq> s \<longrightarrow> c_sub c4 x = c_sub c x"
    by (simp_all add: c4_def set_operation_def c3_def u c1_def f_def)
  moreover have "channel_joined c4 s"
  proof -
    obtain g where g: "t_join_ready (c_sub c s) = Some g" "c_fut c g \<noteq> Pending"
      using assms(4) by (auto simp: channel_joined_def is_current_join_ready_def join_future_def
          split: option.splits fut.splits)
    have "g < c_next c" using inv_topic [OF i, of s] g(1) by (simp add: topic_ok_def)
    then show ?thesis
      using assms(4) g
      by (simp add: channel_joined_def is_registered_def is_on_current_connection_def is_connected_def
          is_current_join_ready_def join_future_def c4_def set_operation_def c3_def u c1_def)
  qed
  moreover have "live_session c4 ss" if "c_send_session c = None"
  proof -
    have "live_session c2 ss"
      by (rule session_for_live [OF ses]) (use that assms(6) in \<open>simp_all add: c1_def\<close>)
    then show ?thesis by (simp add: live_session_def session_current_def c4_def set_operation_def c3_def)
  qed
  moreover have "eligible q c4" if "\<not> c_shutdown c"
    using \<open>channel_joined c4 s\<close> that assms(6)
    by (simp add: eligible_def channel_joined_def)
      (simp add: q_def make_message_def c4_def set_operation_def c3_def u c1_def)
  ultimately show ?thesis
    unfolding q_def by (intro exI [of _ ss] exI [of _ "c_next c3"] exI [of _ c4])
      (simp add: make_message_def)
qed

definition sample_pushed :: client where
  "sample_pushed = snd (push_begin 1 (Custom (lit ''say'')) (VDict []) (Fin 5) sample_joined)"

lemma sample_pushed_reachable: "reachable sample_pushed"
  unfolding sample_pushed_def
  by (rule reachable.step [OF sample_joined_reachable])
    (simp add: channel_step_def app_step.pushed)

lemma sample_joined_facts:
  "t_name (c_sub sample_joined 1) = lit ''room''" "t_join_ref (c_sub sample_joined 1) = lit ''1''"
  "c_connection sample_joined = Some 0" "t_connection (c_sub sample_joined 1) = Some 0"
  "c_version sample_joined = V2" "c_ref_counter sample_joined = 1" "c_next sample_joined = 3"
  "t_pending_pushes (c_sub sample_joined 1) = []" "c_sent sample_joined = []"
  "operation sample_joined ss f = None" "c_send_session sample_joined = None" "\<not> c_shutdown sample_joined"
  by (simp_all add: sample_defs str_nat_1 operation_def new_session_def)

lemma sample_push_ok:
  "\<not> bad_timeout (Fin 5)" "application_event (Custom (lit ''say'')) (lit ''room'')"
  by (simp_all add: bad_timeout_def isfinite_def float_le_def application_event_def
      system_events_def event_is_def heartbeat_event_def phoenix_topic_def)

lemma sample_push_encodes:
  obtains frame where "encode_message (make_message (Custom (lit ''say'')) (lit ''room'')
    (Some (lit ''2'')) (Some (PDict [])) (Some (lit ''1''))) V2 = Inr frame"
proof -
  let ?m = "make_message (Custom (lit ''say'')) (lit ''room'') (Some (lit ''2'')) (Some (PDict [])) (Some (lit ''1''))"
  have "\<exists>t. dumps (text_frame ?m [] V2) = Inr t"
    by (simp add: make_message_def text_frame_def text_eval)
  then show ?thesis using that by (auto simp: encode_message_def dumps_checked_def make_message_def)
qed

lemmas sample_push_eval = sample_joined_facts sample_push_ok str_nat_2

lemma sample_pushed_facts:
  "is_registered sample_pushed 1" "is_on_current_connection sample_pushed 1"
  "t_pending_pushes (c_sub sample_pushed 1) = [(lit ''2'', 3)]" "c_fut sample_pushed 3 = Pending"
  "fst (push_begin 1 (Custom (lit ''say'')) (VDict []) (Fin 5) sample_joined) = Inr (lit ''2'', 3)"
  "\<exists>ss k q. k_work (c_task sample_pushed k) = Send_Frame ss 3 q \<and> \<not> task_done sample_pushed k \<and>
    live_session sample_pushed ss \<and> eligible q sample_pushed"
proof -
  obtain frame where fr: "encode_message (make_message (Custom (lit ''say'')) (lit ''room'')
    (Some (lit ''2'')) (Some (PDict [])) (Some (lit ''1''))) V2 = Inr frame"
    by (rule sample_push_encodes)
  obtain c' ss k q where p: "push_begin 1 (Custom (lit ''say'')) (VDict []) (Fin 5) sample_joined =
      (Inr (lit ''2'', 3), c')" "t_pending_pushes (c_sub c' 1) = [(lit ''2'', 3)]"
    "c_fut c' 3 = Pending" "channel_joined c' 1"
    "c_task c' k = \<lparr>k_work = Send_Frame ss 3 q, k_done = False, k_cancel = False\<rparr>" "live_session c' ss" "eligible q c'"
    using push_begin_admitted [OF sample_joined_reachable sample_channel_joined
      sample_joined_facts(4,3) _ sample_push_ok(1), of "VDict []" "PDict []" "Custom (lit ''say'')" frame] fr
    by (simp add: sample_push_eval del: One_nat_def) blast
  then have "c' = sample_pushed" by (simp add: sample_pushed_def)
  with p show "is_registered sample_pushed 1" "is_on_current_connection sample_pushed 1"
    "t_pending_pushes (c_sub sample_pushed 1) = [(lit ''2'', 3)]" "c_fut sample_pushed 3 = Pending"
    "fst (push_begin 1 (Custom (lit ''say'')) (VDict []) (Fin 5) sample_joined) = Inr (lit ''2'', 3)"
    by (simp_all add: channel_joined_def)
  show "\<exists>ss k q. k_work (c_task sample_pushed k) = Send_Frame ss 3 q \<and> \<not> task_done sample_pushed k \<and>
      live_session sample_pushed ss \<and> eligible q sample_pushed"
    by (rule exI [of _ ss], rule exI [of _ k], rule exI [of _ q])
      (use p(5-7) in \<open>simp add: task_done_def \<open>c' = sample_pushed\<close>\<close>)
qed

text \<open>
  A push goes out as its caller asked for it. On a joined channel, with a usable deadline,
  a payload, an application event and an encodable frame, \<open>push\<close> waits on a new future under a
  reference no operation of the client has, and a send task holds the frame, encoded with that
  reference and the channel's current join; nothing has been sent yet, and no other channel has
  changed.
\<close>

lemma push_is_admitted:
  fixes c :: client
  defines "ref \<equiv> str_nat (c_ref_counter c + 1)" and "f \<equiv> c_next c"
  assumes "reachable c" "channel_joined c s" "t_connection (c_sub c s) = Some conn"
    and "c_connection c = Some conn" "\<forall>ss. operation c ss f = None"
    and "\<not> bad_timeout timeout" "require_payload value = Inr p"
    and "application_event e (t_name (c_sub c s))"
    and "encode_message (make_message e (t_name (c_sub c s)) (Some ref) (Some p)
      (Some (t_join_ref (c_sub c s)))) (c_version c) = Inr frame"
  shows "\<exists>ss k c'. push_begin s e value timeout c = (Inr (ref, f), c') \<and>
    t_pending_pushes (c_sub c' s) = t_pending_pushes (c_sub c s) @ [(ref, f)] \<and>
    c_fut c' f = Pending \<and>
    c_task c' k = \<lparr>k_work = Send_Frame ss f \<lparr>q_topic = s, q_event = m_event (make_message e [] None None None),
      q_join_ref = Some (t_join_ref (c_sub c s)), q_connection = conn, q_frame = frame\<rparr>,
      k_done = False, k_cancel = False\<rparr> \<and>
    c_sent c' = c_sent c \<and> channel_joined c' s \<and>
    (\<forall>x. x \<noteq> s \<longrightarrow> c_sub c' x = c_sub c x)"
  unfolding ref_def f_def
  using push_begin_admitted [OF assms(3-11) [unfolded ref_def f_def]] by blast

lemma push_is_admitted_witness:
  "\<exists>c'. push_begin 1 (Custom (lit ''say'')) (VDict []) (Fin 5) sample_joined = (Inr (lit ''2'', 3), c') \<and>
    t_pending_pushes (c_sub c' 1) = [(lit ''2'', 3)] \<and> c_sent c' = []"
proof -
  obtain frame where fr: "encode_message (make_message (Custom (lit ''say'')) (lit ''room'')
    (Some (lit ''2'')) (Some (PDict [])) (Some (lit ''1''))) V2 = Inr frame"
    by (rule sample_push_encodes)
  show ?thesis
    using push_is_admitted [OF sample_joined_reachable sample_channel_joined
      sample_joined_facts(4,3) _ sample_push_ok(1), of "VDict []" "PDict []" "Custom (lit ''say'')" frame] fr
    by (simp add: sample_push_eval del: One_nat_def) blast
qed

lemma push_reply_settles_push_witness:
  "\<exists>c'. handle_channel_control None 1 (make_message (System SysReply) (lit ''room'') (Some (lit ''2''))
      (Some (PDict [(lit ''status'', JStr (lit ''ok'')), (lit ''response'', JDict [])])) (Some (lit ''1'')))
      None sample_pushed = (True, c') \<and> t_pending_pushes (c_sub c' 1) = []"
  using push_reply_settles_push [OF sample_pushed_reachable sample_pushed_facts(1,2), of
      "make_message (System SysReply) (lit ''room'') (Some (lit ''2''))
        (Some (PDict [(lit ''status'', JStr (lit ''ok'')), (lit ''response'', JDict [])])) (Some (lit ''1''))"
      "lit ''2''" 3 None None] sample_pushed_facts(3,4)
  by (auto simp: make_message_def event_is_def)

text \<open>
  Claim C34: an accepted join makes the channel usable. When the server acknowledges the join a
  channel is waiting for and the application's hook accepts the response, the channel counts as
  joined from that moment, the join's caller gets its result, and the topic name, the other
  channels and every pending push stay as they were.
\<close>

theorem acknowledged_join_is_joined:
  assumes "reachable c" "is_registered c s" "is_on_current_connection c s"
    and "event_is (m_event m) SysReply" "m_ref m = Some (t_join_ref (c_sub c s))"
    and "join_future c s = Pending" "\<not> t_leave_requested (c_sub c s)" "\<not> c_shutdown c"
    and "m_payload m = PDict p" "status_is (PDict p) ''ok''"
    and "install_join_response (c_sub c s)
      (case dict_get p (lit ''response'') of None \<Rightarrow> JNull | Some j \<Rightarrow> j) = Inr ()"
  shows "\<exists>c'. handle_channel_control me s m status c = (True, c') \<and> channel_joined c' s \<and>
    join_future c' s = Result None \<and> c_registry c' = c_registry c \<and>
    t_pending_pushes (c_sub c' s) = t_pending_pushes (c_sub c s) \<and>
    (\<forall>x. x \<noteq> s \<longrightarrow> c_sub c' x = c_sub c x)"
proof -
  note i = reachable_inv [OF assms(1)]
  note t = inv_topic [OF i, of s]
  define c1 where "c1 = upd_topic s (\<lambda>t. t\<lparr>t_cause := Some ACCEPTED\<rparr>) c"
  have h: "handle_channel_control me s m status c = (True, accept_channel s c1)"
    using assms(2-11) leave_ref_other [OF i, of s] reply_not_lifecycle [OF assms(4)]
    by (auto simp: handle_channel_control_def handle_join_response_mode_def fut_done_def
        join_accepted_def set_subscription_ready_def transition_channel_def c1_def Let_def)
  have "\<not> (t_state (c_sub c1 s) = LEFT \<or> t_leave_requested (c_sub c1 s))"
    using assms(7) t by (simp add: c1_def topic_ok_def)
  moreover have "\<And>g. t_join_ready (c_sub c1 s) = Some g \<Longrightarrow> g < c_next c1"
    using t by (simp add: c1_def topic_ok_def)
  moreover have "join_future c1 s = Pending" using assms(6) by (simp add: c1_def)
  ultimately obtain f where f: "c_sub (accept_channel s c1) = (c_sub c1)(s := (c_sub c1 s)
      \<lparr>t_state := JOINED, t_established := True, t_join_ready := Some f\<rparr>)"
    "c_fut (accept_channel s c1) f = Result None" "c_registry (accept_channel s c1) = c_registry c1"
    using accept_channel_upd by metis
  have e: "same_env c (accept_channel s c1)"
    using transition_env [of c s ACCEPTED None] by (simp add: transition_channel_def c1_def)
  have j: "join_future (accept_channel s c1) s = Result None"
    using f(1,2) by (simp add: join_future_def)
  have "channel_joined (accept_channel s c1) s"
    using assms(2,3,7) f e j
    by (simp add: channel_joined_def is_registered_def is_on_current_connection_def
        is_connected_def is_current_join_ready_def same_env_def c1_def)
  with h j f show ?thesis by (simp add: c1_def)
qed

lemma sample_joining_facts:
  "is_registered sample_joining 1" "is_on_current_connection sample_joining 1"
  "join_future sample_joining 1 = Pending" "\<not> t_leave_requested (c_sub sample_joining 1)"
  "\<not> c_shutdown sample_joining" "t_join_ref (c_sub sample_joining 1) = lit ''1''"
  "t_on_join_response (c_sub sample_joining 1) = None"
  by (simp_all add: is_registered_def is_on_current_connection_def is_connected_def
      join_future_def str_nat_1 sample_defs)

lemma acknowledged_join_is_joined_witness:
  "\<exists>c'. handle_channel_control None 1 sample_ack None sample_joining = (True, c') \<and> channel_joined c' 1"
proof -
  let ?p = "[(lit ''status'', JStr (lit ''ok'')), (lit ''response'', JDict [])]"
  have "event_is (m_event sample_ack) SysReply"
    "m_ref sample_ack = Some (t_join_ref (c_sub sample_joining 1))" "m_payload sample_ack = PDict ?p"
    "status_is (PDict ?p) ''ok''"
    by (simp_all add: sample_ack_def make_message_def event_is_def status_is_def sample_joining_facts
        del: One_nat_def)
  from acknowledged_join_is_joined [OF sample_joining_reachable sample_joining_facts(1,2)
      this(1,2) sample_joining_facts(3,4,5) this(3,4), of None None]
  show ?thesis
    by (simp add: install_join_response_def sample_joining_facts del: One_nat_def) blast
qed

definition sample_refusal :: message where
  "sample_refusal = make_message (System SysReply) (lit ''room'') (Some (lit ''1''))
     (Some (PDict [(lit ''status'', JStr (lit ''error'')),
       (lit ''response'', JDict [(lit ''reason'', JStr (lit ''no''))])]))
     (Some (lit ''1''))"

text \<open>
  A refused join ends the channel and says why. When the server refuses the join a
  channel is waiting for, the join's caller gets a channel error with the server's reason, the
  channel is left for good, and its name stays reserved until the cleanup has run.
\<close>

lemma refused_join_is_left:
  assumes "reachable c" "is_registered c s" "is_on_current_connection c s"
    and "event_is (m_event m) SysReply" "m_ref m = Some (t_join_ref (c_sub c s))"
    and "join_future c s = Pending" "\<not> t_leave_requested (c_sub c s)" "\<not> c_shutdown c"
    and "m_payload m = PDict p" "\<not> status_is (PDict p) ''ok''"
  shows "\<exists>c'. handle_channel_control me s m status c = (True, c') \<and>
    t_state (c_sub c' s) = LEFT \<and> t_cause (c_sub c' s) = Some REJECTED \<and>
    join_future c' s = Failed (ChannelError (refusal_reason (c_str c) p)) \<and>
    t_terminal_received (c_sub c' s) \<and> is_registered c' s"
proof -
  note i = reachable_inv [OF assms(1)]
  let ?e = "Some (ChannelError (refusal_reason (c_str c) p))"
  define c1 where "c1 = upd_topic s (\<lambda>t. t\<lparr>t_terminal_received := True\<rparr>) c"
  have h: "handle_channel_control me s m status c = (True, transition_channel s REJECTED ?e c1)"
    using assms(2-10) leave_ref_other [OF i, of s] reply_not_lifecycle [OF assms(4)]
    by (auto simp: handle_channel_control_def handle_join_response_mode_def fut_done_def
        join_rejected_def c1_def Let_def)
  have i1: "inv c1" unfolding c1_def using soundD(2) [OF sound_benign(1) i] .
  have ne: "REJECTED \<noteq> ACCEPTED" by simp
  obtain f where f: "c_sub (transition_channel s REJECTED ?e c1) =
      (c_sub c1)(s := lost_topic c1 (c_sub c1 s) REJECTED f)"
    "c_fut (transition_channel s REJECTED ?e c1) f = Failed (failure_of ?e)"
    "c_registry (transition_channel s REJECTED ?e c1) = c_registry c1"
    using transition_lost [OF ne inv_topic [OF i1, of s], of ?e] by metis
  have "lost_state c1 (c_sub c1 s) REJECTED = LEFT" by (simp add: lost_state_def recoverable_def)
  moreover have "t_terminal_received (lost_topic c1 (c_sub c1 s) REJECTED f)"
    by (simp add: lost_topic_def c1_def)
  ultimately show ?thesis
    using h f assms(2) by (simp add: join_future_def failure_of_def is_registered_def c1_def)
qed

lemma refused_join_is_left_witness:
  "\<exists>c'. handle_channel_control None 1 sample_refusal None sample_joining = (True, c') \<and>
    join_future c' 1 = Failed (ChannelError (lit ''no''))"
proof -
  let ?p = "[(lit ''status'', JStr (lit ''error'')),
    (lit ''response'', JDict [(lit ''reason'', JStr (lit ''no''))])]"
  have "event_is (m_event sample_refusal) SysReply"
    "m_ref sample_refusal = Some (t_join_ref (c_sub sample_joining 1))"
    "m_payload sample_refusal = PDict ?p" "\<not> status_is (PDict ?p) ''ok''"
    by (simp_all add: sample_refusal_def make_message_def event_is_def status_is_def sample_joining_facts
        del: One_nat_def)
  from refused_join_is_left [OF sample_joining_reachable sample_joining_facts(1,2)
      this(1,2) sample_joining_facts(3,4,5) this(3,4), of None None]
  show ?thesis by (auto simp: refusal_reason_def)
qed

end
