(* ===== verification/Channel_Recovery.thy ===== *)
theory Channel_Recovery
  imports Channel_Messages
begin

text \<open>
  Crashes, closes, rejoins, sends and stops, in any reachable state; and the phases every channel
  goes through, as an abstract machine the runtime refines.
\<close>

section \<open>A crash and a close\<close>

lemma control_lifecycle:
  assumes "is_registered c s" "is_on_current_connection c s" "client_lifecycle (m_event m)"
  shows "handle_channel_control me s m status c = (True, handle_channel_lifecycle me s m c)"
  using assms by (simp add: handle_channel_control_def Let_def)

lemma error_not_close: "event_is e SysClose \<Longrightarrow> \<not> event_is e SysError"
  by (auto simp: event_is_def)

lemma transition_lifecycle_tasks:
  "c_lifecycle_tasks (transition_channel s cause e c) = c_lifecycle_tasks c"
proof -
  have j: "c_lifecycle_tasks (snd (current_join_ready s c)) = c_lifecycle_tasks c" for c
    by (simp add: current_join_ready_def case_prod_beta split: option.split)
  have f: "c_lifecycle_tasks (fold (\<lambda>f. set_future_exception f x) fs c) = c_lifecycle_tasks c" for x fs c
    by (induction fs arbitrary: c) simp_all
  show ?thesis
    by (simp add: transition_channel_def accept_channel_def fail_pushes_def fail_current_join_def
        Let_def case_prod_beta f j)
qed

text \<open>The channel after the crash or the close was noted.\<close>

lemma lifecycle_transition:
  fixes s :: sid and e :: exn
  assumes "inv c" "cause \<noteq> ACCEPTED"
  defines "c2 \<equiv> transition_channel s cause (Some e) (upd_topic s (\<lambda>t. t\<lparr>t_terminal_received := True\<rparr>) c)"
  shows "t_state (c_sub c2 s) = lost_state c (c_sub c s) cause"
    "t_established (c_sub c2 s) = t_established (c_sub c s)"
    "t_name (c_sub c2 s) = t_name (c_sub c s)" "c_registry c2 = c_registry c"
    "join_future c2 s = Failed e" "t_pending_pushes (c_sub c2 s) = []"
    "same_env c c2" "c_task c2 = c_task c"
    "t_conn_generation (c_sub c2 s) = t_conn_generation (c_sub c s)"
    "t_recovery_task (c_sub c2 s) = t_recovery_task (c_sub c s)"
    "t_leave_requested (c_sub c2 s) \<longleftrightarrow> t_state (c_sub c2 s) = LEFT"
proof -
  let ?c1 = "upd_topic s (\<lambda>t. t\<lparr>t_terminal_received := True\<rparr>) c"
  have i1: "inv ?c1" using soundD(2) [OF sound_benign(1) assms(1)] .
  note o = transition_other [OF i1 assms(2), where s = s and e = "Some e", folded c2_def]
  have l: "lost_state ?c1 (c_sub ?c1 s) cause = lost_state c (c_sub c s) cause"
    by (simp add: lost_state_def)
  show "t_state (c_sub c2 s) = lost_state c (c_sub c s) cause" using o(3) l by simp
  show "t_established (c_sub c2 s) = t_established (c_sub c s)"
    "t_name (c_sub c2 s) = t_name (c_sub c s)" "c_registry c2 = c_registry c"
    "join_future c2 s = Failed e" "t_pending_pushes (c_sub c2 s) = []"
    using o(4-8) by (simp_all add: failure_of_def)
  have "same_env ?c1 c2" unfolding c2_def by (rule transition_env)
  then show "same_env c c2" by (simp add: same_env_def)
  show "c_task c2 = c_task c" unfolding c2_def by (simp add: transition_task)
  obtain f where "c_sub c2 = (c_sub ?c1)(s := lost_topic ?c1 (c_sub ?c1 s) cause f)"
    unfolding c2_def using transition_lost [OF assms(2) inv_topic [OF i1, of s]] by metis
  then show "t_conn_generation (c_sub c2 s) = t_conn_generation (c_sub c s)"
    "t_recovery_task (c_sub c2 s) = t_recovery_task (c_sub c s)" by simp_all
  have "inv c2" using transition_lost_progress [OF i1 assms(2)] by (simp add: c2_def)
  then show "t_leave_requested (c_sub c2 s) \<longleftrightarrow> t_state (c_sub c2 s) = LEFT"
    using inv_topic [of c2 s] by (simp add: topic_ok_def)
qed

text \<open>Starting a recovery: the one that runs stays, else a new task is the recovery.\<close>

lemma recovery_started:
  assumes "can_recover c s (c_generation c)" "t_conn_generation (c_sub c s) = c_generation c"
    "\<not> is_recovering c s"
  shows "start_channel_recovery s None c =
    upd_topic s (\<lambda>t. t\<lparr>t_recovery_task := Some (c_next c)\<rparr>)
      ((snd (new_task (Recover_Channel s (c_generation c) False) c))
        \<lparr>c_lifecycle_tasks := c_lifecycle_tasks c @ [c_next c]\<rparr>)"
  using assms
  by (simp add: start_channel_recovery_def track_lifecycle_task_def Let_def case_prod_beta)

text \<open>
  Claim C29: a crashed channel recovers. When the server says that a joined channel crashed, and no
  shutdown is under way, the channel waits for a rejoin: its pushes and its join are settled with
  the crash, it keeps its name, and a recovery is running, either the one that ran already or a
  new task of the client for the current connection.
\<close>

theorem crash_recovers:
  assumes "reachable c" "channel_joined c s" "\<not> c_shutdown c"
    and "event_is (m_event m) SysError" "m_ref m = None \<or> m_ref m = Some (t_join_ref (c_sub c s))"
  shows "\<exists>c'. handle_channel_control me s m status c = (True, c') \<and>
    t_state (c_sub c' s) = REJOINING \<and> t_pending_pushes (c_sub c' s) = [] \<and>
    (\<exists>e. join_future c' s = Failed (ChannelError e)) \<and> is_registered c' s \<and>
    is_recovering c' s \<and>
    (is_recovering c s \<or>
      (\<exists>k \<in> set (c_lifecycle_tasks c').
        t_recovery_task (c_sub c' s) = Some k \<and>
        k_work (c_task c' k) = Recover_Channel s (c_generation c) False))"
proof -
  note i = reachable_inv [OF assms(1)]
  note t = inv_topic [OF i, of s]
  let ?e = "ChannelError (lit ''Channel for topic '' @ t_name (c_sub c s) @ lit '' crashed'')"
  define c2 where "c2 = transition_channel s CRASH (Some ?e)
    (upd_topic s (\<lambda>t. t\<lparr>t_terminal_received := True\<rparr>) c)"
  have ne: "CRASH \<noteq> ACCEPTED" by simp
  note l = lifecycle_transition [OF i ne, of s ?e, folded c2_def]
  have j: "t_state (c_sub c s) = JOINED" "is_registered c s" "is_on_current_connection c s"
    "\<not> t_leave_requested (c_sub c s)" "t_established (c_sub c s)"
    using assms(2) t by (auto simp: channel_joined_def topic_ok_def)
  have st: "t_state (c_sub c2 s) = REJOINING"
    using l(1) j assms(3) by (simp add: lost_state_def recoverable_def)
  have life: "client_lifecycle (m_event m)" using assms(4) by (simp add: client_lifecycle_def)
  have f: "channel_failure (c_sub c s) (m_event m) = Inr ?e"
    using assms(4) by (simp add: channel_failure_def)
  have h: "handle_channel_control me s m status c = (True, start_channel_recovery s None c2)"
    using control_lifecycle [OF j(2,3) life, of me status] assms(4,5) j(1,5) l(2) f
    by (auto simp: handle_channel_lifecycle_def Let_def c2_def channel_failure_def)
  have rec: "can_recover c2 s (c_generation c2)"
    using l st j assms(3)
    by (simp add: can_recover_def should_rejoin_def is_registered_def is_on_current_connection_def
        is_connected_def same_env_def)
  have gen: "t_conn_generation (c_sub c2 s) = c_generation c2"
    using l(7,9) j(3) by (simp add: is_on_current_connection_def same_env_def)
  have rr: "is_recovering c2 s = is_recovering c s" using l(8,10) by (simp add: is_recovering_def task_done_def cong: option.case_cong)
  show ?thesis
  proof (cases "is_recovering c s")
    case True
    then have "start_channel_recovery s None c2 = c2"
      using rr by (simp add: start_channel_recovery_def Let_def)
    then show ?thesis
      using h l st True rr j(2) by (simp add: is_registered_def)
  next
    case False
    with rr have "\<not> is_recovering c2 s" by simp
    note c3 = recovery_started [OF rec gen this]
    have g: "c_generation c2 = c_generation c" using l(7) by (simp add: same_env_def)
    show ?thesis
      using h l(3-6) st j(2) unfolding c3
      by (simp add: g is_recovering_def task_done_def is_registered_def join_future_def
          split: option.splits)
  qed
qed

lemma crash_recovers_witness:
  "\<exists>c'. handle_channel_control None 1 (make_message (System SysError) (lit ''room'') None None None)
      None sample_joined = (True, c') \<and> t_state (c_sub c' 1) = REJOINING \<and> is_recovering c' 1"
  using crash_recovers [OF sample_joined_reachable sample_channel_joined, of
      "make_message (System SysError) (lit ''room'') None None None" None None]
  by (auto simp: make_message_def event_is_def sample_defs)

text \<open>
  Claim C30: a closed channel is lost. When the server closes a joined channel, the channel is left
  at once with its pushes and its join settled, it still holds its name, and one lifecycle task
  carries the error that the application's \<open>on_topic_lost\<close> will get.
\<close>

theorem close_loses_channel:
  assumes "reachable c" "channel_joined c s"
    and "event_is (m_event m) SysClose" "m_ref m = None \<or> m_ref m = Some (t_join_ref (c_sub c s))"
  shows "\<exists>c' k e. handle_channel_control me s m status c = (True, c') \<and>
    t_state (c_sub c' s) = LEFT \<and> t_cause (c_sub c' s) = Some CLOSE \<and>
    t_pending_pushes (c_sub c' s) = [] \<and> join_future c' s = Failed (ChannelError e) \<and>
    is_registered c' s \<and> c_lifecycle_tasks c' = c_lifecycle_tasks c @ [k] \<and>
    k_work (c_task c' k) = Lose_Topic s (ChannelError e) \<and> \<not> task_done c' k"
proof -
  note i = reachable_inv [OF assms(1)]
  note t = inv_topic [OF i, of s]
  let ?e = "lit ''Channel for topic '' @ t_name (c_sub c s) @ lit '' closed by the server''"
  define c1 where "c1 = upd_topic s (\<lambda>t. t\<lparr>t_terminal_received := True\<rparr>) c"
  define c2 where "c2 = transition_channel s CLOSE (Some (ChannelError ?e)) c1"
  have ne: "CLOSE \<noteq> ACCEPTED" by simp
  note l = lifecycle_transition [OF i ne, of s "ChannelError ?e", folded c1_def, folded c2_def]
  have j: "t_state (c_sub c s) = JOINED" "is_registered c s" "is_on_current_connection c s"
    "t_established (c_sub c s)"
    using assms(2) t by (auto simp: channel_joined_def topic_ok_def)
  have st: "t_state (c_sub c2 s) = LEFT" using l(1) by (simp add: lost_state_def recoverable_def)
  have i1: "inv c1" unfolding c1_def using soundD(2) [OF sound_benign(1) i] .
  obtain f where "c_sub c2 = (c_sub c1)(s := lost_topic c1 (c_sub c1 s) CLOSE f)"
    unfolding c2_def using transition_lost [OF ne inv_topic [OF i1, of s]] by metis
  then have ca: "t_cause (c_sub c2 s) = Some CLOSE" by simp
  have life: "client_lifecycle (m_event m)" using assms(3) by (simp add: client_lifecycle_def)
  have f: "channel_failure (c_sub c1 s) (m_event m) = Inr (ChannelError ?e)"
    using assms(3) error_not_close by (simp add: channel_failure_def c1_def)
  have h: "handle_channel_control me s m status c =
      (True, start_topic_loss me s (ChannelError ?e) c2)"
    using control_lifecycle [OF j(2,3) life, of me status] assms(3,4) j(1,4) l(2) f
      error_not_close [OF assms(3)]
    by (auto simp: handle_channel_lifecycle_def Let_def c2_def c1_def)
  have "c_lifecycle_tasks c2 = c_lifecycle_tasks c"
    by (simp add: c2_def c1_def transition_lifecycle_tasks)
  then show ?thesis
    using h st ca l(2-6) j(2,4)
    by (intro exI [of _ "start_topic_loss me s (ChannelError ?e) c2"] exI [of _ "c_next c2"] exI [of _ ?e])
      (simp add: start_topic_loss_def track_lifecycle_task_def case_prod_beta Let_def task_done_def
        is_registered_def join_future_def split: option.splits)
qed

lemma close_loses_channel_witness:
  "\<exists>c'. handle_channel_control None 1 (make_message (System SysClose) (lit ''room'') None None None)
      None sample_joined = (True, c') \<and> t_state (c_sub c' 1) = LEFT \<and> is_registered c' 1"
  using close_loses_channel [OF sample_joined_reachable sample_channel_joined, of
      "make_message (System SysClose) (lit ''room'') None None None" None None]
  by (auto simp: make_message_def event_is_def)

section \<open>A rejoin starts afresh\<close>

text \<open>
  Nothing of the old join survives a rejoin. The restarted channel has a reference of
  its own for the new join, a pending outcome, an empty queue and a new processor task; a frame
  that still carries another join's reference is dropped as stale, without any effect.
\<close>

lemma restart_forgets_old_join:
  fixes gen :: nat and s :: sid
  assumes "reachable c"
  defines "c' \<equiv> restart_topic s gen c"
  shows "t_join_ref (c_sub c' s) \<notin> set (refs_of (c_sub c s)) \<and> join_future c' s = Pending \<and>
    t_queue (c_sub c' s) = [] \<and> t_state (c_sub c' s) = REJOINING \<and>
    (\<exists>k. t_process_task (c_sub c' s) = Some k \<and> \<not> task_done c' k) \<and>
    (\<forall>heartbeat control d. c_version c = V2 \<and> m_topic (d_message d) = t_name (c_sub c s) \<and>
        t_name (c_sub c s) \<noteq> phoenix_topic \<and> is_registered c s \<and>
        m_join_ref (d_message d) \<noteq> None \<and>
        m_join_ref (d_message d) \<noteq> Some (t_join_ref (c_sub c' s)) \<longrightarrow>
      route_message heartbeat control gen d c' = (Stale_Join, c'))"
proof -
  have r: "refs_ok (c_ref_counter c) (c_sub c s)" using reachable_inv [OF assms(1)] by (rule inv_refs)
  have e: "c_sub c' s = (c_sub c s)\<lparr>t_conn_generation := gen, t_connection := c_connection c,
      t_state := REJOINING, t_cause := None, t_join_submitted := False,
      t_terminal_received := False, t_restart_requested := False,
      t_join_ref := str_nat (c_ref_counter c + 1), t_join_ready := Some (c_next c), t_queue := [],
      t_process_task := Some (c_next c + 1)\<rparr>"
    "c_fut c' (c_next c) = Pending" "\<not> task_done c' (c_next c + 1)" "c_version c' = c_version c"
    "c_registry c' = c_registry c"
    by (simp_all add: c'_def restart_topic_def start_processor_def drain_topic_queue_def
        case_prod_beta Let_def task_done_def)
  have "t_join_ref (c_sub c' s) \<notin> set (refs_of (c_sub c s))"
    using fresh_ref [OF r] by (simp add: e(1))
  moreover have "route_message heartbeat control gen d c' = (Stale_Join, c')"
    if "c_version c = V2" "m_topic (d_message d) = t_name (c_sub c s)"
      "t_name (c_sub c s) \<noteq> phoenix_topic" "is_registered c s" "m_join_ref (d_message d) \<noteq> None"
      "m_join_ref (d_message d) \<noteq> Some (t_join_ref (c_sub c' s))" for heartbeat control d
    using that e by (simp add: route_message_def is_stale_join_def is_registered_def Let_def)
  ultimately show ?thesis using e by (simp add: join_future_def)
qed

lemma restart_forgets_old_join_witness:
  "t_join_ref (c_sub (restart_topic 1 1 sample_joined) 1) \<notin> set (refs_of (c_sub sample_joined 1))"
  using restart_forgets_old_join [OF sample_joined_reachable, of 1 1] by simp

section \<open>Sends\<close>

text \<open>
  A frame reaches the wire exactly when it may. The first step of a send task puts its
  frame on its connection, once, if its caller still waits, the session is live and the operation
  is still current; for a push that means the channel is joined, under the very join the push was
  made in, and no shutdown has begun. Otherwise nothing is sent and a caller that still waits gets
  the error.
\<close>

lemma send_goes_out_iff_current:
  "case run_send ss f q c of (sent, c') \<Rightarrow>
    (sent \<longleftrightarrow> c_fut c f = Pending \<and> \<not> s_retired (c_sess c ss) \<and> \<not> s_failed (c_sess c ss) \<and>
       session_current c ss \<and> eligible q c) \<and>
    c_sent c' = c_sent c @ (if sent then [(q_connection q, q_frame q)] else []) \<and>
    (\<not> sent \<and> c_fut c f = Pending \<longrightarrow> c_fut c' f = Failed no_longer_current) \<and>
    (sent \<and> \<not> q_joining q \<and> \<not> q_leaving q \<longrightarrow> channel_joined c (q_topic q) \<and>
       q_join_ref q = Some (t_join_ref (c_sub c (q_topic q))) \<and>
       c_connection c = Some (q_connection q) \<and> \<not> c_shutdown c)"
  by (auto simp: run_send_def send_start_def submit_frame_def fut_done_def eligible_def
      set_operation_def upd_session_def Let_def split: option.split)

lemma send_goes_out_iff_current_witness:
  "c_fut (snd (run_send 0 3 \<lparr>q_topic = 1, q_event = Custom [], q_join_ref = None, q_connection = 0,
     q_frame = TextFrame []\<rparr> sample_pushed)) 3 = Failed no_longer_current"
proof -
  let ?q = "\<lparr>q_topic = 1, q_event = Custom [], q_join_ref = None, q_connection = 0,
    q_frame = TextFrame []\<rparr>"
  have n: "\<not> q_joining ?q" "\<not> q_leaving ?q"
    by (simp_all add: q_joining_def q_leaving_def event_is_def)
  show ?thesis
    using send_goes_out_iff_current [where ss = 0 and f = 3 and q = ?q and c = sample_pushed] n sample_pushed_facts(4)
    by (auto simp: case_prod_beta)
qed

section \<open>A stop\<close>

lemma release_other:
  "c_sub (release_reservation s c) = c_sub c" "c_fut (release_reservation s c) = c_fut c"
  "same_env c (release_reservation s c)"
  by (simp_all add: release_reservation_def Let_def same_env_def)

lemma start_leave_left_fut:
  "t_state (c_sub c s) = LEFT \<Longrightarrow> join_future (snd (start_leave_task s me c)) s = join_future c s"
  by (cases "t_leave_task (c_sub c s)")
    (simp_all add: start_leave_task_def Let_def case_prod_beta join_future_def cong: option.case_cong)

text \<open>A channel that was left with its join settled.\<close>

definition settled :: "client \<Rightarrow> sid \<Rightarrow> bool" where
  "settled c s \<longleftrightarrow> t_state (c_sub c s) = LEFT \<and> join_future c s \<noteq> Pending"

lemma retire_channel_effect:
  assumes i: "inv c" and s: "s < c_next c"
  shows "settled (retire_channel me e s c) s"
    "x \<noteq> s \<Longrightarrow> c_sub (retire_channel me e s c) x = c_sub c x"
    "same_env c (retire_channel me e s c)"
proof -
  have ne: "STOP \<noteq> ACCEPTED" by simp
  define c1 where "c1 = transition_channel s STOP (Some e) c"
  define c2 where "c2 = upd_topic s (\<lambda>t. t\<lparr>t_terminal_received := True\<rparr>) c1"
  define c3 where "c3 = snd (start_leave_task s me c2)"
  note t = transition_other [OF i ne, where s = s and e = "Some e", folded c1_def]
  have l: "t_state (c_sub c1 s) = LEFT" using t(3) by (simp add: lost_state_def recoverable_def)
  have e: "retire_channel me e s c =
      (if t_connection (c_sub c1 s) \<noteq> c_connection c1 then release_reservation s c3 else c1)"
    by (simp add: retire_channel_def Let_def c1_def c2_def c3_def)
  have l2: "t_state (c_sub c2 s) = LEFT" using l by (simp add: c2_def)
  have "progress c c1" "inv c1" using transition_lost_progress [OF i ne] by (auto simp: c1_def)
  then have i2: "inv c2" and n: "s < c_next c2"
    using soundD(2) [OF sound_benign(1)] s progressD(1) by (auto simp: c2_def) fastforce
  have "t_state (c_sub c3 s) = LEFT"
    using progressD(4) [OF soundD(1) [OF sound_start_leave i2, of s me] n] l2
    by (simp add: c3_def topic_progress_def)
  moreover have "join_future c3 s = Failed e"
    unfolding c3_def start_leave_left_fut [OF l2]
    using t(7) by (simp add: c2_def join_future_def failure_of_def cong: option.case_cong)
  ultimately show "settled (retire_channel me e s c) s"
    unfolding e using l t(7)
    by (simp add: settled_def release_other join_future_def failure_of_def cong: option.case_cong)
  show "c_sub (retire_channel me e s c) x = c_sub c x" if "x \<noteq> s"
    unfolding e using that t(1) start_leave_left(2) [OF l2]
    by (simp add: release_other c3_def c2_def)
  have e1: "same_env c c1" unfolding c1_def by (rule transition_env)
  then have "same_env c c2" by (simp add: c2_def same_env_def)
  then have "same_env c c3" unfolding c3_def using same_env_trans start_leave_left(1) [OF l2] by blast
  then show "same_env c (retire_channel me e s c)"
    unfolding e using e1 same_env_trans release_other(3) by auto
qed

lemma settled_keep:
  assumes "inv c" "progress c c'" "c_sub c' x = c_sub c x" "settled c x"
  shows "settled c' x"
proof -
  obtain f where f: "t_join_ready (c_sub c x) = Some f" "c_fut c f \<noteq> Pending"
    using assms(4) by (auto simp: settled_def join_future_def split: option.splits)
  have "f < c_next c" using inv_topic [OF assms(1), of x] f(1) by (simp add: topic_ok_def)
  from progressD(3) [OF assms(2) this f(2)] f assms(3,4) show ?thesis
    by (simp add: settled_def join_future_def)
qed

lemma retire_channels_effect:
  assumes "inv c" "\<forall>s \<in> set ss. s < c_next c"
  shows "same_env c (fold (retire_channel me e) ss c) \<and>
    (\<forall>x \<in> set ss. settled (fold (retire_channel me e) ss c) x)"
  using assms
proof (induction ss rule: rev_induct)
  case (snoc s ss)
  define c1 where "c1 = fold (retire_channel me e) ss c"
  have s1: "sound c c1" unfolding c1_def by (rule sound_fold) (rule sound_retire_channel)
  then have i1: "inv c1" and n1: "s < c_next c1"
    using snoc.prems soundD progressD(1) by (blast, fastforce)
  have p: "progress c1 (retire_channel me e s c1)"
    using soundD(1) [OF sound_retire_channel i1] .
  have "settled (retire_channel me e s c1) x" if "x \<in> set (ss @ [s])" for x
    using that snoc settled_keep [OF i1 p] retire_channel_effect [OF i1 n1, where me = me and e = e]
    by (cases "x = s") (auto simp: c1_def)
  moreover have "same_env c (retire_channel me e s c1)"
    using same_env_trans retire_channel_effect(3) [OF i1 n1] snoc by (simp add: c1_def) blast
  ultimately show ?case by (simp add: c1_def)
qed simp

lemma stop_ends_channels:
  assumes "reachable c"
  shows "c_shutdown (request_stop me c) \<and> \<not> is_connected (request_stop me c) \<and>
    (\<forall>(n, s) \<in> set (c_registry c). settled (request_stop me c) s \<and>
       t_pending_pushes (c_sub (request_stop me c) s) = [] \<and>
       (\<forall>gen. \<not> can_recover (request_stop me c) s gen) \<and>
       (\<forall>c'. run (request_stop me c) c' \<longrightarrow>
          t_state (c_sub c' s) = LEFT \<and> t_pending_pushes (c_sub c' s) = []))"
proof -
  define c1 where "c1 = (if c_state c \<notin> {SHUTTING_DOWN, CLOSED} then c\<lparr>c_state := SHUTTING_DOWN\<rparr> else c)
    \<lparr>c_shutdown := True\<rparr>"
  define c2 where "c2 = request_stop me c"
  have c2: "c2 = fold (retire_channel me shutting_down_error) (dict_values (c_registry c)) c1"
    by (simp add: c2_def request_stop_def retire_channels_def c1_def Let_def)
  have "same_channels c c1" by (simp add: same_channels_def c1_def)
  note i1 = soundD(2) [OF sound_same_channels [OF this] reachable_inv [OF assms]]
  have n1: "\<forall>s \<in> set (dict_values (c_registry c)). s < c_next c1"
    using registered_allocated [OF reachable_inv [OF assms]] by (simp add: c1_def)
  note e = retire_channels_effect [OF i1 n1, of me shutting_down_error, folded c2]
  have "c_shutdown c2 = c_shutdown c1" "c_state c2 = c_state c1"
    using conjunct1 [OF e] by (simp_all add: same_env_def)
  then have sd: "c_shutdown c2" "\<not> is_connected c2" by (auto simp: is_connected_def c1_def)
  have r2: "reachable c2"
    unfolding c2_def by (rule reachable.step [OF assms]) (simp add: channel_step_def connection_step.stop)
  have "sound c1 c2" unfolding c2 by (rule sound_fold) (rule sound_retire_channel)
  note le = progressD(1) [OF soundD(1) [OF this i1]]
  have idle: "t_pending_pushes (c_sub x s) = []" if "reachable x" "t_state (c_sub x s) = LEFT" for x s
    using inv_topic [OF reachable_inv [OF that(1)], of s] that(2) by (simp add: topic_ok_def)
  have "settled c2 s \<and> t_pending_pushes (c_sub c2 s) = [] \<and> (\<forall>gen. \<not> can_recover c2 s gen) \<and>
      (\<forall>c'. run c2 c' \<longrightarrow> t_state (c_sub c' s) = LEFT \<and> t_pending_pushes (c_sub c' s) = [])"
    if "(n, s) \<in> set (c_registry c)" for n s
  proof -
    have s: "s \<in> set (dict_values (c_registry c))" using that by force
    then have st: "settled c2 s" using e by blast
    have n: "s < c_next c2" using s n1 le by fastforce
    have l: "t_state (c_sub c' s) = LEFT" if "run c2 c'" for c'
      using progressD(4) [OF run_progress [OF that r2] n] st
      by (simp add: topic_progress_def settled_def)
    then have "\<forall>c'. run c2 c' \<longrightarrow> t_state (c_sub c' s) = LEFT \<and> t_pending_pushes (c_sub c' s) = []"
      using run_reachable [OF _ r2] idle by blast
    then show ?thesis using st sd(1) run.stay [of c2] unfolding can_recover_def by blast
  qed
  then show ?thesis using sd unfolding c2_def by blast
qed

section \<open>Phases\<close>

text \<open>
  What the runtime promises of a channel object, as a machine of four phases: it is new, its
  first join runs, it is live (joined, or rejoining after it was), it is over.
\<close>

datatype phase = New | Joining | Live | Over

inductive phase_step :: "phase \<Rightarrow> phase \<Rightarrow> bool" where
  join: "phase_step New Joining"
| accept: "phase_step Joining Live"
| finish: "p \<noteq> Over \<Longrightarrow> phase_step p Over"

definition phase_of :: "topic \<Rightarrow> phase" where
  "phase_of t =
     (if t_state t = LEFT then Over else if t_established t then Live
      else if t_state t = CREATED then New else Joining)"

text \<open>The phases in their order; the machine can go from one to another exactly when it is no later.\<close>

fun phase_rank :: "phase \<Rightarrow> nat" where
  "phase_rank New = 0"
| "phase_rank Joining = 1"
| "phase_rank Live = 2"
| "phase_rank Over = 3"

instantiation phase :: linorder
begin

definition less_eq_phase :: "phase \<Rightarrow> phase \<Rightarrow> bool" where
  "less_eq_phase p q \<longleftrightarrow> phase_rank p \<le> phase_rank q"

definition less_phase :: "phase \<Rightarrow> phase \<Rightarrow> bool" where
  "less_phase p q \<longleftrightarrow> phase_rank p < phase_rank q"

instance
proof
  show "p = q" if "p \<le> q" "q \<le> p" for p q :: phase
    using that by (cases p; cases q) (simp_all add: less_eq_phase_def)
qed (auto simp: less_eq_phase_def less_phase_def)

end

inductive_simps phase_step_iff: "phase_step p q"

lemma phase_step_rank: "phase_step p q \<Longrightarrow> p \<le> q"
  by (cases p; cases q) (simp_all add: phase_step_iff less_eq_phase_def)

lemma phase_runs_iff: "phase_step\<^sup>*\<^sup>* p q \<longleftrightarrow> p \<le> q"
proof
  show "phase_step\<^sup>*\<^sup>* p q \<Longrightarrow> p \<le> q"
    by (induction rule: rtranclp_induct) (auto dest: phase_step_rank)
  have "phase_step\<^sup>*\<^sup>* New Live"
    using phase_step.join phase_step.accept by (meson converse_rtranclp_into_rtranclp r_into_rtranclp)
  then show "p \<le> q \<Longrightarrow> phase_step\<^sup>*\<^sup>* p q"
    by (cases p; cases q) (auto simp: less_eq_phase_def phase_step_iff intro: r_into_rtranclp)
qed

lemma phases_ordered:
  assumes "topic_progress t t'"
  shows "phase_of t \<le> phase_of t'"
  using assms by (auto simp: topic_progress_def phase_of_def less_eq_phase_def)

text \<open>
  Claim C1: the runtime refines the phase machine. Along every run, under every interleaving, a
  channel object only moves forward through its phases, in the machine's steps; and the phase says
  what the detailed state is: a live channel is joined or rejoining, a channel whose first join
  runs is in state \<open>JOINING\<close>, and a channel that is over is not joined and has no pending push; the
  first join and the pushes that were waiting on it before have their outcomes. (Its leave may
  still run, and \<open>leave()\<close> waits for that.)
\<close>

theorem runtime_refines_phases:
  assumes "reachable c" "run c c'" "s < c_next c"
  shows "phase_step\<^sup>*\<^sup>* (phase_of (c_sub c s)) (phase_of (c_sub c' s)) \<and>
    phase_of (c_sub c s) \<le> phase_of (c_sub c' s) \<and>
    (phase_of (c_sub c' s) = New \<longleftrightarrow> t_state (c_sub c' s) = CREATED) \<and>
    (phase_of (c_sub c' s) = Joining \<longleftrightarrow> t_state (c_sub c' s) = JOINING) \<and>
    (phase_of (c_sub c' s) = Live \<longleftrightarrow> t_state (c_sub c' s) \<in> {JOINED, REJOINING}) \<and>
    (phase_of (c_sub c' s) = Over \<longrightarrow>
       t_pending_pushes (c_sub c' s) = [] \<and> \<not> channel_joined c' s \<and>
       (\<forall>f. awaits_join (c_sub c s) f \<longrightarrow> c_fut c' f \<noteq> Pending) \<and>
       (\<forall>r. \<forall>f < c_next c. pending_push c s r = Some f \<longrightarrow> c_fut c' f \<noteq> Pending))"
proof -
  have "topic_ok c' (c_sub c' s)"
    using inv_topic [OF reachable_inv [OF run_reachable [OF assms(2,1)]]] .
  moreover have "phase_of (c_sub c s) \<le> phase_of (c_sub c' s)"
    using progressD(4) [OF run_progress [OF assms(2,1)] assms(3)] by (rule phases_ordered)
  moreover have "c_fut c' f \<noteq> Pending" if "phase_of (c_sub c' s) = Over" "awaits_join (c_sub c s) f" for f
  proof -
    have "f < c_next c"
      using inv_topic [OF reachable_inv [OF assms(1)], of s] that(2) by (simp add: topic_ok_def awaits_join_def)
    then show ?thesis
      using progressD(7) [OF run_progress [OF assms(2,1)] assms(3) _ that(2)] that(1)
      by (auto simp: awaits_join_def phase_of_def split: if_splits)
  qed
  moreover have "c_fut c' f \<noteq> Pending"
    if "t_pending_pushes (c_sub c' s) = []" "f < c_next c" "pending_push c s r = Some f" for r f
    using progressD(6) [OF run_progress [OF assms(2,1)] assms(3) that(2,3)] that(1) by auto
  ultimately show ?thesis
    by (cases "t_state (c_sub c' s)") (auto simp: topic_ok_def phase_of_def channel_joined_def phase_runs_iff)
qed

lemma runtime_refines_phases_witness: "phase_step\<^sup>*\<^sup>* Live (phase_of (c_sub sample_left 1))"
proof -
  have "run sample_joined sample_left" using run.go [OF run.stay sample_left_step] .
  from runtime_refines_phases [OF sample_joined_reachable this, of 1] show ?thesis
    by (simp add: phase_of_def sample_defs)
qed

end
