(* ===== verification/Channel_Frame.thy ===== *)
theory Channel_Frame
  imports Channel_Runs
begin

text \<open>
  What the operations of the channel runtime leave alone, once for all: a view of the client that
  the primitives keep is kept by every operation built from them. The views are the environment
  (\<open>Channel_Calm\<close>), the queues, the join references and the reported losses (\<open>Channel_Queues\<close>,
  \<open>Channel_Delivery\<close>, \<open>Channel_Losses\<close>), what is written (\<open>Channel_Wire\<close>) and
  the options (\<open>Client_Wellformed\<close>).
\<close>

named_theorems frame_defs \<open>what the frame proofs always unfold\<close>

lemmas [frame_defs] = Let_def case_prod_beta

section \<open>Views\<close>

text \<open>
  A view that depends on no store, and of a topic at most on its queue, its loss and its join
  reference.
\<close>

locale channel_view =
  fixes view :: "client \<Rightarrow> 'a"
  assumes upd [simp]: "t_queue (g (c_sub c s)) = t_queue (c_sub c s) \<Longrightarrow>
      t_loss_reported (g (c_sub c s)) = t_loss_reported (c_sub c s) \<Longrightarrow>
      t_join_ref (g (c_sub c s)) = t_join_ref (c_sub c s) \<Longrightarrow> view (upd_topic s g c) = view c"
    and session [simp]: "view (upd_session ss h c) = view c"
    and future [simp]: "view (snd (new_future c)) = view c" "view (c\<lparr>c_fut := fs\<rparr>) = view c"
      "view (set_future_exception f e c) = view c" "view (set_future_result f r c) = view c"
      "view (cancel_future f c) = view c"
    and task [simp]: "view (snd (new_task w c)) = view c" "view (request_cancel k c) = view c"
      "view (c\<lparr>c_task := ts\<rparr>) = view c"
    and ref [simp]: "view (snd (generate_ref c)) = view c"
    and field [simp]: "view (c\<lparr>c_registry := d\<rparr>) = view c" "view (c\<lparr>c_lifecycle_tasks := l\<rparr>) = view c"
      "view (c\<lparr>c_cleanup_tasks := l\<rparr>) = view c"
      "view (c\<lparr>c_send_session := y\<rparr>) = view c"
      "view (c\<lparr>c_sess := x, c_send_session := y, c_next := z\<rparr>) = view c"
begin

lemma fold_view: "(\<And>x c. view (h x c) = view c) \<Longrightarrow> view (fold h xs c) = view c"
  by (induction xs arbitrary: c) simp_all

subsection \<open>Transitions and tasks\<close>

lemma lazy_futures [simp]:
  "view (snd (current_join_ready s c)) = view c" "view (snd (unsubscribe_completed s c)) = view c"
  by (simp_all add: current_join_ready_def unsubscribe_completed_def case_prod_beta split: option.split)

lemma transition [simp]: "view (transition_channel s cause e c) = view c"
  by (simp add: transition_channel_def accept_channel_def fail_current_join_def fail_pushes_def
      fold_view frame_defs)

lemma unsubscribing [simp]: "view (fail_unsubscribe s e c) = view c"
  by (simp add: fail_unsubscribe_def frame_defs)

lemma tasks [simp]:
  "view (snd (track_lifecycle_task w c)) = view c" "view (finish_lifecycle_task k c) = view c"
  "view (finish_cleanup_task k c) = view c" "view (snd (start_leave_task s k' c)) = view c"
  "view (release_reservation s c) = view c"
  by (simp_all add: track_lifecycle_task_def finish_lifecycle_task_def finish_cleanup_task_def
      start_leave_task_def release_reservation_def frame_defs split: option.split)

lemma recovery [simp]:
  "view (start_channel_recovery s g c) = view c" "view (start_topic_loss me s e c) = view c"
  by (simp_all add: start_channel_recovery_def start_topic_loss_def frame_defs)

lemma pending_joins [simp]: "view (fail_pending_joins me e c) = view c"
  unfolding fail_pending_joins_def
  by (rule fold_view) (simp add: fail_pending_join_def frame_defs)

lemma retiring [simp]: "view (retire_channels me e c) = view c"
  unfolding retire_channels_def
  by (rule fold_view) (simp add: retire_channel_def frame_defs)

subsection \<open>Control messages\<close>

lemma lifecycle [simp]: "view (handle_channel_lifecycle me s m c) = view c"
  by (simp add: handle_channel_lifecycle_def frame_defs split: sum.split)

lemma join_response [simp]: "view (handle_join_response_mode me s m c) = view c"
  by (simp add: handle_join_response_mode_def late_join_response_def join_accepted_def
      join_rejected_def set_subscription_ready_def frame_defs split: payload.split sum.split)

lemma leave_response [simp]: "view (handle_leave_response s m c) = view c"
  by (simp add: handle_leave_response_def set_unsubscribe_completed_def frame_defs)

lemma push_reply [simp]: "view (snd (resolve_push_reply s m st c)) = view c"
  by (simp add: resolve_push_reply_def settle_push_def frame_defs split: option.split sum.split)

lemma control [simp]: "view (snd (handle_channel_control me s m st c)) = view c"
  by (simp add: handle_channel_control_def frame_defs)

subsection \<open>Sends\<close>

lemma operations [simp]:
  "view (discard ss f c) = view c" "view (set_operation ss f op c) = view c"
  "view (finish_end ss c) = view c" "view (send_cancelled ss f c) = view c"
  "view (send_done ss f c) = view c" "view (outcome_done ss f c) = view c"
  by (simp_all add: discard_def set_operation_def finish_end_def send_cancelled_def send_done_def
      outcome_done_def frame_defs split: option.split)

lemma finishing [simp]: "view (finish_begin ss c) = view c"
  unfolding finish_begin_def Let_def by (subst fold_view) (simp_all add: frame_defs split: prod.split)

lemma session_for [simp]: "view (snd (session_for conn c)) = view c"
  by (simp add: session_for_def split: option.split)

lemma send_begin: "send_begin ss f q t e c = Inr c' \<Longrightarrow> view c' = view c"
  by (auto simp: send_begin_def frame_defs split: if_splits)

lemma send_operation [simp]: "view (snd (send_channel_operation s m f t e c)) = view c"
  by (auto simp: send_channel_operation_def frame_defs dest: send_begin split: option.split sum.split)

lemma push_end [simp]: "view (push_end s r f c) = view c"
  by (simp add: push_end_def)

lemma push_begin [simp]: "view (snd (push_begin s e v t c)) = view c"
proof -
  have "view c4 = view c3" if "send_channel_operation s m f t x c3 = (y, c4)" for m f x y c3 c4
    using send_operation [of s m f t x c3] that by simp
  then show ?thesis
    by (auto simp: push_begin_def frame_defs split: sum.split option.split prod.split)
qed

subsection \<open>Joins, leaves, rejoins\<close>

lemma joining [simp]:
  "view (snd (join_error s e c)) = view c" "view (snd (join_begin s c)) = view c"
  "view (snd (join_end s r c)) = view c"
  by (simp_all add: join_error_def join_begin_def join_end_def frame_defs split: sum.split option.split)

lemma processor [simp]: "view (start_processor s c) = view c"
  by (simp add: start_processor_def frame_defs)

lemma join_channel [simp]: "view (snd (join_channel_begin s c)) = view c"
  by (simp add: join_channel_begin_def frame_defs split: sum.split)

lemma leave [simp]:
  "view (snd (leave_channel s k c)) = view c" "view (snd (leave_and_cleanup s c)) = view c"
  "view (cleanup_cancel_recovery me i s c) = view c" "view (cleanup_cancel_processor me i s c) = view c"
  "view (cleanup_end s c) = view c"
  by (simp_all add: leave_channel_def leave_and_cleanup_def cleanup_cancel_recovery_def
      cleanup_cancel_processor_def cancel_unless_current_def cleanup_end_def frame_defs split: option.split)

lemma unregister [simp]: "view (snd (unregister_topic n e only me c)) = view c"
  by (simp add: unregister_topic_def frame_defs split: option.split)

lemma losing [simp]: "view (snd (lose_topic me s e c)) = view c"
  by (simp add: lose_topic_def frame_defs split: option.split)

lemma rejoin [simp]:
  "view (snd (rejoin_begin s c)) = view c" "view (snd (handle_rejoin_failure me s e c)) = view c"
  "view (snd (recover_failed me s g e c)) = view c" "view (recover_in_background g subs c) = view c"
  by (simp_all add: rejoin_begin_def handle_rejoin_failure_def recover_failed_def
      recover_in_background_def fold_view frame_defs split: option.split)

lemma ended [simp]: "view (end_task k c) = view c" "view (handlers_finished s c) = view c"
  by (simp_all add: end_task_def handlers_finished_def)

end

section \<open>Views that do not see the connection\<close>

locale flagless_view = channel_view view for view :: "client \<Rightarrow> 'a" +
  assumes flag [simp]: "view (c\<lparr>c_state := st\<rparr>) = view c" "view (c\<lparr>c_connection := cn\<rparr>) = view c"
    "view (c\<lparr>c_generation := gn\<rparr>) = view c" "view (c\<lparr>c_shutdown := sd\<rparr>) = view c"
    "view (c\<lparr>c_connection := cn, c_next := z\<rparr>) = view c"
begin

lemma failed_session [simp]: "view (fail_send_session me ss e c) = view c"
  by (simp add: fail_send_session_def frame_defs)

lemma failed_send [simp]:
  "view (notify_failure (fail_send_session me ss') ss e c) = view c"
  "view (send_end (fail_send_session me ss') ss f r c) = view c"
  "view (expire (fail_send_session me ss') ss f c) = view c"
  by (simp_all add: notify_failure_def send_end_def expire_def frame_defs split: option.split)

lemma connection_ops [simp]:
  "view (set_connection c) = view c" "view (next_generation c) = view c"
  "view (cleanup_connection_begin me own c) = view c" "view (settle_topic conn s c) = view c"
  "view (cleanup_connection_end conn ses c) = view c" "view (request_stop me c) = view c"
proof -
  show "view (set_connection c) = view c" "view (next_generation c) = view c"
    by (simp_all add: set_connection_def next_generation_def)
  show settle: "view (settle_topic conn s c) = view c" for s c
    by (simp add: settle_topic_def frame_defs)
  show "view (cleanup_connection_begin me own c) = view c"
    by (simp add: cleanup_connection_begin_def fold_view frame_defs)
  show "view (cleanup_connection_end conn ses c) = view c"
    by (simp add: cleanup_connection_end_def fold_view settle frame_defs split: option.split)
  show "view (request_stop me c) = view c"
    by (simp add: request_stop_def frame_defs)
qed

lemma state_view: "transition_state st c = Inr c' \<Longrightarrow> view c' = view c"
  by (auto simp: transition_state_def andThen_Inr_iff split: if_splits)

lemma exit_view: "retire_at_exit me c = Inr c' \<Longrightarrow> view c' = view c"
  by (auto simp: retire_at_exit_def dest!: state_view split: if_splits)

lemma enter_view: "enter_client stopping c = Inr c' \<Longrightarrow> view c' = view c"
proof -
  have "view (c\<lparr>c_shutdown := b, c_generation := n\<rparr>) = view c" for b n
    using flag(3) [where c = "c\<lparr>c_shutdown := b\<rparr>" and gn = n] by simp
  then show "enter_client stopping c = Inr c' \<Longrightarrow> view c' = view c"
    by (auto simp: enter_client_def dest!: state_view split: if_splits)
qed

end

text \<open>What is written to connections is left alone too.\<close>

locale unsent_view = channel_view view for view :: "client \<Rightarrow> 'a" +
  assumes sent [simp]: "view (c\<lparr>c_sent := frs\<rparr>) = view c"
begin

lemma sending [simp]: "view (snd (run_send ss f q c)) = view c"
  by (simp add: run_send_def send_start_def submit_frame_def frame_defs split: option.split)

end

locale runtime_view = flagless_view view + unsent_view view for view :: "client \<Rightarrow> 'a"
begin

lemma send_view: "send_step c c' \<Longrightarrow> view c' = view c"
  by (induction rule: send_step.induct) simp_all

lemma connection_view: "connection_step c c' \<Longrightarrow> view c' = view c"
  by (induction rule: connection_step.induct)
    (auto simp: shutdown_end_def send_message_def andThen_Inr_iff dest: state_view exit_view enter_view)

end

section \<open>Views that see no topic\<close>

locale topic_blind_view = channel_view view for view :: "client \<Rightarrow> 'a" +
  assumes any_upd [simp]: "view (upd_topic s g c) = view c"
    and any_topic [simp]: "view (snd (new_topic t c)) = view c"
    and any_loss [simp]: "view (c\<lparr>c_lost := ls\<rparr>) = view c"
begin

lemma restart [simp]: "view (restart_topic s g c) = view c" "view (snd (rejoin_restart s g c)) = view c"
  by (simp_all add: restart_topic_def rejoin_restart_def frame_defs)

lemma report [simp]: "view (report_topic_lost s e c) = view c"
  by (simp add: report_topic_lost_def frame_defs)

lemma reserve: "reserve_name s c = Inr c' \<Longrightarrow> view c' = view c"
  by (auto simp: reserve_name_def ensure_can_send_def andThen_Inr_iff frame_defs split: if_splits)

lemma process: "process_topic_message s c = Some (p, c') \<Longrightarrow> view c' = view c"
  by (auto simp: process_topic_message_def handle_normal_message_mode_def frame_defs
      split: list.splits option.splits if_splits prod.splits)

lemma app_view: "app_step c c' \<Longrightarrow> view c' = view c"
  by (induction rule: app_step.induct) (auto simp: open_channel_def dest: reserve)

end

text \<open>So routing keeps such a view.\<close>

sublocale topic_blind_view \<subseteq> routing:
  frame_callbacks "\<lambda>_ c. c" "handle_channel_control me" "\<lambda>c c'. view c' = view c" for me
  by unfold_locales simp_all

context topic_blind_view
begin

lemma task_view: "task_step c c' \<Longrightarrow> view c' = view c"
  by (induction rule: task_step.induct)
    (auto simp: deliver_def andThen_Inr_iff routing.route_keeps dest: process)

end

text \<open>What neither the channels nor the connection can change never changes.\<close>

locale static_view = topic_blind_view view + runtime_view view for view :: "client \<Rightarrow> 'a"
begin

lemma step_view: "channel_step c c' \<Longrightarrow> view c' = view c"
  unfolding channel_step_def using app_view task_view send_view connection_view by blast

lemma run_view: "run c c' \<Longrightarrow> view c' = view c"
  by (induction rule: run.induct) (simp_all add: step_view)

end

end
