(* ===== verification/Channel_Calm.thy ===== *)
theory Channel_Calm
  imports Channel_Recovery Channel_Frame
begin

text \<open>
  What the channel runtime leaves to its supervisor: no step of an application call, a send or a
  task of the runtime changes the connection, its generation, the options or the shutdown flag, and the
  only change of the client's state is from \<open>CONNECTED\<close> to \<open>RECONNECTING\<close>, after a failed send.
\<close>

section \<open>The supervisor's part of the state\<close>

text \<open>The options a client is made with.\<close>

type_synonym options = "nat \<times> pyfloat \<times> pyfloat"

definition options_of :: "client \<Rightarrow> options" where
  "options_of c = (c_max_queue c, c_join_timeout c, c_leave_timeout c)"

lemma options_of_upd [simp]:
  "options_of (c\<lparr>c_state := st\<rparr>) = options_of c" "options_of (c\<lparr>c_connection := cn\<rparr>) = options_of c"
  "options_of (c\<lparr>c_generation := gn\<rparr>) = options_of c" "options_of (c\<lparr>c_shutdown := b\<rparr>) = options_of c"
  by (simp_all add: options_of_def)

definition env ::
  "client \<Rightarrow> cid option \<times> nat \<times> bool \<times> protocol_version \<times> client_state \<times> options" where
  "env c = (c_connection c, c_generation c, c_shutdown c, c_version c, c_state c, options_of c)"

interpretation env_view: topic_blind_view env
  by unfold_locales (simp_all add: env_def options_of_def upd_session_def new_topic_def)

interpretation env_unsent: unsent_view env
  by unfold_locales (simp add: env_def options_of_def)

section \<open>Steps\<close>

definition calm :: "client \<Rightarrow> client \<Rightarrow> bool" where
  "calm c c' \<longleftrightarrow>
     env c' = env c \<or> (c_state c = CONNECTED \<and> env c' = env (c\<lparr>c_state := RECONNECTING\<rparr>))"

lemma calm_env: "env c' = env c \<Longrightarrow> calm c c'"
  by (simp add: calm_def)

lemma calm_after: "env c1 = env c \<Longrightarrow> calm c1 c2 \<Longrightarrow> calm c c2"
  by (auto simp: calm_def env_def)

lemma calm_fail_session: "calm c (fail_send_session me ss e c)"
proof -
  define c1 where "c1 = fail_pending_joins me e c"
  define c2 where "c2 = (if c_state c1 = CONNECTED then c1\<lparr>c_state := RECONNECTING\<rparr> else c1)"
  have "env c1 = env c" by (simp add: c1_def)
  then have "calm c c2" by (simp add: c2_def calm_def env_def options_of_def)
  moreover have "env (snd (track_lifecycle_task (Close_Send_Session ss) c2)) = env c2" by simp
  ultimately have "calm c (snd (track_lifecycle_task (Close_Send_Session ss) c2))"
    by (simp add: calm_def)
  then show ?thesis
    by (simp add: fail_send_session_def c1_def [symmetric] c2_def [symmetric] Let_def calm_env)
qed

lemma calm_notify: "calm c (notify_failure (fail_send_session me ss') ss e c)"
  using calm_after [OF _ calm_fail_session] by (auto simp: notify_failure_def intro: calm_env)

lemma calm_send_end: "calm c (send_end (fail_send_session me ss') ss f r c)"
  using calm_after [OF _ calm_notify] by (auto simp: send_end_def Let_def intro: calm_env split: option.split)

lemma calm_expire: "calm c (expire (fail_send_session me ss') ss f c)"
  using calm_after [OF _ calm_notify] by (auto simp: expire_def Let_def intro: calm_env split: option.split)

lemma calm_app: "app_step c c' \<Longrightarrow> calm c c'"
  by (rule calm_env) (rule env_view.app_view)

lemma calm_send: "send_step c c' \<Longrightarrow> calm c c'"
  by (induction rule: send_step.induct) (auto intro: calm_env calm_send_end calm_expire)

lemma calm_task: "task_step c c' \<Longrightarrow> calm c c'"
  by (rule calm_env) (rule env_view.task_view)

end
