(* ===== verification/Channel_Queues.thy ===== *)
theory Channel_Queues
  imports Channel_Calm "HOL-Library.Sublist"
begin

text \<open>
  What is in the queues of the channels. Routing appends a message to the queue of one channel, the
  channel's processor takes one from the front, a rejoin empties the queue; no other step touches
  it. So the handlers of a channel see its messages in the order they arrived.
\<close>

section \<open>Steps that leave the queues alone\<close>

definition inbox :: "client \<Rightarrow> sid \<Rightarrow> message list" where
  "inbox c s = t_queue (c_sub c s)"

interpretation inbox_view: runtime_view inbox
  by unfold_locales (simp_all add: inbox_def fun_eq_iff upd_session_def)

section \<open>Steps that touch them\<close>

lemma inbox_enqueue:
  "\<exists>n. inbox (upd_topic s (enqueue_message limit m) c) = (inbox c)(s := drop n (inbox c s) @ [m])"
proof (cases "t_queue (c_sub c s)")
  case Nil
  then show ?thesis by (auto simp: inbox_def fun_eq_iff enqueue_message_def intro!: exI [of _ 0])
next
  case (Cons x q)
  then show ?thesis
    by (cases "queue_full limit (t_queue (c_sub c s))")
      (auto simp: inbox_def fun_eq_iff enqueue_message_def intro: exI [of _ 0] exI [of _ 1])
qed

lemma inbox_route:
  assumes "route_message (\<lambda>_ c. c) (handle_channel_control me) gen d c = (r, c')"
  shows "inbox c' = inbox c \<and> r \<noteq> Enqueued \<or>
    r = Enqueued \<and> (\<exists>s n. dict_get (c_registry c) (m_topic (d_message d)) = Some s \<and>
      inbox c' = (inbox c)(s := drop n (inbox c s) @ [d_message d]))"
proof -
  have control: "inbox c1 = inbox c" if "handle_channel_control me s m st c = (b, c1)" for s m st b c1
    using inbox_view.control [of me s m st c] that by simp
  have enqueue: "\<exists>n. inbox (upd_topic s (enqueue_message limit m) c1) = (inbox c)(s := drop n (inbox c s) @ [m])"
    if "handle_channel_control me s m' st c = (b, c1)" for s limit m m' st b c1
    using inbox_enqueue [of s limit m c1] control [OF that] by simp
  show ?thesis
    using assms control enqueue
    by (auto simp: route_message_def Let_def split: option.splits prod.splits bool.splits if_splits)
qed

lemma inbox_set: "inbox (upd_topic s (\<lambda>t. t\<lparr>t_queue := q\<rparr>) c) = (inbox c)(s := q)"
  by (simp add: inbox_def fun_eq_iff)

lemma inbox_reserve: "reserve_name s c = Inr c' \<Longrightarrow> inbox c' = inbox c"
  by (auto simp: reserve_name_def ensure_can_send_def andThen_Inr_iff frame_defs inbox_def fun_eq_iff
      split: if_splits)

lemma inbox_process:
  "process_topic_message s c = Some (p, c') \<Longrightarrow> \<exists>m q. inbox c s = m # q \<and> inbox c' = (inbox c)(s := q)"
  by (auto simp: process_topic_message_def handle_normal_message_mode_def frame_defs inbox_set
      inbox_def [of c s] split: list.splits option.splits if_splits prod.splits)

lemma inbox_lost [simp]: "inbox (report_topic_lost s e c) = inbox c"
  by (simp add: report_topic_lost_def inbox_def fun_eq_iff frame_defs)

lemma inbox_restart: "inbox (restart_topic s g c) = (inbox c)(s := [])"
  by (simp add: restart_topic_def drain_topic_queue_def inbox_def fun_eq_iff frame_defs)

lemma inbox_rejoin_restart:
  "inbox (snd (rejoin_restart s g c)) = inbox c \<or> inbox (snd (rejoin_restart s g c)) = (inbox c)(s := [])"
  by (simp add: rejoin_restart_def inbox_restart frame_defs)

section \<open>Every step\<close>

definition thins :: "client \<Rightarrow> client \<Rightarrow> bool" where
  "thins c c' \<longleftrightarrow> (\<forall>s. \<exists>n. inbox c' s = drop n (inbox c s))"

text \<open>Routing a message \<open>m\<close> into the queue of channel \<open>s\<close>.\<close>

definition arrives :: "sid \<Rightarrow> message \<Rightarrow> client \<Rightarrow> client \<Rightarrow> bool" where
  "arrives s m c c' \<longleftrightarrow>
     (\<exists>me gen d. route_message (\<lambda>_ c. c) (handle_channel_control me) gen d c = (Enqueued, c') \<and>
        dict_get (c_registry c) (m_topic m) = Some s \<and> d_message d = m)"

lemma arrives_inbox: "arrives s m c c' \<Longrightarrow> \<exists>n. inbox c' s = drop n (inbox c s) @ [m]"
  by (auto simp: arrives_def dest!: inbox_route)

lemma thins_same: "inbox c' = inbox c \<Longrightarrow> thins c c'"
  by (auto simp: thins_def intro: exI [of _ 0])

lemma drop_self: "\<exists>n. q = drop n q"
  by (rule exI [of _ 0]) simp

lemma drop_all_of: "\<exists>n. [] = drop n q"
  by (rule exI [of _ "length q"]) simp

lemma thins_set: "inbox c' = (inbox c)(s := drop n (inbox c s)) \<Longrightarrow> thins c c'"
  using drop_self by (auto simp: thins_def)

lemma thins_clear: "inbox c' = (inbox c)(s := []) \<Longrightarrow> thins c c'"
  using thins_set [of c' c s "length (inbox c s)"] by simp

lemma thins_process: "process_topic_message s c = Some (p, c') \<Longrightarrow> thins c c'"
  using thins_set [of c' c s 1] by (auto dest!: inbox_process)

lemma thins_new_topic: "t_queue t = [] \<Longrightarrow> thins c (snd (new_topic t c))"
  by (rule thins_clear [of _ _ "c_next c"]) (simp add: new_topic_def inbox_def fun_eq_iff)

lemma thins_open: "thins c (snd (open_channel name params hook async blocks c))"
  unfolding open_channel_def by (rule thins_new_topic) (simp add: new_subscription_def)

lemma thins_handler: "add_event_handler (c_sub c s) e h = Inr t \<Longrightarrow> thins c (upd_topic s (\<lambda>_. t) c)"
  by (auto intro!: thins_same simp: add_event_handler_def split: if_splits)

lemma thins_app: "app_step c c' \<Longrightarrow> thins c c'"
  by (induction rule: app_step.induct)
    (auto intro: thins_same thins_open thins_handler simp: remove_event_handler_def dest: inbox_reserve)

lemma thins_env_step:
  "inbox c1 = inbox c \<Longrightarrow> thins c1 c2 \<Longrightarrow> thins c c2"
  by (simp add: thins_def)

lemma thins_send: "send_step c c' \<Longrightarrow> thins c c'"
  by (rule thins_same) (rule inbox_view.send_view)

lemma deliver_arrives:
  assumes "deliver me coerce gen frame c = Inr c'"
  shows "thins c c' \<or> (\<exists>s m. arrives s m c c' \<and> (\<forall>x. x \<noteq> s \<longrightarrow> inbox c' x = inbox c x))"
proof -
  obtain d r where d: "route_message (\<lambda>_ c. c) (handle_channel_control me) gen d c = (r, c')"
    using assms by (auto simp: deliver_def andThen_Inr_iff) (metis prod.collapse)
  from inbox_route [OF d] consider "inbox c' = inbox c"
    | s n where "r = Enqueued" "dict_get (c_registry c) (m_topic (d_message d)) = Some s"
        "inbox c' = (inbox c)(s := drop n (inbox c s) @ [d_message d])"
    by blast
  then show ?thesis
  proof cases
    case 1
    then show ?thesis by (simp add: thins_same)
  next
    case (2 s n)
    then have "arrives s (d_message d) c c'" using d by (auto simp: arrives_def)
    then show ?thesis using 2(3) by auto
  qed
qed

lemma task_inbox:
  "task_step c c' \<Longrightarrow> thins c c' \<or> (\<exists>s m. arrives s m c c' \<and> (\<forall>x. x \<noteq> s \<longrightarrow> inbox c' x = inbox c x))"
proof (induction rule: task_step.induct)
  case (frame me coerce gen frame c c')
  then show ?case by (rule deliver_arrives)
next
  case (processed s c p c')
  then show ?case by (simp add: thins_process)
next
  case (restarted c s gen)
  show ?case using inbox_rejoin_restart [of s gen c] thins_clear thins_same by blast
qed (auto intro: thins_same simp: end_task_def handlers_finished_def)

lemma step_inbox:
  "channel_step c c' \<Longrightarrow> thins c c' \<or> (\<exists>s m. arrives s m c c' \<and> (\<forall>x. x \<noteq> s \<longrightarrow> inbox c' x = inbox c x))"
  unfolding channel_step_def
  using thins_app thins_send task_inbox inbox_view.connection_view thins_same by blast

section \<open>Delivery\<close>

text \<open>
  A run seen from channel \<open>s\<close>: the messages routed into its queue, and those its processor handed
  to handlers.
\<close>

inductive traffic :: "sid \<Rightarrow> message list \<Rightarrow> message list \<Rightarrow> client \<Rightarrow> bool" for s where
  opened: "reachable c \<Longrightarrow> t_queue (c_sub c s) = [] \<Longrightarrow> traffic s [] [] c"
| routed: "traffic s A H c \<Longrightarrow> arrives s m c c' \<Longrightarrow> traffic s (A @ [m]) H c'"
| handled: "traffic s A H c \<Longrightarrow> process_topic_message s c = Some (Handled mh eh, c') \<Longrightarrow>
    traffic s A (H @ [hd (t_queue (c_sub c s))]) c'"
| other: "traffic s A H c \<Longrightarrow> channel_step c c' \<Longrightarrow> (\<And>m. \<not> arrives s m c c') \<Longrightarrow> traffic s A H c'"

lemma subseq_drop: "subseq (xs @ drop n ys) (xs @ ys)"
  unfolding subseq_append' by (rule suffix_imp_subseq) (rule suffix_drop)

text \<open>
  Claim C2: messages are handled in the order they arrived. Over any run, the messages handed to
  the handlers of a channel, followed by those that wait in its queue, are a subsequence of the
  messages routed into it: none is handled twice, out of order, or without having arrived, whatever
  crashes, rejoins, overflows and other channels do.
\<close>

theorem handled_in_order:
  assumes "traffic s A H c"
  shows "subseq (H @ t_queue (c_sub c s)) A"
  using assms
proof (induction rule: traffic.induct)
  case (routed A H c m c')
  then obtain n where "inbox c' s = drop n (inbox c s) @ [m]" using arrives_inbox by blast
  moreover have "subseq (H @ drop n (inbox c s)) A"
    using subseq_drop routed.IH subseq_order.trans unfolding inbox_def by blast
  ultimately show ?case
    by (simp add: inbox_def flip: append_assoc)
next
  case (handled A H c mh eh c')
  then show ?case using inbox_process [OF handled(2)] by (auto simp: inbox_def fun_eq_iff)
next
  case (other A H c c')
  then obtain n where "inbox c' s = drop n (inbox c s)"
    using step_inbox [OF other(2)] drop_self unfolding thins_def by metis
  then show ?case using subseq_drop other.IH subseq_order.trans unfolding inbox_def by metis
qed simp

definition sample_hello :: message where
  "sample_hello = make_message (Custom (lit ''hello'')) (lit ''room'') None None (Some (lit ''1''))"

definition sample_listening :: client where
  "sample_listening = upd_topic 1 (\<lambda>t. t\<lparr>t_async_callback := Some 7\<rparr>) sample_joined"

lemma sample_listening_reachable: "reachable sample_listening"
  unfolding sample_listening_def
  by (rule reachable.step [OF sample_joined_reachable]) (simp add: channel_step_def app_step.any_handler)

lemma sample_hello_custom: "system_event_of (lit ''hello'') = None"
  by (simp add: system_event_of_def system_events_def)

lemma sample_hello_arrives:
  "arrives 1 sample_hello sample_listening (upd_topic 1 (enqueue_message (c_max_queue sample_listening) sample_hello) sample_listening)"
  unfolding arrives_def
  by (intro exI [of _ None] exI [of _ 1] exI [of _ "\<lparr>d_message = sample_hello, d_binary_reply_status = None\<rparr>"])
    (simp add: route_message_def Let_def handle_channel_control_def sample_hello_def sample_listening_def
      make_message_def is_registered_def is_on_current_connection_def is_connected_def client_lifecycle_def
      is_stale_join_def phoenix_topic_def event_is_def
      sample_hello_custom str_nat_1 sample_defs)

lemma handled_in_order_witness:
  "\<exists>c. traffic 1 [sample_hello] [sample_hello] c \<and> t_queue (c_sub c 1) = []"
proof -
  have q: "t_queue (c_sub sample_listening 1) = []" by (simp add: sample_listening_def sample_defs)
  define c1 where "c1 = upd_topic 1 (enqueue_message (c_max_queue sample_listening) sample_hello) sample_listening"
  have t1: "traffic 1 [sample_hello] [] c1"
    using traffic.routed [OF traffic.opened [OF sample_listening_reachable q] sample_hello_arrives]
    by (simp add: c1_def)
  have q1: "t_queue (c_sub c1 1) = [sample_hello]"
    using q by (simp add: c1_def enqueue_message_def)
  have "\<exists>mh eh c2. process_topic_message 1 c1 = Some (Handled mh eh, c2)"
    using q1
    by (simp add: process_topic_message_def Let_def handle_normal_message_mode_def snapshot_handlers_def
        case_prod_beta c1_def enqueue_message_def sample_hello_def make_message_def sample_listening_def
        is_stale_join_def channel_joined_def is_registered_def is_on_current_connection_def
        is_connected_def is_current_join_ready_def join_future_def str_nat_1 sample_defs)
  then obtain mh eh c2 where p: "process_topic_message 1 c1 = Some (Handled mh eh, c2)" by blast
  have t2: "traffic 1 [sample_hello] [sample_hello] c2"
    using traffic.handled [OF t1 p] q1 by simp
  then have "subseq ([sample_hello] @ t_queue (c_sub c2 1)) [sample_hello]" by (rule handled_in_order)
  then have "t_queue (c_sub c2 1) = []" by (cases "t_queue (c_sub c2 1)") auto
  with t2 show ?thesis by blast
qed

end
