(* ===== verification/Url_Text.thy ===== *)
theory Url_Text
  imports Messages Py_Text
begin

text \<open>
  What the client uses of \<open>urllib.parse\<close>: percent encoding (\<open>quote\<close>, \<open>quote_plus\<close>,
  \<open>urlencode\<close>), its inverse (\<open>unquote\<close>, \<open>parse_qsl\<close>) and the reassembly of a split URL
  (\<open>urlunsplit\<close>). A query string is read back as it was written.
\<close>

section \<open>Percent encoding\<close>

definition pct_digit :: "nat \<Rightarrow> nat" where
  "pct_digit d = (if d < 10 then 48 + d else 55 + d)"

definition pct_value :: "nat \<Rightarrow> nat option" where
  "pct_value c =
     (if 48 \<le> c \<and> c \<le> 57 then Some (c - 48)
      else if 65 \<le> c \<and> c \<le> 70 then Some (c - 55)
      else if 97 \<le> c \<and> c \<le> 102 then Some (c - 87)
      else None)"

text \<open>Letters, digits and \<open>_.-~\<close> are never quoted.\<close>

definition always_safe :: "nat \<Rightarrow> bool" where
  "always_safe c \<longleftrightarrow>
     65 \<le> c \<and> c \<le> 90 \<or> 97 \<le> c \<and> c \<le> 122 \<or> 48 \<le> c \<and> c \<le> 57 \<or> c \<in> {45, 46, 95, 126}"

definition quote_byte :: "pystr \<Rightarrow> nat \<Rightarrow> pystr" where
  "quote_byte safe b =
     (if always_safe b \<or> b < 128 \<and> b \<in> set safe then [b]
      else [37, pct_digit (b div 16), pct_digit (b mod 16)])"

text \<open>\<open>None\<close> is the \<open>UnicodeEncodeError\<close> of a lone surrogate.\<close>

definition quote_url :: "pystr \<Rightarrow> pystr \<Rightarrow> pystr option" where
  "quote_url safe s =
     map_option (\<lambda>bs. concat (map (quote_byte safe) (map unat bs))) (utf8_encode s)"

definition quote_plus :: "pystr \<Rightarrow> pystr option" where
  "quote_plus s =
     map_option (map (\<lambda>c. if c = 32 then 43 else c)) (quote_url [32] s)"

definition join_with :: "nat \<Rightarrow> pystr list \<Rightarrow> pystr" where
  "join_with c ss =
     (case ss of [] \<Rightarrow> [] | s # ss' \<Rightarrow> s @ concat (map (\<lambda>t. c # t) ss'))"

fun encode_pairs :: "(pystr \<times> pystr) list \<Rightarrow> pystr list option" where
  "encode_pairs [] = Some []"
| "encode_pairs ((k, v) # ps) =
     (case (quote_plus k, quote_plus v, encode_pairs ps) of
        (Some k', Some v', Some ss) \<Rightarrow> Some ((k' @ 61 # v') # ss)
      | _ \<Rightarrow> None)"

definition urlencode :: "(pystr \<times> pystr) list \<Rightarrow> pystr option" where
  "urlencode ps = map_option (join_with 38) (encode_pairs ps)"

section \<open>Percent decoding\<close>

text \<open>
  \<open>bytes.decode("utf-8", "replace")\<close> puts one U+FFFD for the longest start of a well-formed
  sequence: its length, given that no whole sequence starts here.
\<close>

definition second_byte_ok :: "nat \<Rightarrow> nat \<Rightarrow> bool" where
  "second_byte_ok a b \<longleftrightarrow>
     (if a = 0xE0 then 0xA0 \<le> b \<and> b < 0xC0
      else if a = 0xED then 0x80 \<le> b \<and> b < 0xA0
      else if a = 0xF0 then 0x90 \<le> b \<and> b < 0xC0
      else if a = 0xF4 then 0x80 \<le> b \<and> b < 0x90
      else cont b)"

fun bad_length :: "nat list \<Rightarrow> nat" where
  "bad_length (a # b # bs) =
     (if 0xE0 \<le> a \<and> a < 0xF0 \<and> second_byte_ok a b then 2
      else if 0xF0 \<le> a \<and> a \<le> 0xF4 \<and> second_byte_ok a b then
        (case bs of b' # _ \<Rightarrow> if cont b' then 3 else 2 | [] \<Rightarrow> 2)
      else 1)"
| "bad_length _ = 1"

lemma bad_length_pos: "0 < bad_length bs"
  by (cases bs rule: bad_length.cases) (auto split: list.split)

function utf8_decode_nats_replace :: "nat list \<Rightarrow> pystr" where
  "utf8_decode_nats_replace bs =
     (if bs = [] then []
      else case utf8_next bs of
             None \<Rightarrow> 0xFFFD # utf8_decode_nats_replace (drop (bad_length bs) bs)
           | Some (c, r) \<Rightarrow> c # utf8_decode_nats_replace r)"
  by pat_completeness auto

termination
  by (relation "measure length") (auto simp: bad_length_pos dest: utf8_next_shorter)

declare utf8_decode_nats_replace.simps [simp del]

fun unquote_to_bytes :: "pystr \<Rightarrow> nat list" where
  "unquote_to_bytes (c # a # b # s) =
     (case (pct_value a, pct_value b) of
        (Some h, Some l) \<Rightarrow>
          if c = 37 then (16 * h + l) # unquote_to_bytes s else c # unquote_to_bytes (a # b # s)
      | _ \<Rightarrow> c # unquote_to_bytes (a # b # s))"
| "unquote_to_bytes s = s"

text \<open>Runs of ASCII text are decoded, other text stays.\<close>

definition ascii :: "nat \<Rightarrow> bool" where
  "ascii c \<longleftrightarrow> c < 128"

function unquote_runs :: "pystr \<Rightarrow> pystr" where
  "unquote_runs s =
     (if s = [] then []
      else if ascii (hd s) then
        utf8_decode_nats_replace (unquote_to_bytes (takeWhile ascii s)) @
        unquote_runs (dropWhile ascii s)
      else hd s # unquote_runs (tl s))"
  by pat_completeness auto
termination
proof (relation "measure length")
  fix s :: pystr
  assume "s \<noteq> []" "ascii (hd s)"
  then show "(dropWhile ascii s, s) \<in> measure length"
    by (cases s) (auto intro: le_imp_less_Suc length_dropWhile_le)
qed auto

declare unquote_runs.simps [simp del]

definition unquote :: "pystr \<Rightarrow> pystr" where
  "unquote s = (if 37 \<in> set s then unquote_runs s else s)"

definition unquote_plus :: "pystr \<Rightarrow> pystr" where
  "unquote_plus s = unquote (map (\<lambda>c. if c = 43 then 32 else c) s)"

fun split_on :: "nat \<Rightarrow> pystr \<Rightarrow> pystr list" where
  "split_on c [] = [[]]"
| "split_on c (x # s) = (if x = c then [] # split_on c s else (x # hd (split_on c s)) # tl (split_on c s))"

text \<open>\<open>parse_qsl\<close>; a field without a sign counts as blank, and blanks are kept or dropped.\<close>

definition parse_field :: "pystr \<Rightarrow> pystr \<times> pystr" where
  "parse_field s =
     (unquote_plus (takeWhile (\<lambda>c. c \<noteq> 61) s), unquote_plus (drop 1 (dropWhile (\<lambda>c. c \<noteq> 61) s)))"

definition parse_qsl :: "bool \<Rightarrow> pystr \<Rightarrow> (pystr \<times> pystr) list" where
  "parse_qsl keep_blank q =
     map parse_field
       (filter (\<lambda>s. s \<noteq> [] \<and> (keep_blank \<or> drop 1 (dropWhile (\<lambda>c. c \<noteq> 61) s) \<noteq> [])) (split_on 38 q))"

section \<open>Split URLs\<close>

text \<open>
  The five parts that \<open>urlsplit\<close> returns and \<open>urlunsplit\<close> takes. Both functions differ between
  the supported versions of Python, and are arguments where the client calls them.
\<close>

record url_parts =
  u_scheme :: pystr
  u_netloc :: pystr
  u_path :: pystr
  u_query :: pystr
  u_fragment :: pystr

section \<open>Round trip\<close>

lemma pct_value_digit: "d < 16 \<Longrightarrow> pct_value (pct_digit d) = Some d"
  by (auto simp: pct_value_def pct_digit_def)

lemma pct_digit_safe: "d < 16 \<Longrightarrow> always_safe (pct_digit d)"
  by (auto simp: always_safe_def pct_digit_def)

text \<open>Every character of a quoted text is safe, a percent sign, or a space that was kept.\<close>

definition plain :: "nat \<Rightarrow> bool" where
  "plain c \<longleftrightarrow> always_safe c \<or> c = 37 \<or> c = 32"

lemma plain_not: "plain c \<Longrightarrow> c \<noteq> 38 \<and> c \<noteq> 43 \<and> c \<noteq> 61 \<and> ascii c"
  by (auto simp: plain_def always_safe_def ascii_def)

lemma quote_byte_plain:
  assumes "b < 256" "c \<in> set (quote_byte [32] b)"
  shows "plain c"
proof -
  have "b div 16 < 16" "b mod 16 < 16" using assms(1) by simp_all
  then show ?thesis
    using assms(2) pct_digit_safe by (auto simp: quote_byte_def plain_def split: if_splits)
qed

lemma unquote_to_bytes_skip: "c \<noteq> 37 \<Longrightarrow> unquote_to_bytes (c # s) = c # unquote_to_bytes s"
proof (cases s)
  case (Cons a r)
  then show "c \<noteq> 37 \<Longrightarrow> ?thesis" by (cases r) (auto split: option.split)
qed simp

lemma unquote_quote_byte:
  assumes "b < 256"
  shows "unquote_to_bytes (quote_byte [32] b @ s) = b # unquote_to_bytes s"
proof (cases "always_safe b \<or> b < 128 \<and> b \<in> set [32]")
  case True
  then have "b \<noteq> 37" by (auto simp: always_safe_def)
  with True show ?thesis by (simp add: quote_byte_def unquote_to_bytes_skip)
next
  case False
  have d: "b div 16 < 16" "b mod 16 < 16" using assms by simp_all
  from False have "quote_byte [32] b = [37, pct_digit (b div 16), pct_digit (b mod 16)]"
    by (simp add: quote_byte_def)
  then show ?thesis using pct_value_digit [OF d(1)] pct_value_digit [OF d(2)] by simp
qed

lemma unquote_quote_bytes:
  "\<forall>b\<in>set bs. b < 256 \<Longrightarrow> unquote_to_bytes (concat (map (quote_byte [32]) bs)) = bs"
  by (induction bs) (simp_all add: unquote_quote_byte)

lemma utf8_decode_replace_concat:
  "list_all encodable s \<Longrightarrow> utf8_decode_nats_replace (concat (map utf8_cp s)) = s"
proof (induction s)
  case Nil
  show ?case by (simp add: utf8_decode_nats_replace.simps)
next
  case (Cons c s)
  then show ?case
    by (subst utf8_decode_nats_replace.simps) (simp add: utf8_next_cp)
qed

lemma unquote_runs_Nil [simp]: "unquote_runs [] = []"
  by (subst unquote_runs.simps) simp

lemma unquote_runs_ascii:
  assumes "list_all ascii s"
  shows "unquote_runs s = utf8_decode_nats_replace (unquote_to_bytes s)"
proof (cases "s = []")
  case True
  then show ?thesis by (simp add: utf8_decode_nats_replace.simps)
next
  case False
  have t: "takeWhile ascii s = s" "dropWhile ascii s = []" "ascii (hd s)"
    using assms False by (simp_all add: list_all_iff)
  show ?thesis by (subst unquote_runs.simps) (simp add: t False)
qed

text \<open>The bytes of a text whose quoted form has no percent sign are its own characters.\<close>

lemma quote_byte_unescaped: "37 \<notin> set (quote_byte [32] b) \<Longrightarrow> quote_byte [32] b = [b] \<and> b < 128"
  by (auto simp: quote_byte_def always_safe_def split: if_splits)

lemma quote_unescaped:
  "37 \<notin> set (concat (map (quote_byte [32]) bs)) \<Longrightarrow>
   concat (map (quote_byte [32]) bs) = bs \<and> list_all (\<lambda>b. b < 128) bs"
proof (induction bs)
  case (Cons b bs)
  then show ?case using quote_byte_unescaped [of b] by auto
qed simp

lemma utf8_ascii: "list_all encodable s \<Longrightarrow> list_all (\<lambda>b. b < 128) (concat (map utf8_cp s)) \<Longrightarrow>
  concat (map utf8_cp s) = s"
  by (induction s) (auto simp: utf8_cp_def split: if_splits)

lemma unquote_quote:
  assumes "quote_url [32] s = Some q"
  shows "unquote q = s" "list_all plain q"
proof -
  let ?bs = "concat (map utf8_cp s)"
  obtain bs where "utf8_encode s = Some bs" "q = concat (map (quote_byte [32]) (map unat bs))"
    using assms by (auto simp: quote_url_def)
  then have e: "list_all encodable s" and q: "q = concat (map (quote_byte [32]) ?bs)"
    using utf8_encode_unat by metis+
  have b: "\<forall>b\<in>set ?bs. b < 256" using utf8_bytes_bound [OF e] by blast
  then show p: "list_all plain q" unfolding q list_all_iff using quote_byte_plain by fastforce
  then have a: "list_all ascii q" using plain_not by (auto simp: list_all_iff)
  show "unquote q = s"
  proof (cases "37 \<in> set q")
    case True
    then show ?thesis
      by (simp add: unquote_def unquote_runs_ascii [OF a])
        (simp add: q unquote_quote_bytes [OF b] utf8_decode_replace_concat [OF e])
  next
    case False
    then have "q = ?bs \<and> list_all (\<lambda>b. b < 128) ?bs" unfolding q using quote_unescaped by metis
    then have "q = s" using utf8_ascii [OF e] by metis
    with False show ?thesis by (simp add: unquote_def)
  qed
qed

lemma unquote_quote_plus:
  assumes "quote_plus s = Some q"
  shows "unquote_plus q = s" "38 \<notin> set q" "61 \<notin> set q"
proof -
  obtain p where p: "quote_url [32] s = Some p" "q = map (\<lambda>c. if c = 32 then 43 else c) p"
    using assms by (auto simp: quote_plus_def)
  have l: "c \<noteq> 38 \<and> c \<noteq> 43 \<and> c \<noteq> 61" if "c \<in> set p" for c
    using unquote_quote(2) [OF p(1)] plain_not that by (auto simp: list_all_iff)
  then have "map (\<lambda>c. if c = 43 then 32 else c) q = p"
    unfolding p(2) by (auto intro!: map_idI simp: o_def)
  then show "unquote_plus q = s" using unquote_quote(1) [OF p(1)] by (simp add: unquote_plus_def)
  show "38 \<notin> set q" "61 \<notin> set q" unfolding p(2) using l by auto
qed

lemma split_on_field: "c \<notin> set s \<Longrightarrow> split_on c s = [s]"
  by (induction s) auto

lemma split_on_append: "c \<notin> set s \<Longrightarrow> split_on c (s @ c # r) = s # split_on c r"
  by (induction s) auto

lemma split_on_join:
  "\<forall>s\<in>set (t # ss). c \<notin> set s \<Longrightarrow> split_on c (join_with c (t # ss)) = t # ss"
proof (induction ss arbitrary: t)
  case Nil
  then show ?case by (simp add: join_with_def split_on_field)
next
  case (Cons u ss)
  then show ?case using Cons.IH [of u] by (simp add: join_with_def split_on_append)
qed

lemma encode_pairs_fields:
  "encode_pairs ps = Some ss \<Longrightarrow> (\<forall>s\<in>set ss. 38 \<notin> set s \<and> s \<noteq> []) \<and> map parse_field ss = ps"
proof (induction ps arbitrary: ss rule: encode_pairs.induct)
  case (2 k v ps)
  then obtain k' v' r where s: "quote_plus k = Some k'" "quote_plus v = Some v'"
    "encode_pairs ps = Some r" "ss = (k' @ 61 # v') # r"
    by (auto split: option.splits)
  note k = unquote_quote_plus [OF s(1)] and v = unquote_quote_plus [OF s(2)]
  have "takeWhile (\<lambda>c. c \<noteq> 61) (k' @ 61 # v') = k'" "dropWhile (\<lambda>c. c \<noteq> 61) (k' @ 61 # v') = 61 # v'"
    using k(3) by (auto simp: takeWhile_append dropWhile_append)
  then show ?case using 2(1) s k v by (auto simp: parse_field_def)
qed simp

lemma query_read_back: "urlencode ps = Some q \<Longrightarrow> parse_qsl True q = ps"
proof -
  assume "urlencode ps = Some q"
  then obtain ss where s: "encode_pairs ps = Some ss" "q = join_with 38 ss"
    by (auto simp: urlencode_def)
  note f = encode_pairs_fields [OF s(1)]
  show ?thesis
  proof (cases ss)
    case Nil
    then show ?thesis using f s(2) by (simp add: join_with_def parse_qsl_def)
  next
    case (Cons t r)
    then have "split_on 38 q = ss" unfolding s(2) Cons using f Cons by (intro split_on_join) simp
    moreover have "filter (\<lambda>s. s \<noteq> []) ss = ss" using f by (simp add: filter_id_conv)
    ultimately show ?thesis using f by (simp add: parse_qsl_def)
  qed
qed

lemma urlencode_total: "\<forall>(k, v)\<in>set ps. list_all encodable k \<and> list_all encodable v \<Longrightarrow> urlencode ps \<noteq> None"
proof -
  have "encode_pairs ps \<noteq> None" if "\<forall>(k, v)\<in>set ps. list_all encodable k \<and> list_all encodable v"
    using that by (induction ps rule: encode_pairs.induct)
      (auto simp: quote_plus_def quote_url_def utf8_encode_def)
  then show "\<forall>(k, v)\<in>set ps. list_all encodable k \<and> list_all encodable v \<Longrightarrow> urlencode ps \<noteq> None"
    by (simp add: urlencode_def)
qed

text \<open>What the client relies on: a query that was written reads back as the same parameters.\<close>

locale query_codec =
  fixes ser :: "(pystr \<times> pystr) list \<Rightarrow> pystr option"
    and par :: "pystr \<Rightarrow> (pystr \<times> pystr) list"
    and good :: "pystr \<Rightarrow> bool"
  assumes par_ser: "ser ps = Some q \<Longrightarrow> par q = ps"
    and ser_good: "\<forall>(k, v)\<in>set ps. good k \<and> good v \<Longrightarrow> ser ps \<noteq> None"
begin

lemma ser_inject: "ser ps = Some q \<Longrightarrow> ser ps' = Some q \<Longrightarrow> ps = ps'"
  using par_ser by metis

lemma ser_obtains: "\<forall>(k, v)\<in>set ps. good k \<and> good v \<Longrightarrow> \<exists>q. ser ps = Some q \<and> par q = ps"
  using ser_good par_ser by blast

end

interpretation query: query_codec urlencode "parse_qsl True" "list_all encodable"
  by unfold_locales (use query_read_back urlencode_total in auto)

end
