(* ===== verification/Authentication.thy ===== *)
theory Authentication
  imports Messages
begin

text \<open>
  The authentication headers (\<open>authentication.py\<close>): the names that carry credentials, the
  normal form of the headers a client is given, and the header that decides.
\<close>

section \<open>Names\<close>

text \<open>
  \<open>str.casefold\<close> and \<open>str.isspace\<close>. Folding is exact on every code point whose folding is ASCII;
  other code points stay as they are, which no comparison with an ASCII name can tell from their
  own folding.
\<close>

definition casefold_cp :: "nat \<Rightarrow> pystr" where
  "casefold_cp c =
     (if 65 \<le> c \<and> c \<le> 90 then [c + 32]
      else if c = 0xDF \<or> c = 0x1E9E then lit ''ss''
      else if c = 0x17F then lit ''s''
      else if c = 0x212A then lit ''k''
      else if c = 0xFB00 then lit ''ff''
      else if c = 0xFB01 then lit ''fi''
      else if c = 0xFB02 then lit ''fl''
      else if c = 0xFB03 then lit ''ffi''
      else if c = 0xFB04 then lit ''ffl''
      else if c = 0xFB05 \<or> c = 0xFB06 then lit ''st''
      else [c])"

definition casefold :: "pystr \<Rightarrow> pystr" where
  "casefold s = concat (map casefold_cp s)"

definition is_space :: "nat \<Rightarrow> bool" where
  "is_space c \<longleftrightarrow>
     9 \<le> c \<and> c \<le> 13 \<or> 28 \<le> c \<and> c \<le> 32 \<or> 0x2000 \<le> c \<and> c \<le> 0x200A \<or>
     c \<in> {0x85, 0xA0, 0x1680, 0x2028, 0x2029, 0x202F, 0x205F, 0x3000}"

text \<open>\<open>not value.strip()\<close>\<close>

definition blank :: "pystr \<Rightarrow> bool" where
  "blank s \<longleftrightarrow> list_all is_space s"

definition api_key_parameter :: pystr where
  "api_key_parameter = lit ''api_key''"

definition token_parameter :: pystr where
  "token_parameter = lit ''token''"

datatype authentication_header = Api_Key | Token

fun header_text :: "authentication_header \<Rightarrow> pystr" where
  "header_text Api_Key = lit ''x-api-key''"
| "header_text Token = lit ''x-auth-token''"

lemma header_text_inject [simp]: "header_text a = header_text b \<longleftrightarrow> a = b"
  by (cases a; cases b) simp_all

lemma casefold_header [simp]: "casefold (header_text h) = header_text h"
  by (cases h) (simp_all add: casefold_def casefold_cp_def lit_def)

section \<open>Normal form\<close>

definition names :: "authentication_header \<Rightarrow> pystr \<Rightarrow> bool" where
  "names h name \<longleftrightarrow> casefold name = header_text h"

definition credentials :: "authentication_header \<Rightarrow> (pystr, pystr) dict \<Rightarrow> pystr list" where
  "credentials h d = map snd (filter (\<lambda>(name, _). names h name) d)"

definition normalize_header ::
  "authentication_header \<Rightarrow> (pystr, pystr) dict \<Rightarrow> exn + (pystr, pystr) dict" where
  "normalize_header h d =
     (case credentials h d of
        [] \<Rightarrow> Inr d
      | c # cs \<Rightarrow>
          if list_ex blank (c # cs) \<or> length (remdups (c # cs)) \<noteq> 1 then
            Inl (ValueError (header_text h @ lit '' headers must contain one nonempty credential''))
          else Inr (dict_set (header_text h) c (filter (\<lambda>(name, _). \<not> names h name) d)))"

definition normalize_headers :: "(pystr, pystr) dict option \<Rightarrow> exn + (pystr, pystr) dict" where
  "normalize_headers headers =
     andThen (normalize_header Api_Key (case headers of None \<Rightarrow> [] | Some d \<Rightarrow> d))
       (normalize_header Token)"

text \<open>The platform gives a supplied JWT precedence over an API key.\<close>

definition select_authentication_header ::
  "(pystr, pystr) dict \<Rightarrow> authentication_header option" where
  "select_authentication_header d =
     find (\<lambda>h. dict_get d (header_text h) \<noteq> None) [Token, Api_Key]"

section \<open>What normalization does\<close>

text \<open>One nonblank credential, however often and in whatever spelling it is given.\<close>

definition one_credential :: "authentication_header \<Rightarrow> (pystr, pystr) dict \<Rightarrow> bool" where
  "one_credential h d \<longleftrightarrow> (\<exists>c. set (credentials h d) = {c} \<and> \<not> blank c)"

definition other_headers :: "(pystr, pystr) dict \<Rightarrow> (pystr, pystr) dict" where
  "other_headers d = filter (\<lambda>(name, _). \<not> names Api_Key name \<and> \<not> names Token name) d"

definition normal_part :: "authentication_header \<Rightarrow> (pystr, pystr) dict \<Rightarrow> (pystr, pystr) dict" where
  "normal_part h d = (case credentials h d of [] \<Rightarrow> [] | c # _ \<Rightarrow> [(header_text h, c)])"

lemma names_header [simp]: "names h (header_text k) \<longleftrightarrow> h = k"
  by (auto simp: names_def)

lemma length_remdups_1: "length (remdups (c # cs)) = 1 \<longleftrightarrow> set cs \<subseteq> {c}"
proof -
  have "length (remdups (c # cs)) = card (set (c # cs))" by (rule length_remdups_card_conv)
  moreover have "card (insert c (set cs)) = 1 \<longleftrightarrow> set cs \<subseteq> {c}"
    by (auto simp: card_1_singleton_iff)
  ultimately show ?thesis by simp
qed

lemma normalize_header_eq:
  "normalize_header h d =
     (if credentials h d = [] \<or> one_credential h d
      then Inr (filter (\<lambda>(name, _). \<not> names h name) d @ normal_part h d)
      else Inl (ValueError (header_text h @ lit '' headers must contain one nonempty credential'')))"
proof (cases "credentials h d")
  case Nil
  then have "filter (\<lambda>(name, _). \<not> names h name) d = d"
    by (auto simp: credentials_def filter_id_conv filter_empty_conv)
  with Nil show ?thesis by (simp add: normalize_header_def normal_part_def)
next
  case (Cons c cs)
  have n: "header_text h \<notin> fst ` set (filter (\<lambda>(name, _). \<not> names h name) d)" by auto
  have "list_ex blank (c # cs) \<or> length (remdups (c # cs)) \<noteq> 1 \<longleftrightarrow> \<not> one_credential h d"
    unfolding length_remdups_1 one_credential_def Cons by (auto simp: list_ex_iff)
  then show ?thesis
    using Cons dict_set_new [OF n] by (simp add: normalize_header_def normal_part_def del: remdups.simps)
qed

lemma credentials_append [simp]: "credentials h (d @ e) = credentials h d @ credentials h e"
  by (simp add: credentials_def)

lemma credentials_part [simp]:
  "credentials h (normal_part k d) = (if h = k then take 1 (credentials h d) else [])"
  by (auto simp: credentials_def normal_part_def split: list.split)

lemma names_exclusive: "names h n \<Longrightarrow> names k n \<Longrightarrow> h = k"
  by (simp add: names_def)

lemma credentials_without:
  "credentials h (filter (\<lambda>(name, _). \<not> names k name) d) = (if h = k then [] else credentials h d)"
proof (cases "h = k")
  case False
  then have "names h n \<and> \<not> names k n \<longleftrightarrow> names h n" for n using names_exclusive by blast
  then show ?thesis using False
    by (simp add: credentials_def conj_commute case_prod_beta')
qed (simp add: credentials_def case_prod_beta')

lemma filter_part:
  "filter (\<lambda>(name, _). \<not> names k name) (normal_part h d) = (if h = k then [] else normal_part h d)"
  by (auto simp: normal_part_def split: list.split)

lemma normal_part_cong: "credentials h d = credentials h e \<Longrightarrow> normal_part h d = normal_part h e"
  by (simp add: normal_part_def)

lemma one_credential_cong: "credentials h d = credentials h e \<Longrightarrow> one_credential h d = one_credential h e"
  by (simp add: one_credential_def)

lemma other_headers_eq:
  "other_headers d = filter (\<lambda>(name, _). \<not> names Token name) (filter (\<lambda>(name, _). \<not> names Api_Key name) d)"
  by (simp add: other_headers_def case_prod_beta' conj_commute)

lemma normalize_headers_eq:
  "normalize_headers (Some d) =
     (if \<forall>h. credentials h d = [] \<or> one_credential h d
      then Inr (other_headers d @ normal_part Api_Key d @ normal_part Token d)
      else Inl (ValueError (header_text (if credentials Api_Key d = [] \<or> one_credential Api_Key d
             then Token else Api_Key) @ lit '' headers must contain one nonempty credential'')))"
proof -
  let ?d = "filter (\<lambda>(name, _). \<not> names Api_Key name) d @ normal_part Api_Key d"
  have c: "credentials Token ?d = credentials Token d" by (simp add: credentials_without)
  have "normalize_header Token ?d =
     (if credentials Token d = [] \<or> one_credential Token d
      then Inr (other_headers d @ normal_part Api_Key d @ normal_part Token d)
      else Inl (ValueError (header_text Token @ lit '' headers must contain one nonempty credential'')))"
    unfolding normalize_header_eq c one_credential_cong [OF c] normal_part_cong [OF c]
    by (simp add: filter_part other_headers_eq)
  moreover have all: "(\<forall>h. P h) \<longleftrightarrow> P Api_Key \<and> P Token" for P
    by (metis authentication_header.exhaust)
  ultimately show ?thesis
    by (simp add: normalize_headers_def normalize_header_eq [of Api_Key] all del: header_text.simps)
qed

lemma credentials_other [simp]: "credentials h (other_headers d) = []"
  by (cases h) (auto simp: credentials_def other_headers_def filter_empty_conv)

lemma credentials_result:
  "credentials h (other_headers d @ normal_part Api_Key d @ normal_part Token d) = take 1 (credentials h d)"
  by (cases h) simp_all

lemma other_headers_result:
  "other_headers (other_headers d @ normal_part Api_Key d @ normal_part Token d) = other_headers d"
proof -
  have "other_headers (normal_part h d) = []" for h
    by (cases h) (auto simp: other_headers_def normal_part_def simp del: header_text.simps split: list.split)
  moreover have "other_headers (other_headers d) = other_headers d"
    by (simp add: other_headers_def case_prod_beta')
  moreover have "other_headers (a @ b) = other_headers a @ other_headers b" for a b
    by (simp add: other_headers_def)
  ultimately show ?thesis by simp
qed

lemma normal_part_first: "credentials h e = take 1 (credentials h d) \<Longrightarrow> normal_part h e = normal_part h d"
  by (cases "credentials h d") (simp_all add: normal_part_def)

lemma one_credential_first:
  "credentials h e = take 1 (credentials h d) \<Longrightarrow> one_credential h d \<Longrightarrow> one_credential h e"
  by (cases "credentials h d") (auto simp: one_credential_def)

lemma lookup_header:
  "dict_get (other_headers d @ normal_part Api_Key d @ normal_part Token d) (header_text h) \<noteq> None \<longleftrightarrow>
   credentials h d \<noteq> []"
proof -
  have "dict_get (other_headers d) (header_text h) = None"
    by (cases h) (auto simp: map_of_eq_None_iff other_headers_def simp del: header_text.simps)
  moreover have "dict_get (normal_part k d) (header_text h) =
      (if k = h then (case credentials h d of [] \<Rightarrow> None | c # _ \<Rightarrow> Some c) else None)" for k
    by (cases "credentials k d") (auto simp: normal_part_def simp del: header_text.simps)
  ultimately show ?thesis
    by (cases h) (simp_all add: map_add_def del: header_text.simps split: option.split list.split)
qed

text \<open>
  Claim C28: authentication headers have one normal form. A client's headers are accepted exactly
  when each of the two authentication names, in whatever spelling, carries one nonblank
  credential or none; the result is the other headers, untouched and in their order, followed by
  the canonical names with their credentials; normalizing it again changes nothing; and of the
  two headers a token decides.
\<close>

theorem headers_normalized:
  "normalize_headers (Some d) =
     (if \<forall>h. credentials h d = [] \<or> one_credential h d
      then Inr (other_headers d @ normal_part Api_Key d @ normal_part Token d)
      else Inl (ValueError (header_text (if credentials Api_Key d = [] \<or> one_credential Api_Key d
             then Token else Api_Key) @ lit '' headers must contain one nonempty credential''))) \<and>
   (\<forall>r. normalize_headers (Some d) = Inr r \<longrightarrow> normalize_headers (Some r) = Inr r \<and>
     select_authentication_header r =
       (if credentials Token d \<noteq> [] then Some Token
        else if credentials Api_Key d \<noteq> [] then Some Api_Key else None))"
proof -
  let ?r = "other_headers d @ normal_part Api_Key d @ normal_part Token d"
  have "normalize_headers (Some ?r) = Inr ?r \<and> select_authentication_header ?r =
      (if credentials Token d \<noteq> [] then Some Token
       else if credentials Api_Key d \<noteq> [] then Some Api_Key else None)"
    if ok: "\<forall>h. credentials h d = [] \<or> one_credential h d"
  proof
    note c = credentials_result [of _ d]
    have "\<forall>h. credentials h ?r = [] \<or> one_credential h ?r"
      using ok c one_credential_first [OF c] by fastforce
    then show "normalize_headers (Some ?r) = Inr ?r"
      by (simp add: normalize_headers_eq other_headers_result normal_part_first [OF c])
    show "select_authentication_header ?r =
      (if credentials Token d \<noteq> [] then Some Token
       else if credentials Api_Key d \<noteq> [] then Some Api_Key else None)"
      using lookup_header [of d] by (simp add: select_authentication_header_def del: header_text.simps not_None_eq)
  qed
  then show ?thesis unfolding normalize_headers_eq [of d] by simp
qed

lemma headers_normalized_witness:
  "normalize_headers (Some [(lit ''X-API-Key'', lit ''k''), (lit ''Accept'', lit ''a''), (lit ''x-api-key'', lit ''k'')])
   = Inr [(lit ''Accept'', lit ''a''), (lit ''x-api-key'', lit ''k'')]"
proof -
  define x y a k where "x = lit ''X-API-Key''" and "y = lit ''x-api-key''" and "a = lit ''Accept''"
    and "k = lit ''k''"
  let ?d = "[(x, k), (a, lit ''a''), (y, k)]"
  have n: "names Api_Key x" "names Api_Key y" "\<not> names Api_Key a" "\<not> names Token a"
    "\<not> names Token x" "\<not> names Token y"
    unfolding x_def y_def a_def
    by (simp_all add: names_def casefold_def casefold_cp_def lit_def)
  have c: "credentials Api_Key ?d = [k, k]" "credentials Token ?d = []"
    by (simp_all add: credentials_def n)
  have "\<not> blank k" by (simp add: k_def blank_def is_space_def lit_def)
  then have "one_credential Api_Key ?d" by (simp add: one_credential_def c(1))
  then have all: "\<forall>h. credentials h ?d = [] \<or> one_credential h ?d"
    using c(2) by (metis authentication_header.exhaust)
  have "normalize_headers (Some ?d) = Inr (other_headers ?d @ normal_part Api_Key ?d @ normal_part Token ?d)"
    using headers_normalized [of ?d] all by (simp only: simp_thms if_True)
  also have "\<dots> = Inr [(a, lit ''a''), (y, k)]"
    by (simp add: other_headers_def normal_part_def n c) (simp add: y_def)
  finally show ?thesis unfolding x_def y_def a_def k_def .
qed

end
