(* ===== verification/Diagnostics.thy ===== *)
theory Diagnostics
  imports Json_Text Url_Text Authentication "HOL-Library.Sublist"
begin

text \<open>
  What reaches the log (\<open>diagnostics.py\<close>): a record is rendered without its arguments, every
  spelling of a credential is cut out of it, and so is whatever follows an authentication name.
  The regular expressions of the module are values of \<open>regex\<close>, matched with backtracking.
\<close>

section \<open>Regular expressions\<close>

datatype regex =
    One "nat \<Rightarrow> bool"
  | Many "nat \<Rightarrow> bool"
  | Opt regex
  | Seq regex regex
  | Alt regex regex

text \<open>The lengths of the matches at the front of a text, in the order they are tried.\<close>

fun matches :: "regex \<Rightarrow> pystr \<Rightarrow> nat list" where
  "matches (One P) s = (case s of c # _ \<Rightarrow> if P c then [1] else [] | [] \<Rightarrow> [])"
| "matches (Many P) s = rev [0..<Suc (length (takeWhile P s))]"
| "matches (Opt r) s = matches r s @ [0]"
| "matches (Seq r1 r2) s =
     concat (map (\<lambda>n. map (\<lambda>m. n + m) (matches r2 (drop n s))) (matches r1 s))"
| "matches (Alt r1 r2) s = matches r1 s @ matches r2 s"

definition Some_of :: "(nat \<Rightarrow> bool) \<Rightarrow> regex" where
  "Some_of P = Seq (One P) (Many P)"

fun text_regex :: "(nat \<Rightarrow> nat \<Rightarrow> bool) \<Rightarrow> pystr \<Rightarrow> regex" where
  "text_regex eq [] = Many (\<lambda>_. False)"
| "text_regex eq (c # s) = Seq (One (eq c)) (text_regex eq s)"

fun alternatives :: "regex list \<Rightarrow> regex" where
  "alternatives [] = One (\<lambda>_. False)"
| "alternatives [r] = r"
| "alternatives (r # rs) = Alt r (alternatives rs)"

text \<open>
  \<open>re.IGNORECASE\<close> for a lower-case ASCII letter: the code points that match it.
\<close>

definition ignore_case :: "nat \<Rightarrow> nat \<Rightarrow> bool" where
  "ignore_case c x \<longleftrightarrow>
     x = c \<or> 97 \<le> c \<and> c \<le> 122 \<and> x + 32 = c \<or>
     c = 105 \<and> (x = 0x130 \<or> x = 0x131) \<or> c = 107 \<and> x = 0x212A \<or> c = 115 \<and> x = 0x17F"

text \<open>\<open>\d\<close>: the decimal digits of Unicode 14, in runs of ten.\<close>

definition digit_zeros :: "nat list" where
  "digit_zeros =
     [48, 1632, 1776, 1984, 2406, 2534, 2662, 2790, 2918, 3046, 3174, 3302, 3430, 3558, 3664,
      3792, 3872, 4160, 4240, 6112, 6160, 6470, 6608, 6784, 6800, 6992, 7088, 7232, 7248, 42528,
      43216, 43264, 43472, 43504, 43600, 44016, 65296, 66720, 68912, 69734, 69872, 69942, 70096,
      70384, 70736, 70864, 71248, 71360, 71472, 71904, 72016, 72784, 73040, 73120, 92768, 92864,
      93008, 120782, 120792, 120802, 120812, 120822, 123200, 123632, 125264, 130032]"

definition is_decimal :: "nat \<Rightarrow> bool" where
  "is_decimal c \<longleftrightarrow> list_ex (\<lambda>z. z \<le> c \<and> c < z + 10) digit_zeros"

text \<open>
  \<open>pattern.sub\<close>: a finder gives the length of a nonempty match and what replaces it. The
  elements of the text are any type that shows a code point, so that a text whose elements also
  carry their origin is treated as the plain one.
\<close>

function sub_all :: "('a list \<Rightarrow> (nat \<times> 'a list) option) \<Rightarrow> 'a list \<Rightarrow> 'a list" where
  "sub_all f [] = []"
| "sub_all f (x # s) =
     (case f (x # s) of
        None \<Rightarrow> x # sub_all f s
      | Some (n, r) \<Rightarrow> r @ sub_all f (drop (n - 1) s))"
  by pat_completeness auto
termination
  by (relation "measure (length \<circ> snd)") auto

section \<open>Rendering a record\<close>

definition redacted :: pystr where
  "redacted = lit ''[REDACTED]''"

definition omitted :: pystr where
  "omitted = lit ''<omitted>''"

text \<open>An argument of a log call: an \<open>Enum\<close> member or a \<open>bool\<close> with its \<open>str\<close>, a string, or another object.\<close>

datatype log_value = Member pystr | Text pystr | Object

datatype log_args = No_Args | Positional "log_value list" | By_Name

fun render_value :: "log_value option \<Rightarrow> pystr" where
  "render_value (Some (Member s)) = s"
| "render_value _ = omitted"

text \<open>\<open>%(name)#-+ 0*.*lx\<close>\<close>

definition among :: "string \<Rightarrow> nat \<Rightarrow> bool" where
  "among cs c \<longleftrightarrow> c \<in> set (lit cs)"

definition width_regex :: regex where
  "width_regex = Alt (One (among ''*'')) (Some_of is_decimal)"

definition placeholder :: regex where
  "placeholder =
     Seq (One (among ''%''))
      (Seq (Opt (Seq (One (among ''('')) (Seq (Many (\<lambda>c. \<not> among '')'' c)) (One (among '')'')))))
       (Seq (Many (among ''#0 +-''))
        (Seq (Opt width_regex)
         (Seq (Opt (Seq (One (among ''.'')) width_regex))
          (Seq (Opt (One (among ''hlL''))) (One (among ''diouxXeEfFgGcrsa%'')))))))"

text \<open>The placeholders take the values in turn; the literal percent sign takes none.\<close>

function fill :: "log_value list \<Rightarrow> pystr \<Rightarrow> pystr" where
  "fill vs [] = []"
| "fill vs (c # s) =
     (case matches placeholder (c # s) of
        [] \<Rightarrow> c # fill vs s
      | n # _ \<Rightarrow>
          if take n (c # s) = lit ''%%'' then 37 # fill vs (drop (n - 1) s)
          else render_value (case vs of [] \<Rightarrow> None | v # _ \<Rightarrow> Some v) @ fill (tl vs) (drop (n - 1) s))"
  by pat_completeness auto
termination
  by (relation "measure (length \<circ> snd)") auto

definition websocket_state_message :: pystr where
  "websocket_state_message = lit ''= connection is %s''"

text \<open>\<open>State.__members__\<close> of the websockets package is an argument.\<close>

definition render_message :: "pystr list \<Rightarrow> pystr \<Rightarrow> log_args \<Rightarrow> pystr" where
  "render_message states message args =
     (case args of
        No_Args \<Rightarrow> message
      | Positional [] \<Rightarrow> message
      | Positional (Text s # vs) \<Rightarrow>
          if message = websocket_state_message \<and> s \<in> set states then lit ''= connection is '' @ s
          else fill (Text s # vs) message
      | Positional vs \<Rightarrow> fill vs message
      | By_Name \<Rightarrow> fill [] message)"

section \<open>Credentials\<close>

definition authentication_names :: "pystr list" where
  "authentication_names =
     [api_key_parameter, token_parameter, header_text Api_Key, header_text Token,
      lit ''x-token'', lit ''authorization'', lit ''cookie'']"

text \<open>\<open>parse_qsl\<close> is called here without the blank values.\<close>

definition is_authentication_name :: "pystr \<Rightarrow> bool" where
  "is_authentication_name name \<longleftrightarrow> casefold name \<in> set authentication_names"

definition diagnostic_secrets ::
  "(pystr \<Rightarrow> exn + url_parts) \<Rightarrow> pystr \<Rightarrow> pystr option \<Rightarrow> (pystr, pystr) dict \<Rightarrow> exn + pystr list" where
  "diagnostic_secrets urlsplit url api_key headers =
     andThen (urlsplit url) (\<lambda>parts.
       Inr ((case api_key of None \<Rightarrow> [] | Some k \<Rightarrow> [k]) @
            map snd (filter (\<lambda>(name, _). is_authentication_name name) (parse_qsl False (u_query parts))) @
            map snd (filter (\<lambda>(name, _). is_authentication_name name) headers)))"

text \<open>
  The spellings of a credential: itself, four ways of quoting it in a URL, and its JSON text
  without the quotation marks. \<open>None\<close> is the \<open>UnicodeEncodeError\<close> of \<open>quote\<close>.
\<close>

definition spellings :: "pystr \<Rightarrow> pystr list option" where
  "spellings secret =
     (case (quote_url [] secret, quote_url (lit ''/'') secret,
            quote_url (lit '';/?:@&=+$,#-_.!~*'()'') secret, quote_plus secret) of
        (Some a, Some b, Some c, Some d) \<Rightarrow>
          Some [secret, a, b, c, d, concat (map escape_char secret)]
      | _ \<Rightarrow> None)"

text \<open>
  A spelling as a pattern: its characters, with the hexadecimal digits of a percent escape in
  either case.
\<close>

fun secret_pattern :: "pystr \<Rightarrow> (nat \<Rightarrow> bool) list" where
  "secret_pattern (c # a # b # s) =
     (if c = 37 \<and> pct_value a \<noteq> None \<and> pct_value b \<noteq> None
      then (\<lambda>x. x = 37) # (\<lambda>x. pct_value x = pct_value a) # (\<lambda>x. pct_value x = pct_value b) #
             secret_pattern s
      else (\<lambda>x. x = c) # secret_pattern (a # b # s))"
| "secret_pattern s = map (\<lambda>c x. x = c) s"

fun all_spellings :: "pystr list \<Rightarrow> exn + pystr list" where
  "all_spellings [] = Inr []"
| "all_spellings (s # ss) =
     (case spellings s of
        None \<Rightarrow> Inl (ValueError (lit ''surrogates not allowed''))
      | Some vs \<Rightarrow> andThen (all_spellings ss) (\<lambda>ws. Inr (vs @ ws)))"

text \<open>\<open>ConnectionLogger.__init__\<close>: the patterns, the longest spelling first.\<close>

definition connection_patterns :: "pystr list \<Rightarrow> exn + (nat \<Rightarrow> bool) list list" where
  "connection_patterns secrets =
     andThen (all_spellings (filter (\<lambda>s. s \<noteq> []) secrets)) (\<lambda>vs.
       Inr (map secret_pattern (rev (sort_key length (remdups vs)))))"

section \<open>Redaction\<close>

definition find_secret ::
  "('a \<Rightarrow> nat) \<Rightarrow> 'a list \<Rightarrow> (nat \<Rightarrow> bool) list \<Rightarrow> 'a list \<Rightarrow> (nat \<times> 'a list) option" where
  "find_secret cp red p s =
     (if list_all2 (\<lambda>P x. P (cp x)) p (take (length p) s) then Some (length p, red) else None)"

definition quotation :: "nat \<Rightarrow> bool" where
  "quotation c \<longleftrightarrow> c = 34 \<or> c = 39"

text \<open>\<open>AUTHENTICATION_LABEL\<close>: its first group, and the value after it.\<close>

definition label_start :: regex where
  "label_start =
     Seq (alternatives (map (text_regex ignore_case) (rev (sort_key length authentication_names))))
      (Seq (Opt (One quotation))
       (Seq (Many is_space)
        (Seq (One (among '':=''))
         (Seq (Many is_space)
          (Seq (Opt (One quotation))
           (Opt (Seq (Alt (text_regex ignore_case (lit ''bearer'')) (text_regex ignore_case (lit ''basic'')))
                  (Some_of is_space))))))))"

definition label_value :: regex where
  "label_value = Some_of (\<lambda>c. \<not> is_space c \<and> c \<noteq> 38 \<and> \<not> quotation c)"

definition find_label :: "('a \<Rightarrow> nat) \<Rightarrow> 'a list \<Rightarrow> 'a list \<Rightarrow> (nat \<times> 'a list) option" where
  "find_label cp red s =
     (case concat (map (\<lambda>k. map (\<lambda>n. (k, n)) (matches label_value (drop k (map cp s))))
             (matches label_start (map cp s))) of
        [] \<Rightarrow> None
      | (k, n) # _ \<Rightarrow> Some (k + n, take k s @ red))"

definition redact_as ::
  "('a \<Rightarrow> nat) \<Rightarrow> 'a list \<Rightarrow> (nat \<Rightarrow> bool) list list \<Rightarrow> 'a list \<Rightarrow> 'a list" where
  "redact_as cp red ps s =
     sub_all (find_label cp red) (fold (\<lambda>p. sub_all (find_secret cp red p)) ps s)"

definition redact :: "(nat \<Rightarrow> bool) list list \<Rightarrow> pystr \<Rightarrow> pystr" where
  "redact ps s = redact_as (\<lambda>c. c) redacted ps s"

text \<open>\<open>ConnectionLogger\<close> as a filter: what it lets through, and the text that goes on.\<close>

record logger =
  l_disabled :: bool
  l_target_disabled :: bool
  l_manager_disable :: int
  l_effective_level :: int
  l_patterns :: "(nat \<Rightarrow> bool) list list"

definition is_enabled_for :: "logger \<Rightarrow> int \<Rightarrow> bool" where
  "is_enabled_for l level \<longleftrightarrow>
     \<not> l_disabled l \<and> \<not> l_target_disabled l \<and> l_manager_disable l < level \<and>
     l_effective_level l \<le> level"

definition handled_text ::
  "logger \<Rightarrow> pystr list \<Rightarrow> pystr \<Rightarrow> log_args \<Rightarrow> pystr option \<Rightarrow> pystr option" where
  "handled_text l states message args exc =
     (if l_target_disabled l then None
      else Some (redact (l_patterns l)
             (render_message states message args @
              (case exc of None \<Rightarrow> [] | Some name \<Rightarrow> lit '' ['' @ name @ lit '']''))))"

section \<open>What is kept\<close>

text \<open>A replacement keeps a prefix of the match and puts new elements after it.\<close>

definition cuts :: "'a list \<Rightarrow> ('a list \<Rightarrow> (nat \<times> 'a list) option) \<Rightarrow> bool" where
  "cuts red f \<longleftrightarrow> (\<forall>s n r. f s = Some (n, r) \<longrightarrow> (\<exists>k. r = take k s @ red))"

lemma cuts_secret: "cuts red (find_secret cp red p)"
  unfolding cuts_def find_secret_def by (metis append_Nil option.inject option.simps(3) prod.inject take0)

lemma cuts_label: "cuts red (find_label cp red)"
  by (auto simp: cuts_def find_label_def split: list.splits)

lemma cutsE: "cuts red f \<Longrightarrow> f s = Some (n, r) \<Longrightarrow> \<exists>k. r = take k s @ red"
  by (simp add: cuts_def)

lemma prefix_outside:
  assumes "prefix w (u @ red @ v)" "red \<noteq> []" "set w \<inter> set red = {}"
  shows "prefix w u"
proof (rule ccontr)
  assume n: "\<not> prefix w u"
  then obtain w' where w: "w = u @ w'" "prefix w' (red @ v)"
    using assms(1) by (auto simp: prefix_append)
  then show False using n assms(2,3) by (cases red; cases w') auto
qed

lemma within_empty: "set w \<subseteq> set red \<Longrightarrow> set w \<inter> set red = {} \<Longrightarrow> w = []"
  by (cases w) auto

lemma sublist_outside:
  assumes "sublist w (u @ red @ v)" "red \<noteq> []" "set w \<inter> set red = {}"
  shows "sublist w u \<or> sublist w v"
proof -
  have v: "sublist w v" if r: "sublist w (red @ v)"
  proof -
    consider "sublist w red" | "sublist w v"
      | a b where "w = a @ b" "suffix a red" "prefix b v"
      using r unfolding sublist_append by blast
    then show ?thesis
    proof cases
      case 1
      then show ?thesis using within_empty [OF set_mono_sublist assms(3)] by simp
    next
      case (3 a b)
      then have "a = []" using within_empty [of a red] assms(3) set_mono_suffix by fastforce
      with 3 show ?thesis by simp
    qed
  qed
  consider "sublist w u" | "sublist w (red @ v)"
    | a b where "w = a @ b" "suffix a u" "prefix b (red @ v)"
    using assms(1) unfolding sublist_append by blast
  then show ?thesis
  proof cases
    case (3 a b)
    then have "prefix b []" using prefix_outside [of b "[]" red v] assms(2,3) by auto
    with 3 show ?thesis by simp
  qed (use v in auto)
qed

lemma sub_all_prefix:
  assumes "cuts red f" "red \<noteq> []" "set w \<inter> set red = {}" "prefix w (sub_all f s)"
  shows "prefix w s"
  using assms
proof (induction f s arbitrary: w rule: sub_all.induct)
  case (2 f x s)
  show ?case
  proof (cases "f (x # s)")
    case None
    then show ?thesis using 2 by (cases w) auto
  next
    case (Some nr)
    then obtain n r k where f: "f (x # s) = Some (n, r)" "r = take k (x # s) @ red"
      using cutsE [OF 2(3)] by (metis surj_pair)
    then have "prefix w (take k (x # s) @ red @ sub_all f (drop (n - 1) s))" using 2(6) by simp
    then have "prefix w (take k (x # s))" by (rule prefix_outside) (use 2 in auto)
    then show ?thesis using take_is_prefix prefix_order.trans by blast
  qed
qed simp

lemma sub_all_sublist:
  assumes "cuts red f" "red \<noteq> []" "set w \<inter> set red = {}" "sublist w (sub_all f s)"
  shows "sublist w s"
  using assms
proof (induction f s arbitrary: w rule: sub_all.induct)
  case (2 f x s)
  show ?case
  proof (cases "f (x # s)")
    case None
    then have "prefix w (x # sub_all f s) \<or> sublist w (sub_all f s)"
      using 2(6) by (auto simp: sublist_Cons_right)
    moreover have "prefix w (x # s)" if "prefix w (x # sub_all f s)"
      using sub_all_prefix [OF 2(3-5), of "x # s"] that None by simp
    ultimately show ?thesis using 2(1) [OF None 2(3-5)] by (auto simp: sublist_Cons_right)
  next
    case (Some nr)
    then obtain n r k where f: "f (x # s) = Some (n, r)" "r = take k (x # s) @ red"
      using cutsE [OF 2(3)] by (metis surj_pair)
    then have "sublist w (take k (x # s) @ red @ sub_all f (drop (n - 1) s))" using 2(6) by simp
    then consider "sublist w (take k (x # s))" | "sublist w (sub_all f (drop (n - 1) s))"
      using sublist_outside 2(4,5) by blast
    then show ?thesis
    proof cases
      case 1
      then show ?thesis by (meson sublist_order.order.trans sublist_take)
    next
      case 2
      then have "sublist w (drop (n - 1) s)" using "2.IH"(2) [OF f(1)] "2.prems" by blast
      then show ?thesis by (meson sublist_order.order.trans sublist_drop sublist_Cons_right)
    qed
  qed
qed simp

text \<open>After a pattern has been replaced, no kept stretch fits it.\<close>

definition fits :: "('a \<Rightarrow> nat) \<Rightarrow> (nat \<Rightarrow> bool) list \<Rightarrow> 'a list \<Rightarrow> bool" where
  "fits cp p w \<longleftrightarrow> list_all2 (\<lambda>P x. P (cp x)) p w"

lemma find_secret_prefix:
  assumes "fits cp p w" "prefix w s"
  shows "find_secret cp red p s = Some (length p, red)"
proof -
  have "length p = length w" using assms(1) by (auto simp: fits_def dest: list_all2_lengthD)
  moreover have "take (length w) s = w" using assms(2) by (auto simp: prefix_def)
  ultimately show ?thesis using assms(1) by (simp add: find_secret_def fits_def)
qed

lemma secret_not_kept:
  assumes "red \<noteq> []" "set w \<inter> set red = {}" "w \<noteq> []" "fits cp p w"
  shows "\<not> sublist w (sub_all (find_secret cp red p) s)"
proof -
  let ?f = "find_secret cp red p"
  have pre: "\<not> prefix w (sub_all ?f (x # s))" for x s
  proof
    assume a: "prefix w (sub_all ?f (x # s))"
    then have "prefix w (x # s)" using sub_all_prefix [OF cuts_secret assms(1,2)] by blast
    with find_secret_prefix [OF assms(4), of "x # s"] a
    have "prefix w ([] @ red @ sub_all ?f (drop (length p - 1) s))" by simp
    then have "prefix w []" by (rule prefix_outside) (use assms in auto)
    with assms(3) show False by simp
  qed
  have "sub_all g s = sub_all ?f s \<Longrightarrow> g = ?f \<Longrightarrow> \<not> sublist w (sub_all g s)" for g s
  proof (induction g s rule: sub_all.induct)
    case (2 g x s)
    show ?case
    proof (cases "g (x # s)")
      case None
      then show ?thesis using 2(1) [OF None] 2(4) pre [of x s] by (auto simp: sublist_Cons_right)
    next
      case (Some nr)
      then have r: "g (x # s) = Some (length p, red)"
        using 2(4) by (auto simp: find_secret_def split: if_splits)
      then have "\<not> sublist w (sub_all g (drop (length p - 1) s))" using 2(2) 2(4) by auto
      then show ?thesis
        using r sublist_outside [of w "[]" red] assms(1-3) by auto
    qed
  qed (use assms(3) in simp)
  then show ?thesis by simp
qed

lemma fold_sublist:
  assumes "red \<noteq> []" "set w \<inter> set red = {}"
    "sublist w (fold (\<lambda>p. sub_all (find_secret cp red p)) ps s)"
  shows "sublist w s \<and> (\<forall>p\<in>set ps. w \<noteq> [] \<longrightarrow> \<not> fits cp p w)"
  using assms(3)
proof (induction ps arbitrary: s)
  case (Cons p ps)
  then have i: "sublist w (sub_all (find_secret cp red p) s)" "\<forall>p\<in>set ps. w \<noteq> [] \<longrightarrow> \<not> fits cp p w"
    by auto
  then show ?case
    using sub_all_sublist [OF cuts_secret assms(1,2)] secret_not_kept [OF assms(1,2)] by auto
qed simp

lemma redact_as_sublist:
  assumes "red \<noteq> []" "set w \<inter> set red = {}" "sublist w (redact_as cp red ps s)"
  shows "sublist w s \<and> (\<forall>p\<in>set ps. w \<noteq> [] \<longrightarrow> \<not> fits cp p w)"
  using fold_sublist [OF assms(1,2)] sub_all_sublist [OF cuts_label assms(1,2)] assms(3)
  unfolding redact_as_def by blast

section \<open>Where the text comes from\<close>

lemma sub_all_map:
  assumes "\<And>s. map_option (\<lambda>(n, r). (n, map h r)) (f s) = g (map h s)"
  shows "map h (sub_all f s) = sub_all g (map h s)"
proof (induction "length s" arbitrary: s rule: less_induct)
  case less
  show ?case
  proof (cases s)
    case (Cons x r)
    show ?thesis
    proof (cases "f s")
      case None
      then show ?thesis using assms [of s] less [of r] Cons by auto
    next
      case (Some a)
      then obtain n t where a: "f s = Some (n, t)" by (cases a) auto
      then have "g (map h s) = Some (n, map h t)" using assms [of s] by simp
      then show ?thesis using a less [of "drop (n - 1) r"] Cons by (simp add: drop_map)
    qed
  qed simp
qed

lemma find_secret_map:
  "map_option (\<lambda>(n, r). (n, map h r)) (find_secret (cp \<circ> h) red p s) = find_secret cp (map h red) p (map h s)"
  by (simp add: find_secret_def take_map list_all2_map2 o_def)

lemma find_label_map:
  "map_option (\<lambda>(n, r). (n, map h r)) (find_label (cp \<circ> h) red s) = find_label cp (map h red) (map h s)"
proof -
  define m where "m = concat (map (\<lambda>k. map (\<lambda>n. (k, n)) (matches label_value (drop k (map (cp \<circ> h) s))))
    (matches label_start (map (cp \<circ> h) s)))"
  have e: "m = concat (map (\<lambda>k. map (\<lambda>n. (k, n)) (matches label_value (drop k (map cp (map h s)))))
    (matches label_start (map cp (map h s))))" by (simp add: m_def)
  then show ?thesis
    unfolding find_label_def e [symmetric] m_def [symmetric] by (cases m) (auto simp: take_map)
qed

lemma redact_as_map:
  "map h (redact_as (cp \<circ> h) red ps s) = redact_as cp (map h red) ps (map h s)"
proof -
  have "map h (fold (\<lambda>p. sub_all (find_secret (cp \<circ> h) red p)) ps s) =
      fold (\<lambda>p. sub_all (find_secret cp (map h red) p)) ps (map h s)" for s
    by (induction ps arbitrary: s)
      (simp_all add: sub_all_map [where h = h and g = "find_secret cp (map h red) _", OF find_secret_map])
  then show ?thesis
    unfolding redact_as_def
    by (simp add: sub_all_map [where h = h and g = "find_label cp (map h red)", OF find_label_map])
qed

section \<open>Properties\<close>

lemma secret_pattern_fits: "list_all2 (\<lambda>P x. P x) (secret_pattern s) s"
  by (induction s rule: secret_pattern.induct) simp_all

lemma all_spellings_covers:
  "all_spellings ss = Inr ws \<Longrightarrow> s \<in> set ss \<Longrightarrow> \<exists>vs. spellings s = Some vs \<and> set vs \<subseteq> set ws"
proof (induction ss arbitrary: ws)
  case (Cons a ss)
  then obtain vs us where "spellings a = Some vs" "all_spellings ss = Inr us" "ws = vs @ us"
    by (auto simp: andThen_Inr_iff split: option.splits)
  then show ?case using Cons by auto
qed simp

lemma quote_url_nonempty: "quote_url safe s = Some q \<Longrightarrow> s \<noteq> [] \<Longrightarrow> q \<noteq> []"
  by (cases s) (auto simp: quote_url_def quote_byte_def utf8_encode_def utf8_cp_def split: if_splits)

lemma escape_char_nonempty: "escape_char c \<noteq> []"
  by (simp add: escape_char_def u16_def)

lemma spelling_nonempty:
  assumes "spellings s = Some vs" "v \<in> set vs" "s \<noteq> []"
  shows "v \<noteq> []"
proof -
  define c where "c = lit '';/?:@&=+$,#-_.!~*'()''"
  have e: "concat (map escape_char s) \<noteq> []"
    using assms(3) by (cases s) (simp_all add: escape_char_nonempty)
  obtain q1 q2 q3 q4 where q: "quote_url [] s = Some q1" "quote_url (lit ''/'') s = Some q2"
    "quote_url c s = Some q3" "quote_plus s = Some q4"
    and vs: "vs = [s, q1, q2, q3, q4, concat (map escape_char s)]"
    using assms(1) unfolding spellings_def c_def [symmetric] by (auto split: option.split_asm)
  have "q4 \<noteq> []" using q(4) quote_url_nonempty assms(3) by (auto simp: quote_plus_def)
  then show ?thesis
    using assms(2,3) vs e q(1-3) [THEN quote_url_nonempty] by (auto simp del: concat_eq_Nil_conv)
qed

definition cut_mark :: "(nat \<times> bool) list" where
  "cut_mark = map (\<lambda>c. (c, False)) redacted"

definition as_kept :: "pystr \<Rightarrow> (nat \<times> bool) list" where
  "as_kept s = map (\<lambda>c. (c, True)) s"

lemma map_fst_marks: "map fst (as_kept s) = s" "map fst cut_mark = redacted"
  by (simp_all add: as_kept_def cut_mark_def o_def)

lemma kept_outside: "cut_mark \<noteq> []" "set (as_kept w) \<inter> set cut_mark = {}"
  by (auto simp: as_kept_def cut_mark_def redacted_def)

lemma sublist_as_kept: "sublist (as_kept w) (as_kept s) \<Longrightarrow> sublist w s"
  using map_mono_sublist [of "as_kept w" "as_kept s" fst] by (simp add: map_fst_marks)

text \<open>
  The texts that give a credential away: itself, quoted as Python or JavaScript quote a part of a
  URL, and as a JSON string shows it.
\<close>

definition gives_away :: "pystr \<Rightarrow> pystr \<Rightarrow> bool" where
  "gives_away v secret \<longleftrightarrow>
     v = secret \<or>
     (\<exists>safe \<in> {[], lit ''/'', lit '';/?:@&=+$,#-_.!~*'()''}. quote_url safe secret = Some v) \<or>
     quote_plus secret = Some v \<or> v = concat (map escape_char secret)"

lemma spellings_iff: "spellings secret = Some vs \<Longrightarrow> v \<in> set vs \<longleftrightarrow> gives_away v secret"
proof -
  define c where "c = lit '';/?:@&=+$,#-_.!~*'()''"
  show "spellings secret = Some vs \<Longrightarrow> v \<in> set vs \<longleftrightarrow> gives_away v secret"
    unfolding spellings_def gives_away_def c_def [symmetric]
    by (auto split: option.split_asm)
qed

lemma pattern_of_spelling:
  assumes "connection_patterns secrets = Inr ps" "secret \<in> set secrets" "secret \<noteq> []" "gives_away v secret"
  shows "secret_pattern v \<in> set ps \<and> v \<noteq> []"
proof -
  obtain ws where ws: "all_spellings (filter (\<lambda>s. s \<noteq> []) secrets) = Inr ws"
    "ps = map secret_pattern (rev (sort_key length (remdups ws)))"
    using assms(1) by (auto simp: connection_patterns_def andThen_Inr_iff)
  then obtain vs where vs: "spellings secret = Some vs" "set vs \<subseteq> set ws"
    using all_spellings_covers [OF ws(1), of secret] assms(2,3) by auto
  then show ?thesis
    using ws(2) assms(3,4) spellings_iff [OF vs(1)] spelling_nonempty [OF vs(1)] by auto
qed

lemma as_kept_eq: "(\<forall>x\<in>set m. snd x) \<Longrightarrow> m = as_kept (map fst m)"
  by (induction m) (auto simp: as_kept_def)

lemma sub_all_set: "cuts red f \<Longrightarrow> set (sub_all f s) \<subseteq> set s \<union> set red"
proof (induction f s rule: sub_all.induct)
  case (2 f x s)
  show ?case
  proof (cases "f (x # s)")
    case None
    then show ?thesis using 2 by auto
  next
    case (Some nr)
    then obtain n r k where f: "f (x # s) = Some (n, r)" "r = take k (x # s) @ red"
      using cutsE [OF 2(3)] by (metis surj_pair)
    have "set (take k (x # s)) \<subseteq> set (x # s)" by (rule set_take_subset)
    moreover have "set (sub_all f (drop (n - 1) s)) \<subseteq> set s \<union> set red"
      using 2(2) [OF f(1) refl 2(3)] set_drop_subset [of "n - 1" s] by blast
    ultimately show ?thesis using f by auto
  qed
qed simp

lemma redact_as_set: "set (redact_as cp red ps s) \<subseteq> set s \<union> set red"
proof -
  have "set (fold (\<lambda>p. sub_all (find_secret cp red p)) ps s) \<subseteq> set s \<union> set red" for s
  proof (induction ps arbitrary: s)
    case (Cons p ps)
    let ?s = "sub_all (find_secret cp red p) s"
    have "set ?s \<subseteq> set s \<union> set red" by (rule sub_all_set [OF cuts_secret])
    then show ?case using Cons [of ?s] by (simp add: subset_iff) blast
  qed simp
  from this [of s] show ?thesis
    unfolding redact_as_def
    using sub_all_set [OF cuts_label, of cp red "fold (\<lambda>p. sub_all (find_secret cp red p)) ps s"]
    by blast
qed

lemma marked_elements:
  assumes "sublist m (redact_as fst cut_mark ps (as_kept text))" "set (map fst m) \<inter> set redacted = {}"
  shows "m = as_kept (map fst m)"
proof (rule as_kept_eq, rule ballI)
  fix x assume x: "x \<in> set m"
  then have "x \<in> set (as_kept text) \<union> set cut_mark"
    by (rule subsetD [OF subset_trans [OF set_mono_sublist [OF assms(1)] redact_as_set]])
  moreover have "fst x \<notin> set redacted" using x assms(2) by auto
  ultimately show "snd x" by (auto simp: as_kept_def cut_mark_def)
qed

lemma redact_marked: "map fst (redact_as fst cut_mark ps (as_kept text)) = redact ps text"
  using redact_as_map [of fst "\<lambda>c. c" cut_mark ps "as_kept text"]
  by (simp add: redact_def map_fst_marks o_def)

lemma fits_as_kept: "list_all2 (\<lambda>P x. P x) p v \<Longrightarrow> fits fst p (as_kept v)"
  by (simp add: fits_def as_kept_def list_all2_map2)

text \<open>
  Claim C22: the log never shows a credential. Whatever is logged, no stretch of the original
  text that survives redaction contains a credential in any of its spellings (plain, quoted for
  a URL in four ways, in JSON), as the marked run of the same redaction shows: each surviving
  stretch is a part of the text. A spelling that shares no character with the replacement text
  does not occur in the output at all.
\<close>

theorem credentials_redacted:
  assumes "connection_patterns secrets = Inr ps" "secret \<in> set secrets" "secret \<noteq> []"
    "gives_away v secret"
  shows "map fst (redact_as fst cut_mark ps (as_kept text)) = redact ps text \<and>
    (\<forall>w. sublist (as_kept w) (redact_as fst cut_mark ps (as_kept text)) \<longrightarrow>
       sublist w text \<and> \<not> sublist v w) \<and>
    (set v \<inter> set redacted = {} \<longrightarrow> \<not> sublist v (redact ps text))"
proof -
  let ?t = "redact_as fst cut_mark ps (as_kept text)"
  have f: "fits fst (secret_pattern v) (as_kept v)" by (rule fits_as_kept [OF secret_pattern_fits])
  have p: "secret_pattern v \<in> set ps" and v: "v \<noteq> []" using pattern_of_spelling [OF assms] by simp_all
  have none: "\<not> sublist (as_kept v) ?t"
  proof
    assume "sublist (as_kept v) ?t"
    then have "\<not> fits fst (secret_pattern v) (as_kept v)"
      using redact_as_sublist [OF kept_outside] p v by (force simp: as_kept_def)
    with f show False by simp
  qed
  have "sublist w text \<and> \<not> sublist v w" if w: "sublist (as_kept w) ?t" for w
  proof
    show "sublist w text" using redact_as_sublist [OF kept_outside w] sublist_as_kept by blast
    show "\<not> sublist v w"
    proof
      assume "sublist v w"
      then have "sublist (as_kept v) (as_kept w)" unfolding as_kept_def by (rule map_mono_sublist)
      then show False using w none sublist_order.order.trans by blast
    qed
  qed
  moreover have "\<not> sublist v (redact ps text)" if "set v \<inter> set redacted = {}"
  proof
    assume "sublist v (redact ps text)"
    then obtain m where m: "sublist m ?t" "v = map fst m"
      unfolding redact_marked [symmetric] using sublist_map_rightE by blast
    then have "m = as_kept v" using marked_elements that by auto
    with m(1) none show False by simp
  qed
  ultimately show ?thesis using redact_marked by blast
qed

lemma quote_url_k: "quote_url safe [107] = Some [107]"
  by (simp add: quote_url_def quote_byte_def always_safe_def utf8_encode_def
      encodable_def surrogate_def utf8_cp_def)

lemma spellings_k: "spellings (lit ''k'') = Some (replicate 6 (lit ''k''))"
proof -
  have k: "lit ''k'' = [107]" by (simp add: lit_def)
  have "quote_plus [107] = Some [107]" by (simp add: quote_plus_def quote_url_k)
  moreover have "escape_char 107 = [107]" by (simp add: escape_char_def)
  moreover have "replicate 6 [107] = [[107], [107], [107], [107], [107], [107 :: nat]]"
    by (simp add: numeral_eq_Suc)
  ultimately show ?thesis unfolding k by (simp add: spellings_def quote_url_k del: replicate.simps)
qed

lemma credentials_redacted_witness:
  "\<exists>ps. connection_patterns [lit ''k''] = Inr ps \<and> \<not> sublist (lit ''k'') (redact ps (lit ''the key k''))"
proof -
  obtain ps where ps: "connection_patterns [lit ''k''] = Inr ps"
    by (simp add: connection_patterns_def spellings_k)
  have "set (lit ''k'') \<inter> set redacted = {}" by (simp add: redacted_def lit_def)
  then have "\<not> sublist (lit ''k'') (redact ps (lit ''the key k''))"
    using credentials_redacted [OF ps, of "lit ''k''" "lit ''k''" "lit ''the key k''"]
    by (simp add: gives_away_def)
  with ps show ?thesis by blast
qed

end
