(* ===== verification/Client_Setup.thy ===== *)
theory Client_Setup
  imports Diagnostics Channel_Runs
begin

text \<open>
  Making a client (\<open>client.py\<close>): the two URLs, one to connect to and one to show, and the
  validation of the options. \<open>urlsplit\<close> and \<open>urlunsplit\<close>, which differ between versions of
  Python, are arguments.
\<close>

section \<open>The URLs\<close>

definition encode_query :: "(pystr \<times> pystr) list \<Rightarrow> exn + pystr" where
  "encode_query ps =
     (case urlencode ps of
        None \<Rightarrow> Inl (ValueError (lit ''surrogates not allowed'')) | Some q \<Rightarrow> Inr q)"

definition vsn_parameter :: pystr where
  "vsn_parameter = lit ''vsn''"

text \<open>The names of the parameters that the client sets itself, and the parameters that carry a credential.\<close>

definition replaced_parameters ::
  "authentication_header option \<Rightarrow> pystr option \<Rightarrow> pystr list" where
  "replaced_parameters header_auth api_key =
     vsn_parameter #
       (if header_auth \<noteq> None then [api_key_parameter, token_parameter]
        else if api_key \<noteq> None then [api_key_parameter] else [])"

definition authentication_params ::
  "authentication_header option \<Rightarrow> pystr option \<Rightarrow> (pystr \<times> pystr) list" where
  "authentication_params header_auth api_key =
     (case (header_auth, api_key) of (None, Some k) \<Rightarrow> [(api_key_parameter, k)] | _ \<Rightarrow> [])"

definition with_auth ::
  "(pystr \<times> pystr) list \<Rightarrow> pystr option \<Rightarrow> pystr \<Rightarrow> authentication_header option \<Rightarrow>
   (pystr \<times> pystr) list" where
  "with_auth params api_key version header_auth =
     filter (\<lambda>(k, _). casefold k \<notin> set (replaced_parameters header_auth api_key)) params @
     authentication_params header_auth api_key @ [(vsn_parameter, version)]"

definition credential_parameter :: "pystr \<Rightarrow> bool" where
  "credential_parameter k \<longleftrightarrow> casefold k \<in> {api_key_parameter, token_parameter}"

definition conceal :: "pystr \<times> pystr \<Rightarrow> pystr \<times> pystr" where
  "conceal = (\<lambda>(k, v). (k, if credential_parameter k then lit ''***'' else v))"

definition build_url :: "(url_parts \<Rightarrow> pystr) \<Rightarrow> url_parts \<Rightarrow> (pystr \<times> pystr) list \<Rightarrow> exn + pystr" where
  "build_url urlunsplit parts ps =
     andThen (encode_query ps) (\<lambda>q. Inr (urlunsplit (parts\<lparr>u_query := q\<rparr>)))"

definition build_channel_socket_urls ::
  "(pystr \<Rightarrow> exn + url_parts) \<Rightarrow> (url_parts \<Rightarrow> pystr) \<Rightarrow> pystr \<Rightarrow> pystr option \<Rightarrow> pystr \<Rightarrow>
   authentication_header option \<Rightarrow> exn + pystr \<times> pystr" where
  "build_channel_socket_urls urlsplit urlunsplit url api_key version header_auth =
     andThen (urlsplit url) (\<lambda>parts.
       (let params = parse_qsl True (u_query parts);
            ps = with_auth params api_key version header_auth
        in if header_auth = Some Api_Key \<and>
              list_ex (\<lambda>(k, v). casefold k = token_parameter \<and> v \<noteq> []) params
           then Inl (ValueError (lit ''token query authentication cannot be combined with x-api-key''))
           else andThen (build_url urlunsplit parts ps) (\<lambda>connect.
                andThen (build_url urlunsplit parts (map conceal ps)) (\<lambda>shown.
                  Inr (connect, shown)))))"

section \<open>The options\<close>

definition validate_heartbeat_threshold :: "pyfloat option \<Rightarrow> pyfloat option \<Rightarrow> exn + unit" where
  "validate_heartbeat_threshold interval threshold =
     (case threshold of
        None \<Rightarrow> Inr ()
      | Some t \<Rightarrow>
          if \<not> isfinite t \<or> float_le t (Fin 0) then
            Inl (ValueError (lit ''heartbeat_dead_threshold_s must be finite and > 0''))
          else case interval of
                 None \<Rightarrow> Inr ()
               | Some i \<Rightarrow>
                   if \<not> isfinite i \<or> float_le t i then
                     Inl (ValueError (lit ''heartbeat_dead_threshold_s must exceed the finite heartbeat interval''))
                   else Inr ())"

record client_options =
  o_url :: pystr
  o_api_key :: "pystr option"
  o_version :: pystr
  o_join_timeout :: pyfloat
  o_leave_timeout :: pyfloat
  o_max_queue :: int
  o_drain_timeout :: pyfloat
  o_heartbeat_interval :: "pyfloat option"
  o_dead_threshold :: "pyfloat option"
  o_headers :: "(pystr, pystr) dict option"

definition require :: "bool \<Rightarrow> string \<Rightarrow> exn + unit" where
  "require ok message = (if ok then Inr () else Inl (ValueError (lit message)))"

definition finite_positive :: "pyfloat \<Rightarrow> bool" where
  "finite_positive x \<longleftrightarrow> isfinite x \<and> \<not> float_le x (Fin 0)"

record client_setup =
  su_headers :: "(pystr, pystr) dict"
  su_url :: pystr
  su_shown :: pystr
  su_patterns :: "(nat \<Rightarrow> bool) list list"
  su_client :: client

text \<open>\<open>Client.__init__\<close>, in its order; \<open>str\<close> renders a JSON value.\<close>

definition init_client ::
  "(pystr \<Rightarrow> exn + url_parts) \<Rightarrow> (url_parts \<Rightarrow> pystr) \<Rightarrow> (json \<Rightarrow> pystr) \<Rightarrow> client_options \<Rightarrow> exn + client_setup" where
  "init_client urlsplit urlunsplit str opts =
     andThen (require (o_api_key opts \<noteq> Some []) ''api_key must be nonempty or None'') (\<lambda>_.
     andThen (normalize_headers (o_headers opts)) (\<lambda>headers.
     andThen (diagnostic_secrets urlsplit (o_url opts) (o_api_key opts) headers) (\<lambda>secrets.
     andThen (connection_patterns secrets) (\<lambda>patterns.
     andThen (require (case o_heartbeat_interval opts of None \<Rightarrow> True | Some i \<Rightarrow> \<not> float_le i (Fin 0))
        ''heartbeat_interval_s must be > 0 or None to disable'') (\<lambda>_.
     andThen (validate_heartbeat_threshold (o_heartbeat_interval opts) (o_dead_threshold opts)) (\<lambda>_.
     andThen (require (finite_positive (o_join_timeout opts)) ''join_timeout_s must be finite and > 0'') (\<lambda>_.
     andThen (require (finite_positive (o_leave_timeout opts)) ''leave_timeout_s must be finite and > 0'') (\<lambda>_.
     andThen (require (0 < o_max_queue opts) ''max_topic_queue_size must be > 0'') (\<lambda>_.
     andThen (require (\<not> float_le (o_drain_timeout opts) (Fin 0)) ''callback_drain_timeout_s must be > 0'') (\<lambda>_.
     andThen (protocol_version_of (o_version opts)) (\<lambda>version.
     andThen (build_channel_socket_urls urlsplit urlunsplit (o_url opts) (o_api_key opts) (vsn version)
        (select_authentication_header headers)) (\<lambda>(connect, shown).
       Inr \<lparr>su_headers = headers, su_url = connect, su_shown = shown, su_patterns = patterns,
            su_client = new_client version (o_join_timeout opts) (o_leave_timeout opts)
              (nat (o_max_queue opts)) str\<rparr>))))))))))))"

text \<open>\<open>_connect\<close>: the URL and the headers the websocket is opened with.\<close>

definition connect_arguments :: "client_setup \<Rightarrow> pystr \<times> (pystr, pystr) dict" where
  "connect_arguments s = (su_url s, su_headers s)"

section \<open>What the URLs say\<close>

lemma encode_query_read: "encode_query ps = Inr q \<Longrightarrow> parse_qsl True q = ps"
  by (auto simp: encode_query_def query.par_ser split: option.splits)

lemma build_url_query:
  "build_url urlunsplit parts ps = Inr u \<Longrightarrow> \<exists>q. u = urlunsplit (parts\<lparr>u_query := q\<rparr>) \<and> parse_qsl True q = ps"
  by (auto simp: build_url_def andThen_Inr_iff encode_query_read)

lemma casefold_vsn [simp]: "casefold vsn_parameter = vsn_parameter"
  "casefold api_key_parameter = api_key_parameter"
  "api_key_parameter \<noteq> vsn_parameter" "token_parameter \<noteq> vsn_parameter"
  "vsn_parameter \<noteq> api_key_parameter" "vsn_parameter \<noteq> token_parameter"
  by (simp_all add: casefold_def casefold_cp_def lit_def vsn_parameter_def api_key_parameter_def token_parameter_def)

lemma with_auth_vsn:
  "filter (\<lambda>(k, _). casefold k = vsn_parameter) (with_auth params api_key version auth) =
   [(vsn_parameter, version)]"
  by (auto simp: with_auth_def replaced_parameters_def authentication_params_def filter_empty_conv
      split: option.splits)

lemma with_auth_header:
  "auth \<noteq> None \<Longrightarrow> \<forall>(k, v)\<in>set (with_auth params api_key version auth). \<not> credential_parameter k"
  by (auto simp: with_auth_def replaced_parameters_def authentication_params_def
      credential_parameter_def split: option.splits)

lemma with_auth_key:
  "filter (\<lambda>(k, _). casefold k = api_key_parameter) (with_auth params (Some key) version None) =
   [(api_key_parameter, key)]"
  by (auto simp: with_auth_def replaced_parameters_def authentication_params_def filter_empty_conv)

text \<open>
  A name that carries a credential, and two lists of parameters that differ in credentials only.
\<close>

definition secret_name :: "pystr \<Rightarrow> bool" where
  "secret_name k \<longleftrightarrow> casefold k = lit ''api_key'' \<or> casefold k = lit ''token''"

definition same_public :: "(pystr \<times> pystr) list \<Rightarrow> (pystr \<times> pystr) list \<Rightarrow> bool" where
  "same_public = list_all2 (\<lambda>(k, v) (k', v'). k = k' \<and> (secret_name k \<or> v = v'))"

lemma credential_parameter_iff: "credential_parameter k \<longleftrightarrow> secret_name k"
  by (simp add: credential_parameter_def secret_name_def api_key_parameter_def token_parameter_def)

lemma same_public_conceal: "same_public ps ps' \<Longrightarrow> map conceal ps = map conceal ps'"
  unfolding same_public_def
  by (induction rule: list_all2_induct) (auto simp: conceal_def credential_parameter_iff)

lemma conceal_same_public: "same_public (map conceal ps) ps"
  by (induction ps) (auto simp: same_public_def conceal_def credential_parameter_iff split: if_splits)

lemma conceal_stars: "\<forall>(k, v)\<in>set (map conceal ps). secret_name k \<longrightarrow> v = lit ''***''"
  by (auto simp: conceal_def credential_parameter_iff)

lemma conceal_with_auth:
  assumes "map conceal params = map conceal params'" "key = None \<longleftrightarrow> key' = None"
  shows "map conceal (with_auth params key version auth) = map conceal (with_auth params' key' version auth)"
proof -
  have f: "fst (conceal p) = fst p" for p by (simp add: conceal_def case_prod_beta)
  have "map conceal (filter (\<lambda>(k, _). P k) ps) = filter (\<lambda>(k, _). P k) (map conceal ps)" for P ps
    by (simp add: filter_map o_def case_prod_beta' f)
  moreover have "map conceal (authentication_params auth key) = map conceal (authentication_params auth key')"
    using assms(2) by (auto simp: authentication_params_def conceal_def credential_parameter_def split: option.splits)
  moreover have "replaced_parameters auth key = replaced_parameters auth key'"
    using assms(2) by (auto simp: replaced_parameters_def)
  ultimately show ?thesis using assms(1) by (simp add: with_auth_def)
qed

lemma socket_urls_cases:
  assumes "build_channel_socket_urls urlsplit urlunsplit url key version auth = Inr (connect, shown)"
    "urlsplit url = Inr parts"
  shows "build_url urlunsplit parts (with_auth (parse_qsl True (u_query parts)) key version auth) = Inr connect \<and>
    build_url urlunsplit parts
      (map conceal (with_auth (parse_qsl True (u_query parts)) key version auth)) = Inr shown"
  using assms by (auto simp: build_channel_socket_urls_def Let_def andThen_Inr_iff split: if_splits)

text \<open>
  Claim C23: the URLs carry the right credentials, and the one that is shown hides them. Read
  back, the URL to connect to has the given parameters in their order without those the client
  sets, one protocol version, the API key exactly when it was given and no header
  authenticates, and no credential at all when a header does; the URL to show has the same
  parameters with every credential starred out; and it is the same for any two API keys and any
  two URLs that differ in their credentials only.
\<close>

theorem shown_url_hides_credentials:
  assumes "build_channel_socket_urls urlsplit urlunsplit url key version auth = Inr (connect, shown)"
    "urlsplit url = Inr parts"
  shows "\<exists>q q'. connect = urlunsplit (parts\<lparr>u_query := q\<rparr>) \<and> shown = urlunsplit (parts\<lparr>u_query := q'\<rparr>) \<and>
     parse_qsl True q = with_auth (parse_qsl True (u_query parts)) key version auth \<and>
     same_public (parse_qsl True q') (parse_qsl True q) \<and>
     (\<forall>(k, v)\<in>set (parse_qsl True q'). secret_name k \<longrightarrow> v = lit ''***'') \<and>
     filter (\<lambda>(k, _). casefold k = lit ''vsn'') (parse_qsl True q) = [(lit ''vsn'', version)] \<and>
     (auth \<noteq> None \<longrightarrow> (\<forall>(k, v)\<in>set (parse_qsl True q). \<not> secret_name k)) \<and>
     (auth = None \<longrightarrow> (\<forall>a. key = Some a \<longrightarrow>
        filter (\<lambda>(k, _). casefold k = lit ''api_key'') (parse_qsl True q) = [(lit ''api_key'', a)])) \<and>
     (\<forall>url' parts' key' connect' shown'.
        build_channel_socket_urls urlsplit urlunsplit url' key' version auth = Inr (connect', shown') \<and>
        urlsplit url' = Inr parts' \<and> parts' = parts\<lparr>u_query := u_query parts'\<rparr> \<and>
        same_public (parse_qsl True (u_query parts')) (parse_qsl True (u_query parts)) \<and>
        (key' = None \<longleftrightarrow> key = None) \<longrightarrow> shown' = shown)"
proof -
  let ?ps = "with_auth (parse_qsl True (u_query parts)) key version auth"
  note b = socket_urls_cases [OF assms]
  obtain q q' where q: "connect = urlunsplit (parts\<lparr>u_query := q\<rparr>)" "parse_qsl True q = ?ps"
    and q': "shown = urlunsplit (parts\<lparr>u_query := q'\<rparr>)" "parse_qsl True q' = map conceal ?ps"
    using b build_url_query by metis
  have same: "shown' = shown"
    if a: "build_channel_socket_urls urlsplit urlunsplit url' key' version auth = Inr (connect', shown')"
      "urlsplit url' = Inr parts'" "parts' = parts\<lparr>u_query := u_query parts'\<rparr>"
      "same_public (parse_qsl True (u_query parts')) (parse_qsl True (u_query parts))"
      "key' = None \<longleftrightarrow> key = None" for url' parts' key' connect' shown'
  proof -
    have p: "parts'\<lparr>u_query := r\<rparr> = parts\<lparr>u_query := r\<rparr>" for r by (subst a(3)) simp
    have "build_url urlunsplit parts' ps = build_url urlunsplit parts ps" for ps
      unfolding build_url_def p ..
    then show ?thesis
      using socket_urls_cases [OF a(1,2)] b
        conceal_with_auth [OF same_public_conceal [OF a(4)] a(5), of version auth] by simp
  qed
  have names: "lit ''vsn'' = vsn_parameter" "lit ''api_key'' = api_key_parameter"
    by (simp_all add: vsn_parameter_def api_key_parameter_def)
  show ?thesis
    unfolding names
    by (rule exI [of _ q], rule exI [of _ q'], intro conjI)
      (use q q' with_auth_vsn with_auth_header [unfolded credential_parameter_iff] with_auth_key same
        conceal_same_public conceal_stars [of ?ps] in \<open>auto simp del: set_map list.set_map\<close>)
qed

definition bare_url :: url_parts where
  "bare_url = \<lparr>u_scheme = lit ''wss'', u_netloc = lit ''host'', u_path = lit ''/socket'', u_query = [],
     u_fragment = []\<rparr>"

lemma encodable_lit [simp]: "list_all encodable (lit s)"
proof -
  have "of_char c < (256 :: nat)" for c :: char by simp
  moreover have "encodable n" if "n < 256" for n
    using that by (simp add: encodable_def surrogate_def)
  ultimately have "encodable (of_char c)" for c :: char by blast
  then show ?thesis by (simp add: lit_def list_all_iff)
qed

lemma conceal_sample:
  "map conceal [(api_key_parameter, lit ''k''), (vsn_parameter, vsn V2)] =
    [(api_key_parameter, lit ''***''), (vsn_parameter, vsn V2)]"
  by (simp add: conceal_def credential_parameter_def)

lemma shown_url_hides_credentials_witness:
  "\<exists>connect shown. build_channel_socket_urls (\<lambda>_. Inr bare_url) u_query (lit ''wss://host/socket'')
       (Some (lit ''k'')) (vsn V2) None = Inr (connect, shown) \<and>
     parse_qsl True connect = [(api_key_parameter, lit ''k''), (vsn_parameter, vsn V2)] \<and>
     (\<forall>v. (api_key_parameter, v) \<in> set (parse_qsl True shown) \<longrightarrow> v = lit ''***'')"
proof -
  let ?b = "build_channel_socket_urls (\<lambda>_. Inr bare_url) u_query (lit ''wss://host/socket'')
       (Some (lit ''k'')) (vsn V2) None"
  have p: "parse_qsl True (u_query bare_url) = []" by (simp add: bare_url_def parse_qsl_def)
  have w: "with_auth [] (Some (lit ''k'')) (vsn V2) None =
      [(api_key_parameter, lit ''k''), (vsn_parameter, vsn V2)]"
    by (simp add: with_auth_def authentication_params_def)
  have total: "\<exists>q. urlencode [(api_key_parameter, lit k), (vsn_parameter, vsn V2)] = Some q" for k
    using query.ser_obtains [of "[(api_key_parameter, lit k), (vsn_parameter, vsn V2)]"]
    by (auto simp: api_key_parameter_def vsn_parameter_def)
  obtain connect shown where b: "?b = Inr (connect, shown)"
    using total [of "''k''"] total [of "''***''"] p w conceal_sample
    by (auto simp: build_channel_socket_urls_def build_url_def encode_query_def Let_def simp del: vsn.simps)
  from shown_url_hides_credentials [OF b refl]
  obtain q' where "parse_qsl True connect = [(api_key_parameter, lit ''k''), (vsn_parameter, vsn V2)]"
    "shown = u_query (bare_url\<lparr>u_query := q'\<rparr>)" "\<forall>(k, v)\<in>set (parse_qsl True q'). secret_name k \<longrightarrow> v = lit ''***''"
    unfolding p w by auto
  moreover have "secret_name api_key_parameter" by (simp add: secret_name_def api_key_parameter_def [symmetric])
  ultimately show ?thesis unfolding b by auto
qed

text \<open>A client that is made is fresh, has usable bounds, and logs through patterns for its key.\<close>

lemma init_client_checked:
  assumes "init_client urlsplit urlunsplit str opts = Inr s"
  shows "reachable (su_client s)" "0 < c_max_queue (su_client s)"
    "finite_positive (c_join_timeout (su_client s))" "finite_positive (c_leave_timeout (su_client s))"
    "o_api_key opts \<noteq> Some []" "normalize_headers (o_headers opts) = Inr (su_headers s)"
    "\<exists>secrets. diagnostic_secrets urlsplit (o_url opts) (o_api_key opts) (su_headers s) = Inr secrets \<and>
       connection_patterns secrets = Inr (su_patterns s)"
proof -
  have n: "c_max_queue (new_client v j l q str) = q" "c_join_timeout (new_client v j l q str) = j"
    "c_leave_timeout (new_client v j l q str) = l" for v j l q
    by (simp_all add: new_client_def)
  show "reachable (su_client s)" "0 < c_max_queue (su_client s)"
    "finite_positive (c_join_timeout (su_client s))" "finite_positive (c_leave_timeout (su_client s))"
    "o_api_key opts \<noteq> Some []" "normalize_headers (o_headers opts) = Inr (su_headers s)"
    "\<exists>secrets. diagnostic_secrets urlsplit (o_url opts) (o_api_key opts) (su_headers s) = Inr secrets \<and>
       connection_patterns secrets = Inr (su_patterns s)"
    using assms
    by (auto simp: init_client_def andThen_Inr_iff require_def n reachable.new split: if_splits)
qed

end
