(* ===== verification/Client_Wellformed.thy ===== *)
theory Client_Wellformed
  imports Channel_Queues Client_Setup
begin

text \<open>
  A client the constructor accepts is well formed and stays so: its options never change, and no
  queue of a topic grows past \<open>max_topic_queue_size\<close>.
\<close>

section \<open>The options stay\<close>

interpretation options_view: static_view options_of
  by unfold_locales (simp_all add: options_of_def upd_session_def new_topic_def)

section \<open>The queues are bounded\<close>

definition queues_bounded :: "client \<Rightarrow> bool" where
  "queues_bounded c \<longleftrightarrow> (\<forall>s. length (t_queue (c_sub c s)) \<le> c_max_queue c)"

lemma arrives_bounded:
  assumes "arrives s m c c'" "0 < c_max_queue c" "length (t_queue (c_sub c s)) \<le> c_max_queue c"
  shows "length (t_queue (c_sub c' s)) \<le> c_max_queue c"
proof -
  obtain me gen d st c1 where r: "handle_channel_control me s m st c = (False, c1)"
    "c' = upd_topic s (enqueue_message (c_max_queue c1) m) c1"
    using assms(1) by (auto simp: arrives_def route_message_def Let_def split: if_splits prod.splits bool.splits)
  have "inbox c1 = inbox c" using inbox_view.control [of me s m st c] r(1) by simp
  then have q: "t_queue (c_sub c1 s) = t_queue (c_sub c s)" by (simp add: inbox_def fun_eq_iff)
  have "c_max_queue c1 = c_max_queue c"
    using options_view.control [of me s m st c] r(1) by (simp add: options_of_def)
  with q assms(2,3) r(2) topic_queue.put_bounded [of "c_sub c1 s" "c_max_queue c - 1" m]
  show ?thesis by simp
qed

lemma step_bounded:
  assumes "channel_step c c'" "0 < c_max_queue c" "queues_bounded c"
  shows "queues_bounded c'"
proof -
  have n: "c_max_queue c' = c_max_queue c" using options_view.step_view [OF assms(1)] by (simp add: options_of_def)
  have "length (inbox c' s) \<le> c_max_queue c" for s
    using step_inbox [OF assms(1)]
  proof (elim disjE exE conjE)
    assume "thins c c'"
    then obtain n where "inbox c' s = drop n (inbox c s)" by (auto simp: thins_def)
    then show ?thesis using assms(3) by (simp add: queues_bounded_def inbox_def le_diff_conv trans_le_add1)
  next
    fix x m
    assume "arrives x m c c'" "\<forall>y. y \<noteq> x \<longrightarrow> inbox c' y = inbox c y"
    then show ?thesis
      using arrives_bounded [of x m c c'] assms(2,3) by (cases "s = x") (simp_all add: queues_bounded_def inbox_def)
  qed
  then show ?thesis by (simp add: queues_bounded_def inbox_def n)
qed

lemma run_bounded:
  "run c c' \<Longrightarrow> 0 < c_max_queue c \<Longrightarrow> queues_bounded c \<Longrightarrow> queues_bounded c' \<and> options_of c' = options_of c"
  by (induction rule: run.induct) (auto dest: options_view.step_view step_bounded simp: options_of_def)

section \<open>Accepted clients\<close>

text \<open>The heartbeat options that make sense: a positive interval, and a threshold beyond it.\<close>

definition heartbeat_ok :: "pyfloat option \<Rightarrow> pyfloat option \<Rightarrow> bool" where
  "heartbeat_ok interval threshold \<longleftrightarrow>
     (\<forall>i. interval = Some i \<longrightarrow> \<not> float_le i (Fin 0)) \<and>
     (\<forall>t. threshold = Some t \<longrightarrow> finite_positive t \<and>
        (\<forall>i. interval = Some i \<longrightarrow> isfinite i \<and> \<not> float_le t i))"

lemma threshold_ok:
  "validate_heartbeat_threshold interval threshold = Inr () \<Longrightarrow>
   \<forall>i. interval = Some i \<longrightarrow> \<not> float_le i (Fin 0) \<Longrightarrow> heartbeat_ok interval threshold"
  by (auto simp: validate_heartbeat_threshold_def heartbeat_ok_def finite_positive_def
      split: option.splits if_splits)

lemma init_client_options:
  assumes "init_client urlsplit urlunsplit str opts = Inr s"
  shows "\<exists>version. su_client s = new_client version (o_join_timeout opts) (o_leave_timeout opts)
      (nat (o_max_queue opts)) str" "0 < o_max_queue opts"
    "finite_positive (o_join_timeout opts)" "finite_positive (o_leave_timeout opts)"
    "\<not> float_le (o_drain_timeout opts) (Fin 0)" "o_api_key opts \<noteq> Some []"
    "heartbeat_ok (o_heartbeat_interval opts) (o_dead_threshold opts)"
    "normalize_headers (o_headers opts) = Inr (su_headers s)"
  using assms
  by (auto simp: init_client_def andThen_Inr_iff require_def intro!: threshold_ok split: if_splits option.splits)

text \<open>
  Claim C13: a client the constructor accepts is well formed, and every operation keeps it so. Its
  queue limit is positive, its join and leave timeouts are finite and positive, its drain timeout
  is not zero or less (infinity and NaN are accepted), its API key is not empty, a heartbeat
  threshold is finite and exceeds a finite interval; and in every state of every run of it the
  channels satisfy the invariant of the runtime, the options are those it was made with, and no
  topic has more than \<open>max_topic_queue_size\<close> messages queued.
\<close>

theorem accepted_client_stays_well_formed:
  assumes "init_client urlsplit urlunsplit str opts = Inr s" "run (su_client s) c"
  shows "inv c \<and> (\<forall>x. int (length (t_queue (c_sub c x))) \<le> o_max_queue opts) \<and>
    int (c_max_queue c) = o_max_queue opts \<and> 0 < c_max_queue c \<and>
    c_join_timeout c = o_join_timeout opts \<and> finite_positive (c_join_timeout c) \<and>
    c_leave_timeout c = o_leave_timeout opts \<and> finite_positive (c_leave_timeout c) \<and>
    \<not> float_le (o_drain_timeout opts) (Fin 0) \<and> o_api_key opts \<noteq> Some [] \<and>
    heartbeat_ok (o_heartbeat_interval opts) (o_dead_threshold opts)"
proof -
  note o = init_client_options [OF assms(1)]
  obtain version where n: "su_client s = new_client version (o_join_timeout opts) (o_leave_timeout opts)
      (nat (o_max_queue opts)) str" using o(1) by blast
  have q: "options_of (su_client s) = (nat (o_max_queue opts), o_join_timeout opts, o_leave_timeout opts)"
    "queues_bounded (su_client s)"
    by (simp_all add: n new_client_def options_of_def queues_bounded_def new_subscription_def)
  have b: "queues_bounded c" "options_of c = options_of (su_client s)"
    using run_bounded [OF assms(2)] q o(2) by (simp_all add: options_of_def)
  have "reachable (su_client s)" unfolding n by (rule reachable.new)
  then have "inv c" using reachable_inv run_reachable [OF assms(2)] by blast
  moreover have "int (length (t_queue (c_sub c x))) \<le> o_max_queue opts" for x
    using b q(1) o(2) by (auto simp: queues_bounded_def options_of_def dest: spec [of _ x])
  ultimately show ?thesis using b q(1) o(2-7) by (simp add: options_of_def)
qed

definition sample_options :: client_options where
  "sample_options = \<lparr>o_url = lit ''wss://host/socket'', o_api_key = None, o_version = protocol_text V1,
     o_join_timeout = Fin 10, o_leave_timeout = Fin 5, o_max_queue = 1000, o_drain_timeout = Fin 2,
     o_heartbeat_interval = Some (Fin 30), o_dead_threshold = Some (Fin 60), o_headers = None\<rparr>"

lemma sample_accepted_drain:
  assumes "\<not> float_le d (Fin 0)"
  shows "\<exists>s. init_client (\<lambda>_. Inr bare_url) u_query (\<lambda>_. []) (sample_options\<lparr>o_drain_timeout := d\<rparr>) = Inr s"
proof -
  have p: "parse_qsl b (u_query bare_url) = []" for b by (simp add: bare_url_def parse_qsl_def)
  have h: "normalize_headers None = Inr []"
    by (simp add: normalize_headers_def normalize_header_def credentials_def)
  have d: "diagnostic_secrets (\<lambda>_. Inr bare_url) url None [] = Inr []" for url
    by (simp add: diagnostic_secrets_def p)
  have c: "connection_patterns [] = Inr []" by (simp add: connection_patterns_def)
  have w: "with_auth [] None (vsn V1) None = [(vsn_parameter, vsn V1)]"
    by (simp add: with_auth_def authentication_params_def)
  have m: "map conceal [(vsn_parameter, vsn V1)] = [(vsn_parameter, vsn V1)]"
    by (simp add: conceal_def credential_parameter_def)
  obtain q where q: "urlencode [(vsn_parameter, vsn V1)] = Some q"
    using query.ser_obtains [of "[(vsn_parameter, vsn V1)]"] by (auto simp: vsn_parameter_def)
  have b: "build_channel_socket_urls (\<lambda>_. Inr bare_url) u_query url None (vsn V1) None = Inr (q, q)" for url
    using q w m
    by (simp add: build_channel_socket_urls_def build_url_def encode_query_def p del: vsn.simps)
  have t: "validate_heartbeat_threshold (Some (Fin 30)) (Some (Fin 60)) = Inr ()"
    by (simp add: validate_heartbeat_threshold_def isfinite_def float_le_def)
  have s: "select_authentication_header [] = None" by (simp add: select_authentication_header_def)
  have f: "finite_positive (Fin 10)" "finite_positive (Fin 5)" by (simp_all add: finite_positive_def isfinite_def float_le_def)
  show ?thesis
    using h d c b t s f assms
    by (simp add: init_client_def sample_options_def require_def protocol_version_of_def float_le_def del: vsn.simps)
qed

lemma sample_accepted: "\<exists>s. init_client (\<lambda>_. Inr bare_url) u_query (\<lambda>_. []) sample_options = Inr s"
proof -
  have "sample_options\<lparr>o_drain_timeout := Fin 2\<rparr> = sample_options" by (simp add: sample_options_def)
  then show ?thesis using sample_accepted_drain [of "Fin 2"] by (simp add: float_le_def)
qed

text \<open>The test for the drain timeout is not the one for the other two: NaN passes it.\<close>

lemma nan_drain_accepted:
  "\<exists>s. init_client (\<lambda>_. Inr bare_url) u_query (\<lambda>_. []) (sample_options\<lparr>o_drain_timeout := NaN\<rparr>) = Inr s"
  by (rule sample_accepted_drain) (simp add: float_le_def)

lemma accepted_client_stays_well_formed_witness:
  "\<exists>s. init_client (\<lambda>_. Inr bare_url) u_query (\<lambda>_. []) sample_options = Inr s \<and>
    inv (su_client s) \<and> c_max_queue (su_client s) = 1000"
proof -
  obtain s where s: "init_client (\<lambda>_. Inr bare_url) u_query (\<lambda>_. []) sample_options = Inr s"
    using sample_accepted by blast
  with accepted_client_stays_well_formed [OF s run.stay] show ?thesis by (auto simp: sample_options_def)
qed

end
