(* ===== verification/Channel_Losses.thy ===== *)
theory Channel_Losses
  imports Channel_Samples Channel_Frame "HOL-Library.Multiset"
begin

text \<open>
  The calls of \<open>on_topic_lost\<close>: each channel object is reported lost at most once, whichever of its
  tasks notices the loss, and every call is for an object that is marked.
\<close>

section \<open>Steps that leave the reports alone\<close>

definition reports :: "client \<Rightarrow> (pystr \<times> exn) list \<times> (sid \<Rightarrow> bool)" where
  "reports c = (c_lost c, \<lambda>s. t_loss_reported (c_sub c s))"

lemma reports_upd [simp]:
  "t_loss_reported (g (c_sub c s)) = t_loss_reported (c_sub c s) \<Longrightarrow> reports (upd_topic s g c) = reports c"
  by (simp add: reports_def fun_eq_iff)

interpretation reports_view: runtime_view reports
  by unfold_locales (simp_all, simp_all add: reports_def fun_eq_iff upd_session_def)

lemma reports_enqueue [simp]: "reports (upd_topic s (enqueue_message n m) c) = reports c"
  by (simp add: enqueue_message_def Let_def)

interpretation reports_routing:
  frame_callbacks "\<lambda>_ c. c" "handle_channel_control me" "\<lambda>c c'. reports c' = reports c" for me
  by unfold_locales simp_all

lemma reports_restart [simp]:
  "reports (restart_topic s g c) = reports c" "reports (snd (rejoin_restart s g c)) = reports c"
  by (simp_all add: restart_topic_def rejoin_restart_def drain_topic_queue_def frame_defs)

lemma reports_reserve: "reserve_name s c = Inr c' \<Longrightarrow> reports c' = reports c"
  by (auto simp: reserve_name_def ensure_can_send_def andThen_Inr_iff frame_defs reports_def fun_eq_iff
      split: if_splits)

lemma reports_process: "process_topic_message s c = Some (p, c') \<Longrightarrow> reports c' = reports c"
  by (auto simp: process_topic_message_def handle_normal_message_mode_def frame_defs
      split: list.splits option.splits if_splits prod.splits)

lemma reports_open: "reports (snd (open_channel name params hook async blocks c)) =
    (c_lost c, (\<lambda>s. t_loss_reported (c_sub c s))(c_next c := False))"
  by (simp add: open_channel_def new_topic_def reports_def new_subscription_def fun_eq_iff)

lemma reports_handler: "add_event_handler (c_sub c s) e h = Inr t \<Longrightarrow> reports (upd_topic s (\<lambda>_. t) c) = reports c"
  by (auto simp: add_event_handler_def split: if_splits)

lemma reports_app:
  "app_step c c' \<Longrightarrow> reports c' = reports c \<or>
     reports c' = (c_lost c, (\<lambda>s. t_loss_reported (c_sub c s))(c_next c := False))"
  by (induction rule: app_step.induct)
    (auto simp: reports_open reports_handler remove_event_handler_def dest: reports_reserve)

lemma reports_task:
  "task_step c c' \<Longrightarrow> reports c' = reports c \<or> (\<exists>s < c_next c. \<exists>e. c' = report_topic_lost s e c)"
  by (induction rule: task_step.induct)
    (auto simp: deliver_def andThen_Inr_iff reports_routing.route_keeps dest: reports_process)

section \<open>One report for each object\<close>

definition marked :: "client \<Rightarrow> sid set" where
  "marked c = {s. s < c_next c \<and> t_loss_reported (c_sub c s)}"

definition reports_ok :: "client \<Rightarrow> bool" where
  "reports_ok c \<longleftrightarrow> (\<forall>s \<ge> c_next c. \<not> t_loss_reported (c_sub c s)) \<and>
     mset (map fst (c_lost c)) = image_mset (\<lambda>s. t_name (c_sub c s)) (mset_set (marked c))"

lemma finite_marked [simp]: "finite (marked c)"
  by (simp add: marked_def)

lemma reports_ok_same:
  assumes "reports_ok c" "progress c c'" "reports c' = reports c"
  shows "reports_ok c'"
proof -
  have n: "c_next c \<le> c_next c'" using progressD(1) [OF assms(2)] .
  have f: "t_loss_reported (c_sub c' s) = t_loss_reported (c_sub c s)" for s
    using assms(3) by (simp add: reports_def fun_eq_iff)
  then have m: "marked c' = marked c"
    using n assms(1) by (auto simp: marked_def reports_ok_def not_le [symmetric])
  have "t_name (c_sub c' s) = t_name (c_sub c s)" if "s \<in> marked c" for s
    using progressD(4) [OF assms(2), of s] that by (simp add: marked_def topic_progress_def)
  then have "image_mset (\<lambda>s. t_name (c_sub c' s)) (mset_set (marked c)) =
      image_mset (\<lambda>s. t_name (c_sub c s)) (mset_set (marked c))"
    by (intro image_mset_cong) simp
  then show ?thesis
    using assms(1,3) f n unfolding reports_ok_def m by (auto simp: reports_def)
qed

lemma reports_ok_report:
  assumes "reports_ok c" "s < c_next c"
  shows "reports_ok (report_topic_lost s e c)"
proof (cases "t_loss_reported (c_sub c s)")
  case False
  define c' where "c' = report_topic_lost s e c"
  have sub: "c_sub c' = (c_sub c)(s := (c_sub c s)\<lparr>t_loss_reported := True\<rparr>)" "c_next c' = c_next c"
    "c_lost c' = c_lost c @ [(t_name (c_sub c s), e)]"
    using False by (simp_all add: c'_def report_topic_lost_def Let_def)
  have m: "marked c' = insert s (marked c)" "s \<notin> marked c"
    using assms(2) False sub by (auto simp: marked_def)
  have "image_mset (\<lambda>x. t_name (c_sub c' x)) (mset_set (marked c')) =
      image_mset (\<lambda>x. t_name (c_sub c x)) (mset_set (insert s (marked c)))"
    unfolding m(1) by (intro image_mset_cong) (simp add: sub)
  then show ?thesis
    unfolding c'_def [symmetric]
    using assms m(2) sub by (auto simp: reports_ok_def)
qed (use assms in \<open>simp add: report_topic_lost_def\<close>)

lemma reports_ok_reachable: "reachable c \<Longrightarrow> reports_ok c"
proof (induction rule: reachable.induct)
  case (new version jt lt q str)
  show ?case by (simp add: reports_ok_def marked_def new_client_def new_subscription_def)
next
  case (step c c')
  have p: "progress c c'" using sound_step [OF step(2)] reachable_inv [OF step(1)] soundD(1) by blast
  have "(\<lambda>s. t_loss_reported (c_sub c s))(c_next c := False) = (\<lambda>s. t_loss_reported (c_sub c s))"
    using step.IH by (auto simp: reports_ok_def fun_eq_iff)
  then have "reports c' = reports c \<or> (\<exists>s < c_next c. \<exists>e. c' = report_topic_lost s e c)"
    using step(2) reports_app [of c c'] reports_task [of c c'] reports_view.send_view [of c c']
      reports_view.connection_view [of c c']
    unfolding channel_step_def by (auto simp: reports_def)
  then show ?case using reports_ok_same [OF step.IH p] reports_ok_report [OF step.IH] by blast
qed

text \<open>
  Claim C6: the application hears of a lost channel once. In every reachable state the names
  that \<open>on_topic_lost\<close> was called with are, counted with repetitions, the names of the channel
  objects marked as reported: one call for each of them, although a crash, a refused rejoin, a
  close and a failed processor may each try to report it, in tasks of their own; and once an
  object is marked, no later attempt does anything.
\<close>

theorem loss_reported_once:
  assumes "reachable c"
  shows "mset (map fst (c_lost c)) =
      image_mset (\<lambda>s. t_name (c_sub c s)) (mset_set {s. s < c_next c \<and> t_loss_reported (c_sub c s)}) \<and>
    (\<forall>c' s e. run c c' \<and> s < c_next c \<and> t_loss_reported (c_sub c s) \<longrightarrow> report_topic_lost s e c' = c')"
proof -
  have "t_loss_reported (c_sub c' s)" if "run c c'" "s < c_next c" "t_loss_reported (c_sub c s)" for c' s
    using progressD(4) [OF run_progress [OF that(1) assms] that(2)] that(3) by (simp add: topic_progress_def)
  then show ?thesis
    using reports_ok_reachable [OF assms] by (auto simp: reports_ok_def marked_def report_topic_lost_def)
qed

lemma loss_reported_once_witness:
  "\<exists>c. reachable c \<and> c_lost c = [(lit ''room'', TimeoutError)] \<and>
    report_topic_lost 1 CancelledError c = c"
proof -
  define c where "c = report_topic_lost 1 TimeoutError sample_joined"
  have n: "1 < c_next sample_joined" by (simp add: sample_defs)
  have r: "reachable c"
    unfolding c_def
    by (rule reachable.step [OF sample_joined_reachable]) (use task_step.lost [OF n] in \<open>unfold channel_step_def, blast\<close>)
  have e: "c_lost c = [(lit ''room'', TimeoutError)]" "t_loss_reported (c_sub c 1)" "1 < c_next c"
    by (simp_all add: c_def report_topic_lost_def sample_defs)
  with loss_reported_once [OF r] run.stay r show ?thesis by blast
qed

end
