(* ===== verification/Channel_Stopping.thy ===== *)
theory Channel_Stopping
  imports Channel_Calm
begin

text \<open>
  The client's state and its shutdown flag, segment by segment, and what follows: a client that was
  asked to stop takes on no work until it is entered again.
\<close>

section \<open>State and shutdown flag, segment by segment\<close>

text \<open>The two attributes that decide whether a transition is allowed.\<close>

definition flags :: "client \<Rightarrow> bool \<times> client_state" where
  "flags c = (c_shutdown c, c_state c)"

lemma env_flags: "env c' = env c \<Longrightarrow> flags c' = flags c"
  by (simp add: env_def flags_def)

lemma env_cleanup_end: "env (cleanup_connection_end conn ses c) = env c"
proof -
  have "env (fold (settle_topic conn) ss c1) = env c1" for ss c1
    by (rule env_view.fold_view) (simp add: settle_topic_def Let_def)
  then show ?thesis by (simp add: cleanup_connection_end_def Let_def split: option.split)
qed

lemma flags_cleanup_begin: "flags (cleanup_connection_begin me own c) = flags c"
proof -
  define c1 where "c1 = fail_pending_joins me connection_lost_waiting c"
  define ks where "ks = filter (\<lambda>k. \<not> task_done c1 k) (own @ channel_recoveries c1)"
  have "env (fold request_cancel ks (c1\<lparr>c_connection := None\<rparr>)) = env (c1\<lparr>c_connection := None\<rparr>)"
    by (rule env_view.fold_view) simp
  then have "flags (fold request_cancel ks (c1\<lparr>c_connection := None\<rparr>)) = flags c1"
    by (simp add: env_flags [of _ "c1\<lparr>c_connection := None\<rparr>"] flags_def env_def options_of_def)
  also have "flags c1 = flags c" by (rule env_flags) (simp add: c1_def)
  finally show ?thesis
    unfolding cleanup_connection_begin_def Let_def c1_def [symmetric] ks_def .
qed

lemma flags_request_stop:
  "flags (request_stop me c) =
     (True, if c_state c \<notin> {SHUTTING_DOWN, CLOSED} then SHUTTING_DOWN else c_state c)"
proof -
  have "flags (retire_channels me e c1) = flags c1" for e c1 by (rule env_flags) simp
  then show ?thesis by (simp add: request_stop_def Let_def flags_def)
qed

lemma flags_supervisor [simp]:
  "flags (snd (new_task w c)) = flags c" "flags (request_cancel k c) = flags c"
  "flags (snd (generate_ref c)) = flags c" "flags (fail_pending_joins me e c) = flags c"
  by (rule env_flags, simp)+

lemma flags_connection [simp]:
  "flags (set_connection c) = flags c" "flags (next_generation c) = flags c"
  by (simp_all add: flags_def set_connection_def next_generation_def)

lemma flags_cleanup_end [simp]: "flags (cleanup_connection_end conn ses c) = flags c"
  by (rule env_flags) (rule env_cleanup_end)

lemma flags_unsubscribe: "flags (fold (\<lambda>s c. snd (leave_channel s k c)) ss c) = flags c"
  by (rule env_flags, rule env_view.fold_view) simp

lemma flags_transition: "transition_state st c = Inr c' \<Longrightarrow> flags c' = (c_shutdown c, st)"
  by (auto simp: transition_state_def transition_client_state_def andThen_Inr_iff flags_def
      split: if_splits)

lemma flags_exit:
  "\<exists>c'. retire_at_exit me c = Inr c' \<and>
    flags c' = (c_shutdown c, if c_state c = SHUTTING_DOWN then SHUTTING_DOWN else CLOSED)"
proof (cases "c_state c = SHUTTING_DOWN")
  case False
  define c1 where "c1 = (if c_registry c \<noteq> [] then retire_channels me supervisor_stopped c else c)"
  have f: "flags c1 = flags c" by (rule env_flags) (simp add: c1_def)
  then have "transition_state CLOSED c1 = Inr (c1\<lparr>c_state := CLOSED\<rparr>)"
    using False by (cases "c_state c")
      (simp_all add: flags_def transition_state_def transition_client_state_def)
  with f False show ?thesis by (simp add: retire_at_exit_def c1_def flags_def)
qed (simp add: retire_at_exit_def flags_def)

section \<open>Until the client is entered again\<close>

text \<open>The runs in which no step is \<open>__aenter__\<close>.\<close>

inductive unentered :: "client \<Rightarrow> client \<Rightarrow> bool" where
  stay: "unentered c c"
| go: "unentered c c' \<Longrightarrow> channel_step c' c'' \<Longrightarrow>
    (\<forall>stopping. enter_client stopping c' \<noteq> Inr c'') \<Longrightarrow> unentered c c''"

definition halted :: "client \<Rightarrow> bool" where
  "halted c \<longleftrightarrow> c_shutdown c \<and> c_state c \<noteq> CONNECTED"

lemma halted_flags: "flags c' = flags c \<Longrightarrow> halted c \<Longrightarrow> halted c'"
  by (simp add: flags_def halted_def)

lemma halted_calm: "calm c c' \<Longrightarrow> halted c \<Longrightarrow> halted c'"
proof -
  assume "calm c c'" "halted c"
  then have "env c' = env c" unfolding calm_def halted_def by blast
  then show "halted c'" using halted_flags [OF env_flags \<open>halted c\<close>] by blast
qed

lemma halted_state: "transition_state st c = Inr c' \<Longrightarrow> st \<noteq> CONNECTED \<Longrightarrow> halted c \<Longrightarrow> halted c'"
  using flags_transition [of st c c'] by (simp add: flags_def halted_def)

lemma halted_exit: "retire_at_exit me c = Inr c' \<Longrightarrow> halted c \<Longrightarrow> halted c'"
  using flags_exit [of me c] by (auto simp: flags_def halted_def)

lemma halted_stop: "halted (request_stop me c)"
  using flags_request_stop [of me c] by (auto simp: flags_def halted_def)

lemma halted_connection:
  "connection_step c c' \<Longrightarrow> (\<exists>stopping. enter_client stopping c = Inr c') \<or> (halted c \<longrightarrow> halted c')"
proof (induction rule: connection_step.induct)
  case (heartbeat m conn c c')
  then have "flags c' = flags c"
    by (auto simp: send_message_def andThen_Inr_iff flags_def generate_ref_def)
  then show ?case using halted_flags by blast
next
  case (reconnecting c c')
  then show ?case using halted_state by blast
next
  case (exited me c c')
  then show ?case using halted_exit by blast
next
  case (stopped c c')
  then show ?case using halted_state unfolding shutdown_end_def by blast
next
  case (cleanup c me own)
  show ?case using halted_flags [OF flags_cleanup_begin] by blast
next
  case (entered stopping c c')
  then show ?case by blast
next
  case (stop_won c)
  show ?case using halted_flags [OF flags_connection(1)] by blast
next
  case (routing_stopped c me e)
  show ?case using halted_flags [OF flags_supervisor(4)] by blast
next
  case (cleaned_up c conn ses)
  show ?case using halted_flags [OF flags_cleanup_end] by blast
next
  case (stop c me)
  show ?case using halted_stop by blast
next
  case (started c w)
  show ?case using halted_flags [OF flags_supervisor(1)] by blast
next
  case (ref_taken c)
  show ?case using halted_flags [OF flags_supervisor(3)] by blast
next
  case (cancel_requested c k)
  show ?case using halted_flags [OF flags_supervisor(2)] by blast
qed (simp_all add: halted_def)

lemma halted_step:
  assumes "channel_step c c'" "\<forall>stopping. enter_client stopping c \<noteq> Inr c'" "halted c"
  shows "halted c'"
  using assms calm_app [of c c'] calm_send [of c c'] calm_task [of c c'] halted_calm [of c c']
    halted_connection [of c c']
  unfolding channel_step_def by blast

lemma halted_unentered: "unentered c c' \<Longrightarrow> halted c \<Longrightarrow> halted c'"
  by (induction rule: unentered.induct) (auto intro: halted_step)

text \<open>A step that leaves the stop requested enters nothing.\<close>

lemma still_stopped: "c_shutdown c' \<Longrightarrow> enter_client stopping c \<noteq> Inr c'"
  using flags_transition by (fastforce simp: enter_client_def flags_def split: if_splits)

lemma halted_refuses:
  assumes "halted c"
  shows "\<not> is_connected c \<and> (\<exists>e. reserve_name s c = Inl e) \<and> \<not> channel_joined c s \<and>
    (\<exists>e. fst (push_begin s ev x t c) = Inl e) \<and> \<not> can_recover c s gen"
proof -
  have n: "\<not> is_connected c" using assms by (simp add: halted_def is_connected_def)
  then have j: "\<not> channel_joined c s" by (simp add: channel_joined_def is_on_current_connection_def)
  have "\<exists>e. reserve_name s c = Inl e"
    using n by (simp add: reserve_name_def ensure_can_send_def)
  with n j show ?thesis by (simp add: push_begin_def can_recover_def)
qed

text \<open>
  Claim C10: a stop ends every channel at once. When the application asks the client to stop, in the
  same step every registered channel is left, its join has an outcome and no push is pending; and
  these channels stay left in every later state. Until the client is entered again, in every state of
  every run the stop stays requested, the client is not connected, every join and every push is
  refused and no channel may recover.
\<close>

theorem stop_ends_every_channel:
  assumes "reachable c"
  shows "c_shutdown (request_stop me c) \<and> \<not> is_connected (request_stop me c) \<and>
    (\<forall>(n, s) \<in> set (c_registry c). settled (request_stop me c) s \<and>
       t_pending_pushes (c_sub (request_stop me c) s) = [] \<and>
       (\<forall>gen. \<not> can_recover (request_stop me c) s gen) \<and>
       (\<forall>c'. run (request_stop me c) c' \<longrightarrow>
          t_state (c_sub c' s) = LEFT \<and> t_pending_pushes (c_sub c' s) = [])) \<and>
    (\<forall>c'. unentered (request_stop me c) c' \<longrightarrow> c_shutdown c' \<and> \<not> is_connected c' \<and>
       (\<forall>s. (\<exists>e. reserve_name s c' = Inl e) \<and> (\<forall>ev x t. \<exists>e. fst (push_begin s ev x t c') = Inl e) \<and>
          (\<forall>gen. \<not> can_recover c' s gen)))"
proof -
  have "halted c'" if "unentered (request_stop me c) c'" for c'
    using halted_unentered [OF that halted_stop] .
  then show ?thesis
    using stop_ends_channels [OF assms, of me] halted_refuses by (auto simp: halted_def)
qed

lemma stop_ends_every_channel_witness:
  "settled (request_stop None sample_joined) 1 \<and>
   (\<exists>e. reserve_name 1 (cleanup_end 1 (request_stop None sample_joined)) = Inl e)"
proof -
  let ?c = "request_stop None sample_joined"
  have "(lit ''room'', 1) \<in> set (c_registry sample_joined)" by (simp add: sample_defs)
  moreover have "unentered ?c (cleanup_end 1 ?c)"
  proof (rule unentered.go [OF unentered.stay])
    show "channel_step ?c (cleanup_end 1 ?c)" by (simp add: channel_step_def task_step.cleaned)
    have "flags (cleanup_end 1 ?c) = flags ?c" by (rule env_flags) simp
    then have "c_shutdown (cleanup_end 1 ?c)" using halted_stop halted_flags halted_def by blast
    then show "\<forall>stopping. enter_client stopping ?c \<noteq> Inr (cleanup_end 1 ?c)" using still_stopped by blast
  qed
  ultimately show ?thesis
    using stop_ends_every_channel [OF sample_joined_reachable, of None] by blast
qed

end
