(* ===== verification/Close_Reason.thy ===== *)
theory Close_Reason
  imports Messages
begin

text \<open>
  The reason of a forced close (\<open>supervisor.py\<close>): cut to the 123 bytes a close frame has room
  for, without leaving half a character.
\<close>

definition forced_close_code :: int where
  "forced_close_code = 4000"

definition max_close_reason_bytes :: nat where
  "max_close_reason_bytes = 123"

definition truncate_close_reason :: "pystr \<Rightarrow> exn + pystr" where
  "truncate_close_reason reason =
     (case utf8_encode reason of
        None \<Rightarrow> Inl (ValueError (lit ''surrogates not allowed''))
      | Some encoded \<Rightarrow>
          Inr (if length encoded \<le> max_close_reason_bytes then reason
               else utf8_decode_ignore (take max_close_reason_bytes encoded)))"

section \<open>What truncation keeps\<close>

lemma fit_split:
  "\<exists>rest. s = fit n s @ rest \<and> length (concat (map utf8_cp (fit n s))) \<le> n \<and>
    (rest \<noteq> [] \<longrightarrow> n < length (concat (map utf8_cp (fit n s))) + length (utf8_cp (hd rest)))"
proof (induction n s rule: fit.induct)
  case (2 n c s)
  show ?case
  proof (cases "length (utf8_cp c) \<le> n")
    case True
    with "2.IH" obtain rest where
      "s = fit (n - length (utf8_cp c)) s @ rest"
      "length (concat (map utf8_cp (fit (n - length (utf8_cp c)) s))) \<le> n - length (utf8_cp c)"
      "rest \<noteq> [] \<longrightarrow> n - length (utf8_cp c) <
        length (concat (map utf8_cp (fit (n - length (utf8_cp c)) s))) + length (utf8_cp (hd rest))"
      by blast
    with True show ?thesis by (intro exI [of _ rest]) auto
  next
    case False
    then show ?thesis by (intro exI [of _ "c # s"]) simp
  qed
qed simp

lemma fit_all: "length (concat (map utf8_cp s)) \<le> n \<Longrightarrow> fit n s = s"
  by (induction n s rule: fit.induct) auto

lemma truncate_fit:
  assumes "list_all encodable s"
  shows "truncate_close_reason s = Inr (fit max_close_reason_bytes s)"
proof -
  obtain bs where bs: "utf8_encode s = Some bs" using assms by (simp add: utf8_encode_def)
  have u: "map unat bs = concat (map utf8_cp s)" using utf8_encode_unat [OF bs] by simp
  then have "length bs = length (concat (map utf8_cp s))" by (metis length_map)
  moreover have "utf8_decode_ignore (take n bs) = fit n s" for n
    using utf8_ignore_take [OF assms] u by (simp add: utf8_decode_ignore_def flip: take_map)
  ultimately show ?thesis using fit_all bs by (simp add: truncate_close_reason_def)
qed

text \<open>
  The reason of a forced close always fits in its frame and loses as little as it can:
  for a text that encodes to UTF-8, truncation returns the longest prefix of whole characters that
  takes at most 123 bytes; a text that does not encode is refused.
\<close>

lemma truncated_reason_fits:
  "case truncate_close_reason s of
     Inl e \<Rightarrow> \<not> list_all encodable s \<and> (\<exists>x. e = ValueError x)
   | Inr t \<Rightarrow> \<exists>rest bs. s = t @ rest \<and> utf8_encode t = Some bs \<and> length bs \<le> 123 \<and>
       (rest = [] \<or> 123 < length bs + length (utf8_cp (hd rest)))"
proof (cases "list_all encodable s")
  case False
  then show ?thesis by (simp add: truncate_close_reason_def utf8_encode_def)
next
  case True
  obtain rest where r: "s = fit 123 s @ rest" "length (concat (map utf8_cp (fit 123 s))) \<le> 123"
    "rest \<noteq> [] \<longrightarrow> 123 < length (concat (map utf8_cp (fit 123 s))) + length (utf8_cp (hd rest))"
    using fit_split [of s 123] by blast
  have "list_all encodable (fit 123 s)" using True r(1) by (metis list_all_append)
  then obtain bs where "utf8_encode (fit 123 s) = Some bs"
    "length bs = length (concat (map utf8_cp (fit 123 s)))"
    by (simp add: utf8_encode_def)
  with r truncate_fit [OF True] show ?thesis by (auto simp: max_close_reason_bytes_def)
qed

end
