(* ===== verification/Supervisor.thy ===== *)
theory Supervisor
  imports Channel_Stopping Close_Reason
begin

text \<open>
  The connection supervisor (\<open>supervisor.py\<close>) and the parts of \<open>client.py\<close> that start and stop
  it. The record adds the supervisor's attributes to the state of the channel runtime. Each
  coroutine is cut where it waits; what the application's decider answers, the clock and what the
  socket did are arguments. A segment that can raise returns the state with the error.
\<close>

section \<open>State\<close>

text \<open>The \<open>asyncio.Timeout\<close> around the heartbeats: its deadline, and whether it has passed.\<close>

record heartbeat_timer =
  w_when :: "real option"
  w_expired :: bool

text \<open>Calls of the application's callbacks, as the outside sees them.\<close>

datatype callback = On_Heartbeat_Ack | On_Reconnect | On_Disconnect "exn option"

record supervisor =
  v_client :: client
  v_auto_reconnect :: bool
  v_url_redacted :: pystr
  v_connected :: bool
  v_initial :: "fut option"
  v_terminal :: "exn option"
  v_threshold :: "real option"
  v_interval :: "pyfloat option"
  v_deadline :: "real option"
  v_timer :: "heartbeat_timer option"
  v_heartbeat_task :: "tid option"
  v_routing_task :: "tid option"
  v_supervisor_task :: "tid option"
  v_shutdown_task :: "tid option"
  v_initiator :: "tid option"
  v_pending_ref :: "pystr option"
  v_forced_close :: bool
  v_on_reconnect :: bool
  v_on_disconnect :: bool
  v_on_ack :: bool
  v_calls :: "callback list"

definition upd_client :: "(client \<Rightarrow> client) \<Rightarrow> supervisor \<Rightarrow> supervisor" where
  "upd_client h v = v\<lparr>v_client := h (v_client v)\<rparr>"

definition call_back :: "callback \<Rightarrow> supervisor \<Rightarrow> supervisor" where
  "call_back x v = v\<lparr>v_calls := v_calls v @ [x]\<rparr>"

definition start_task :: "work \<Rightarrow> supervisor \<Rightarrow> tid \<times> supervisor" where
  "start_task w v =
     (case new_task w (v_client v) of (k, c) \<Rightarrow> (k, v\<lparr>v_client := c\<rparr>))"

section \<open>Forced closes\<close>

text \<open>
  The close frame sent, if any; \<open>is_open\<close> is whether the connection's state is \<open>OPEN\<close>. A reason
  that does not encode raises before anything is changed.
\<close>

definition force_close_connection ::
  "bool \<Rightarrow> pystr \<Rightarrow> supervisor \<Rightarrow> (exn + (int \<times> pystr) option) \<times> supervisor" where
  "force_close_connection is_open reason v =
     (if \<not> is_open then (Inr None, v)
      else (case truncate_close_reason reason of
              Inl e \<Rightarrow> (Inl e, v)
            | Inr r \<Rightarrow> (Inr (Some (forced_close_code, r)), v\<lparr>v_forced_close := True\<rparr>)))"

text \<open>How the wait for the close ends: whether the transport is aborted, and what goes on.\<close>

definition forced_close_ended :: "exn option \<Rightarrow> bool \<times> exn option" where
  "forced_close_ended r = (r \<noteq> None, r)"

definition close_connection ::
  "bool \<Rightarrow> pystr \<Rightarrow> supervisor \<Rightarrow> (exn + (int \<times> pystr) option) \<times> supervisor" where
  "close_connection is_open reason v =
     (if c_connection (v_client v) = None then (Inr None, v)
      else force_close_connection is_open reason v)"

section \<open>Heartbeats\<close>

text \<open>An acknowledged heartbeat; the callback's own failure is only logged.\<close>

definition acknowledge_heartbeat :: "supervisor \<Rightarrow> supervisor" where
  "acknowledge_heartbeat v =
     (let v1 = v\<lparr>v_pending_ref := None\<rparr> in if v_on_ack v then call_back On_Heartbeat_Ack v1 else v1)"

definition handle_heartbeat_response :: "real \<Rightarrow> message \<Rightarrow> supervisor \<Rightarrow> supervisor" where
  "handle_heartbeat_response now m v =
     (if m_ref m = None \<or> m_ref m \<noteq> v_pending_ref v then v
      else (case v_threshold v of
              None \<Rightarrow> acknowledge_heartbeat v
            | Some threshold \<Rightarrow>
                (case v_timer v of
                   None \<Rightarrow> v
                 | Some timer \<Rightarrow>
                     if w_expired timer then v
                     else (case w_when timer of
                             None \<Rightarrow> v
                           | Some deadline \<Rightarrow>
                               if deadline \<le> now then v
                               else acknowledge_heartbeat
                                 (v\<lparr>v_timer := Some (timer\<lparr>w_when := Some (now + threshold)\<rparr>)\<rparr>)))))"

text \<open>One turn of \<open>_send_heartbeats\<close> after its wait.\<close>

datatype beat = Beat_Stop | Beat_Skip | Beat_Sent pystr | Beat_Raised exn

definition send_heartbeat :: "cid \<Rightarrow> supervisor \<Rightarrow> beat \<times> supervisor" where
  "send_heartbeat conn v =
     (if c_shutdown (v_client v) then (Beat_Stop, v)
      else if v_pending_ref v \<noteq> None \<and> v_threshold v \<noteq> None then (Beat_Skip, v)
      else (let (ref, c1) = generate_ref (v_client v);
                v1 = v\<lparr>v_client := c1, v_pending_ref := Some ref\<rparr>;
                m = make_message (Custom heartbeat_event) phoenix_topic (Some ref) (Some (PDict [])) None
            in case send_message conn m c1 of
                 Inl e \<Rightarrow> (Beat_Raised e, v1)
               | Inr c2 \<Rightarrow> (Beat_Sent ref, v1\<lparr>v_client := c2\<rparr>)))"

text \<open>\<open>_heartbeat_loop\<close> up to its first wait, and how it ends: whether it forces a close.\<close>

definition heartbeat_loop_begin :: "real option \<Rightarrow> supervisor \<Rightarrow> supervisor" where
  "heartbeat_loop_begin deadline v = v\<lparr>v_timer := Some \<lparr>w_when = deadline, w_expired = False\<rparr>\<rparr>"

datatype loop_end = Loop_Returned | Loop_Timed_Out | Loop_Failed exn

definition heartbeat_loop_end :: "loop_end \<Rightarrow> supervisor \<Rightarrow> bool \<times> supervisor" where
  "heartbeat_loop_end how v =
     (let v1 = v\<lparr>v_timer := None\<rparr>
      in case how of
           Loop_Returned \<Rightarrow> (False, v1)
         | Loop_Timed_Out \<Rightarrow> (v_threshold v \<noteq> None, v1)
         | Loop_Failed e \<Rightarrow> (is_exception e \<and> v_threshold v \<noteq> None, v1))"

section \<open>Decisions\<close>

text \<open>\<open>__aenter__\<close>'s wait is resolved once.\<close>

definition settle_initial_connection :: "exn option \<Rightarrow> supervisor \<Rightarrow> supervisor" where
  "settle_initial_connection error v =
     (if v_initial v = Some Pending
      then v\<lparr>v_initial := Some (case error of None \<Rightarrow> Result None | Some e \<Rightarrow> Failed e)\<rparr>
      else v)"

definition record_terminal_error :: "exn \<Rightarrow> supervisor \<Rightarrow> supervisor" where
  "record_terminal_error e v = settle_initial_connection (Some e) (v\<lparr>v_terminal := Some e\<rparr>)"

definition proceeds ::
  "reconnect_event \<Rightarrow> outcome \<Rightarrow> supervisor \<Rightarrow> (exn + decision option) \<times> supervisor" where
  "proceeds event out v =
     (case decide event out of
        Inl e \<Rightarrow> (Inl e, v)
      | Inr d \<Rightarrow>
          if should_reconnect d then (Inr (Some d), v)
          else (Inr None, (case terminal_error d of
                             Some e \<Rightarrow> record_terminal_error e v
                           | None \<Rightarrow> v)))"

definition transition_to :: "client_state \<Rightarrow> supervisor \<Rightarrow> (exn + unit) \<times> supervisor" where
  "transition_to st v =
     (case transition_state st (v_client v) of
        Inl e \<Rightarrow> (Inl e, v)
      | Inr c \<Rightarrow> (Inr (), v\<lparr>v_client := c\<rparr>))"

text \<open>Go on in state \<open>RECONNECTING\<close> after a decision that says so.\<close>

definition reconnecting ::
  "(exn + decision option) \<times> supervisor \<Rightarrow> (exn + decision option) \<times> supervisor" where
  "reconnecting r =
     (case r of
        (Inr (Some d), v) \<Rightarrow>
          (case transition_to RECONNECTING v of
             (Inl e, v1) \<Rightarrow> (Inl e, v1)
           | (Inr _, v1) \<Rightarrow> (Inr (Some d), v1))
      | _ \<Rightarrow> r)"

definition retry_after_connect_failure ::
  "(pystr \<Rightarrow> pystr) \<Rightarrow> exn \<Rightarrow> outcome \<Rightarrow> supervisor \<Rightarrow> (exn + decision option) \<times> supervisor" where
  "retry_after_connect_failure redact exc out v =
     (if \<not> v_auto_reconnect v then
        (Inr None, settle_initial_connection
           (Some (SocketError (redact (lit ''Failed to connect to '' @ v_url_redacted v
                                         @ lit '': '' @ exn_text exc)))) v)
      else if c_shutdown (v_client v) then (Inr None, v)
      else reconnecting (proceeds (ConnectFailed exc) out v))"

record close_details =
  cd_code :: "int option"
  cd_reason :: pystr
  cd_forced :: bool

text \<open>A forced close carries no code to decide on.\<close>

definition disconnect_event :: "close_details \<Rightarrow> reconnect_event" where
  "disconnect_event close =
     (if cd_forced close then Disconnected None [] else Disconnected (cd_code close) (cd_reason close))"

definition decide_reconnect ::
  "close_details \<Rightarrow> outcome \<Rightarrow> supervisor \<Rightarrow> (exn + decision option) \<times> supervisor" where
  "decide_reconnect close out v =
     (if c_shutdown (v_client v) \<or> \<not> v_auto_reconnect v then (Inr None, v)
      else proceeds (disconnect_event close) out v)"

section \<open>Losing the connection\<close>

text \<open>\<open>_cleanup_connection\<close> up to its wait, and after it.\<close>

definition supervisor_cleanup_begin :: "tid option \<Rightarrow> supervisor \<Rightarrow> supervisor" where
  "supervisor_cleanup_begin me v =
     v\<lparr>v_client := cleanup_connection_begin me
          (List.map_filter id [v_heartbeat_task v, v_routing_task v]) (v_client v),
       v_heartbeat_task := None, v_deadline := None, v_routing_task := None,
       v_pending_ref := None, v_connected := False, v_forced_close := False\<rparr>"

definition supervisor_cleanup_end :: "cid option \<Rightarrow> ssid option \<Rightarrow> supervisor \<Rightarrow> supervisor" where
  "supervisor_cleanup_end conn session = upd_client (cleanup_connection_end conn session)"

text \<open>The routing task ends before any cleanup: joins that wait for a reply fail.\<close>

definition routing_stopped :: "tid option \<Rightarrow> cid \<Rightarrow> tid \<Rightarrow> bool \<Rightarrow> supervisor \<Rightarrow> supervisor" where
  "routing_stopped me conn task cancelled v =
     (if c_connection (v_client v) = Some conn \<and> v_routing_task v = Some task \<and> \<not> cancelled
      then upd_client (fail_pending_joins me connection_lost_waiting) v else v)"

section \<open>One connection\<close>

datatype adoption = Stop_Won | Refused_Connection | Adopted

definition heartbeat_deadline_from :: "real \<Rightarrow> supervisor \<Rightarrow> real option" where
  "heartbeat_deadline_from now v =
     (case (v_interval v, v_threshold v) of
        (Some _, Some threshold) \<Rightarrow> Some (now + threshold)
      | _ \<Rightarrow> None)"

text \<open>The gate after a connection came up; without \<open>auto_reconnect\<close> there is none.\<close>

definition gate ::
  "reconnect_event \<Rightarrow> outcome \<Rightarrow> supervisor \<Rightarrow> (exn + bool) \<times> supervisor" where
  "gate event out v =
     (if \<not> v_auto_reconnect v then (Inr True, v)
      else (case proceeds event out v of
              (Inl e, v1) \<Rightarrow> (Inl e, v1)
            | (Inr d, v1) \<Rightarrow> (Inr (d \<noteq> None), v1)))"

definition adopt_connection ::
  "tid option \<Rightarrow> outcome \<Rightarrow> real \<Rightarrow> supervisor \<Rightarrow> (exn + adoption) \<times> supervisor" where
  "adopt_connection me out now v =
     (let v1 = upd_client set_connection v
      in if c_shutdown (v_client v1) then (Inr Stop_Won, v1)
         else (let v2 = upd_client next_generation v1
               in case gate (Connected (c_generation (v_client v2))) out v2 of
                    (Inl e, v3) \<Rightarrow> (Inl e, v3)
                  | (Inr False, v3) \<Rightarrow> (Inr Refused_Connection, supervisor_cleanup_begin me v3)
                  | (Inr True, v3) \<Rightarrow>
                      (case transition_to CONNECTED
                          (v3\<lparr>v_deadline := heartbeat_deadline_from now v3, v_connected := True\<rparr>) of
                         (Inl e, v4) \<Rightarrow> (Inl e, v4)
                       | (Inr _, v4) \<Rightarrow> (Inr Adopted, v4))))"

text \<open>\<open>_start_session\<close> up to the rejoin of the topics, and after it.\<close>

definition start_session :: "cid \<Rightarrow> supervisor \<Rightarrow> supervisor" where
  "start_session conn v =
     (let (k, v1) = start_task (Start_Processing conn (c_generation (v_client v)))
                      (v\<lparr>v_pending_ref := None\<rparr>);
          v2 = v1\<lparr>v_routing_task := Some k\<rparr>
      in if v_interval v = None then v2
         else (let (h, v3) = start_task (Heartbeat_Loop conn) v2 in v3\<lparr>v_heartbeat_task := Some h\<rparr>))"

text \<open>Whether the application's \<open>on_reconnect\<close> is awaited, and the state.\<close>

definition session_started :: "nat \<Rightarrow> supervisor \<Rightarrow> bool \<times> supervisor" where
  "session_started generation v =
     (let v1 = settle_initial_connection None v
      in if 1 < generation \<and> v_on_reconnect v \<and> \<not> c_shutdown (v_client v)
         then (True, call_back On_Reconnect v1) else (False, v1))"

text \<open>What the routing task's end gives: the error the session ended with; a cancellation raises.\<close>

definition await_routing :: "exn option \<Rightarrow> exn + exn option" where
  "await_routing r =
     (case r of
        None \<Rightarrow> Inr None
      | Some e \<Rightarrow> if is_exception e then Inr (Some e) else Inl e)"

text \<open>\<open>_end_session\<close> up to its wait: what the close is decided on, read before the cleanup.\<close>

definition end_session ::
  "tid option \<Rightarrow> int option \<Rightarrow> pystr option \<Rightarrow> exn option \<Rightarrow> supervisor \<Rightarrow> close_details \<times> supervisor" where
  "end_session me close_code close_reason routing_error v =
     (case extract_close_details close_code close_reason routing_error of
        (code, reason) \<Rightarrow>
          (\<lparr>cd_code = code, cd_reason = reason, cd_forced = v_forced_close v\<rparr>, supervisor_cleanup_begin me v))"

section \<open>The end of the supervisor\<close>

definition never_connected :: exn where
  "never_connected = SocketError (lit ''Connection supervisor stopped before connecting'')"

definition settle_supervisor_exit :: "tid option \<Rightarrow> supervisor \<Rightarrow> (exn + unit) \<times> supervisor" where
  "settle_supervisor_exit me v =
     (let v1 = (settle_initial_connection (Some never_connected) v)\<lparr>v_connected := False\<rparr>
      in case retire_at_exit me (v_client v1) of
           Inl e \<Rightarrow> (Inl e, v1)
         | Inr c \<Rightarrow> (Inr (), v1\<lparr>v_client := c\<rparr>))"

section \<open>Entering, stopping, waiting\<close>

definition task_active :: "supervisor \<Rightarrow> tid option \<Rightarrow> bool" where
  "task_active v k = (case k of None \<Rightarrow> False | Some t \<Rightarrow> \<not> task_done (v_client v) t)"

definition active_shutdown :: "supervisor \<Rightarrow> tid option" where
  "active_shutdown v = (if task_active v (v_shutdown_task v) then v_shutdown_task v else None)"

text \<open>\<open>__aenter__\<close> up to its wait for the first connection.\<close>

definition enter :: "supervisor \<Rightarrow> exn + supervisor" where
  "enter v =
     andThen (enter_client (active_shutdown v \<noteq> None) (v_client v)) (\<lambda>c.
       let (k, v1) = start_task Supervisor_Loop
             (v\<lparr>v_client := c, v_connected := False, v_terminal := None, v_initial := Some Pending\<rparr>)
       in Inr (v1\<lparr>v_supervisor_task := Some k\<rparr>))"

text \<open>\<open>shutdown\<close> up to its wait: the task every caller waits for, if there is anything to stop.\<close>

definition shutdown :: "tid option \<Rightarrow> supervisor \<Rightarrow> tid option \<times> supervisor" where
  "shutdown me v =
     (case active_shutdown v of
        Some k \<Rightarrow> (Some k, v)
      | None \<Rightarrow>
          if is_fully_closed (v_client v) then (None, v)
          else (let (k, v1) = start_task Shutdown_Client
                      (upd_client (request_stop me) (v\<lparr>v_initiator := me\<rparr>))
                in (Some k, v1\<lparr>v_shutdown_task := Some k\<rparr>)))"

text \<open>The segments of \<open>_shutdown\<close>: stop the supervisor, clean up, leave every channel, close.\<close>

definition stop_supervisor :: "supervisor \<Rightarrow> supervisor" where
  "stop_supervisor v =
     (let v1 = v\<lparr>v_supervisor_task := None\<rparr>
      in case v_supervisor_task v of
           None \<Rightarrow> v1
         | Some k \<Rightarrow> if task_done (v_client v) k then v1 else upd_client (request_cancel k) v1)"

definition unsubscribe_all :: "supervisor \<Rightarrow> supervisor" where
  "unsubscribe_all v =
     upd_client (\<lambda>c. fold (\<lambda>s c. snd (leave_channel s (v_initiator v) c)) (dict_values (c_registry c)) c) v"

definition shutdown_finish :: "supervisor \<Rightarrow> (exn + unit) \<times> supervisor" where
  "shutdown_finish v = transition_to CLOSED (v\<lparr>v_connected := False\<rparr>)"

definition run_forever_begin :: "supervisor \<Rightarrow> exn + tid" where
  "run_forever_begin v =
     (case v_supervisor_task v of
        None \<Rightarrow> Inl (SocketError (lit ''Client is not connected. Use 'async with' context manager.''))
      | Some k \<Rightarrow> Inr k)"

text \<open>Its end, with how the supervisor's task ended: cancelled, or its result.\<close>

definition run_forever_end :: "bool \<Rightarrow> exn + unit \<Rightarrow> supervisor \<Rightarrow> exn + unit" where
  "run_forever_end cancelled result v =
     (case v_terminal v of
        Some e \<Rightarrow> Inl e
      | None \<Rightarrow>
          if cancelled \<and> c_shutdown (v_client v) then Inr ()
          else if cancelled then Inl CancelledError else result)"

end
