(* ===== verification/Background.thy ===== *)
theory Background
  imports Channel_Queues Supervisor
begin

text \<open>
  The coroutines that run around the channels, as wholes: the handlers of a message and what their
  errors do, and the small waits they use
  (\<open>topic_runtime.py\<close>, \<open>supervisor.py\<close>, \<open>utils.py\<close>).
\<close>

section \<open>Callbacks\<close>

text \<open>\<open>_run_handlers\<close>: the calls it makes and what it raises, given what each call raises.\<close>

datatype handler_call = Message_Handler nat message | Event_Handler nat payload

definition handler_calls :: "message \<Rightarrow> nat option \<Rightarrow> nat option \<Rightarrow> handler_call list" where
  "handler_calls m mh eh =
     (case mh of None \<Rightarrow> [] | Some h \<Rightarrow> [Message_Handler h m]) @
     (case eh of None \<Rightarrow> [] | Some h \<Rightarrow> [Event_Handler h (m_payload m)])"

fun call_in_turn :: "(handler_call \<Rightarrow> exn option) \<Rightarrow> handler_call list \<Rightarrow> handler_call list \<times> exn option" where
  "call_in_turn f [] = ([], None)"
| "call_in_turn f (h # hs) =
     (case f h of
        Some e \<Rightarrow> ([h], Some e)
      | None \<Rightarrow> (case call_in_turn f hs of (cs, r) \<Rightarrow> (h # cs, r)))"

definition run_handlers ::
  "(handler_call \<Rightarrow> exn option) \<Rightarrow> message \<Rightarrow> nat option \<Rightarrow> nat option \<Rightarrow> handler_call list \<times> exn option" where
  "run_handlers f m mh eh = call_in_turn f (handler_calls m mh eh)"

text \<open>\<open>except Exception\<close> around an awaited callback: only a cancellation goes through.\<close>

definition contained :: "exn option \<Rightarrow> exn option" where
  "contained r = (case r of None \<Rightarrow> None | Some e \<Rightarrow> if is_exception e then None else Some e)"

definition callback_ended :: "sid \<Rightarrow> exn option \<Rightarrow> client \<Rightarrow> exn option \<times> client" where
  "callback_ended s r c = (contained r, handlers_finished s c)"

definition invoke_callback_safely :: "exn option \<Rightarrow> exn option" where
  "invoke_callback_safely r = contained r"

text \<open>How the processor ends with what its loop raised: an \<open>Exception\<close> loses the topic.\<close>

definition processor_ended :: "tid option \<Rightarrow> sid \<Rightarrow> exn option \<Rightarrow> client \<Rightarrow> exn option \<times> client" where
  "processor_ended me s r c =
     (case r of
        None \<Rightarrow> (None, c)
      | Some e \<Rightarrow> if is_exception e then (None, start_topic_loss me s e c) else (Some e, c))"

text \<open>\<open>_close_websocket\<close>: whether the transport is aborted, and what goes on.\<close>

definition close_websocket :: "exn option \<Rightarrow> bool \<times> exn option" where
  "close_websocket r = (r = Some CancelledError, contained r)"

section \<open>Waiting for tasks\<close>

text \<open>\<open>cancel_and_wait\<close> up to its wait; afterwards it logs the errors of the tasks that failed.\<close>

definition cancel_and_wait :: "tid list \<Rightarrow> client \<Rightarrow> client" where
  "cancel_and_wait ks c = fold request_cancel ks c"

text \<open>\<open>_drain_callback\<close>: the task it waits for, and what it cancels when the time is over.\<close>

definition drain_callback :: "sid \<Rightarrow> client \<Rightarrow> tid option" where
  "drain_callback s c =
     (case t_callback_task (c_sub c s) of
        None \<Rightarrow> None
      | Some k \<Rightarrow> if task_done c k then None else Some k)"

definition drain_timed_out :: "tid \<Rightarrow> client \<Rightarrow> client" where
  "drain_timed_out k c = (if task_done c k then c else cancel_and_wait [k] c)"

definition stop_topic_task :: "tid option \<Rightarrow> sid \<Rightarrow> client \<Rightarrow> client" where
  "stop_topic_task me s c = cancel_unless_current me (t_process_task (c_sub c s)) c"

text \<open>Whether a wait for a task (if there is one, and it is another) is over.\<close>

definition task_over :: "tid option \<Rightarrow> tid option \<Rightarrow> client \<Rightarrow> bool" where
  "task_over me k c \<longleftrightarrow> (case k of None \<Rightarrow> True | Some t \<Rightarrow> me = Some t \<or> task_done c t)"

text \<open>\<open>wait_for_send\<close>: the task it waits for.\<close>

definition wait_for_send :: "ssid \<Rightarrow> fid \<Rightarrow> client \<Rightarrow> tid option" where
  "wait_for_send ss f c = map_option o_task (operation c ss f)"

section \<open>Waiting for the end\<close>

text \<open>\<open>_new_decider\<close>: the consumer's decider, or a fresh one of the built-in policy.\<close>

definition new_decider_for :: "'d option \<Rightarrow> (decider \<Rightarrow> 'd) \<Rightarrow> reconnect_policy \<Rightarrow> 'd" where
  "new_decider_for consumer wrap policy =
     (case consumer of Some d \<Rightarrow> d | None \<Rightarrow> wrap (new_decider policy))"

text \<open>
  \<open>run_forever\<close> once its wait is over: a signal that was consumed starts a shutdown, whose task it
  then waits for, as it does for a shutdown that somebody else started.
\<close>

definition run_forever_signaled :: "bool \<Rightarrow> tid option \<Rightarrow> supervisor \<Rightarrow> tid option \<times> supervisor" where
  "run_forever_signaled signaled me v = (if signaled then shutdown me v else (None, v))"

definition run_forever_awaits :: "supervisor \<Rightarrow> tid option" where
  "run_forever_awaits v = (if c_shutdown (v_client v) then v_shutdown_task v else None)"

section \<open>What callbacks cannot do\<close>

lemma contained_iff: "contained r = Some e \<longleftrightarrow> r = Some CancelledError \<and> e = CancelledError"
  by (auto simp: contained_def is_exception_def split: option.split)

lemma call_in_turn_prefix: "\<exists>rest. hs = fst (call_in_turn f hs) @ rest \<and> (snd (call_in_turn f hs) = None \<longrightarrow> rest = [])"
  by (induction hs) (auto split: option.split prod.split)

lemma run_handlers_calls:
  assumes "run_handlers f m mh eh = (calls, r)"
  shows "\<exists>rest. handler_calls m mh eh = calls @ rest \<and> (r = None \<longrightarrow> rest = [])"
  using call_in_turn_prefix [of "handler_calls m mh eh" f] assms by (simp add: run_handlers_def)

lemma callback_keeps_processor:
  "fst (callback_ended s r c) = None \<or> r = Some CancelledError"
  by (auto simp: callback_ended_def contained_def is_exception_def split: option.split)

lemma processor_loss_run: "run c (snd (processor_ended me s r c))"
  by (auto simp: processor_ended_def channel_step_def run.stay intro!: run_step task_step.processor_failed
      split: option.split)

lemma callback_ended_run: "run c (snd (callback_ended s r c))"
  by (auto simp: callback_ended_def channel_step_def intro!: run_step task_step.handlers)

lemma cancel_run: "run c (cancel_and_wait ks c)"
proof (induction ks arbitrary: c)
  case (Cons k ks)
  have "channel_step c (request_cancel k c)" by (simp add: channel_step_def connection_step.cancel_requested)
  then show ?case using Cons [of "request_cancel k c"] run_trans run_step by (simp add: cancel_and_wait_def)
qed (simp add: cancel_and_wait_def run.stay)

lemma drain_timed_out_run: "run c (drain_timed_out k c)"
  by (simp add: drain_timed_out_def cancel_run run.stay)

lemma stop_topic_task_run: "run c (stop_topic_task me s c)"
  by (auto simp: stop_topic_task_def cancel_unless_current_def channel_step_def run.stay
      connection_step.cancel_requested intro!: run_step split: option.split)

lemma signaled_shutdown_awaited:
  assumes "run_forever_signaled True me v = (k, v')" "k \<noteq> None" "active_shutdown v = None"
  shows "v_shutdown_task v' = k"
  using assms by (auto simp: run_forever_signaled_def shutdown_def split: if_splits prod.splits)

end
