(* ===== verification/Coroutines.thy ===== *)
theory Coroutines
  imports Background
begin

text \<open>
  A coroutine as a whole: its own steps, from one wait to the next, and while it waits any steps of
  the client. What is to be shown of one is stated as an interface, like a rely-guarantee
  specification: its steps are runs of the client, they lead from fact to fact, and no run of the
  client breaks the fact of a place where it waits.
\<close>

section \<open>Interleaved runs\<close>

text \<open>
  The states that a coroutine and the client reach: the number of the coroutine's own steps, the
  place where it is, and the client. \<open>waits\<close> are the places where it waits, \<open>step\<close> are its steps,
  \<open>start\<close> are the states in which it begins.
\<close>

inductive interleaved ::
  "('q \<Rightarrow> bool) \<Rightarrow> ('q \<times> client \<Rightarrow> 'q \<times> client \<Rightarrow> bool) \<Rightarrow> ('q \<Rightarrow> client \<Rightarrow> bool) \<Rightarrow>
   nat \<Rightarrow> 'q \<Rightarrow> client \<Rightarrow> bool"
  for waits step start where
  begun: "reachable c \<Longrightarrow> start q c \<Longrightarrow> interleaved waits step start 0 q c"
| own: "interleaved waits step start n q c \<Longrightarrow> step (q, c) (q', c') \<Longrightarrow>
    interleaved waits step start (n + 1) q' c'"
| client: "interleaved waits step start n q c \<Longrightarrow> waits q \<Longrightarrow> channel_step c c' \<Longrightarrow>
    interleaved waits step start n q c'"

text \<open>A coroutine with what is known at each of its places after \<open>n\<close> of its steps.\<close>

locale coroutine =
  fixes waits :: "'q \<Rightarrow> bool"
    and step :: "'q \<times> client \<Rightarrow> 'q \<times> client \<Rightarrow> bool"
    and start :: "'q \<Rightarrow> client \<Rightarrow> bool"
    and fact :: "nat \<Rightarrow> 'q \<Rightarrow> client \<Rightarrow> bool"
  assumes start_fact: "reachable c \<Longrightarrow> start q c \<Longrightarrow> fact 0 q c"
    and guarantee: "step (q, c) (q', c') \<Longrightarrow> reachable c \<Longrightarrow> fact n q c \<Longrightarrow> run c c'"
    and step_fact: "step (q, c) (q', c') \<Longrightarrow> reachable c \<Longrightarrow> fact n q c \<Longrightarrow> run c c' \<Longrightarrow> fact (n + 1) q' c'"
    and rely: "waits q \<Longrightarrow> reachable c \<Longrightarrow> fact n q c \<Longrightarrow> run c c' \<Longrightarrow> fact n q c'"
begin

lemma always: "interleaved waits step start n q c \<Longrightarrow> reachable c \<and> fact n q c"
proof (induction rule: interleaved.induct)
  case (begun c q)
  then show ?case by (simp add: start_fact)
next
  case (own n q c q' c')
  then have "run c c'" using guarantee by blast
  then show ?case using own step_fact run_reachable by blast
next
  case (client n q c c')
  then have "run c c'" by (intro run_step)
  then show ?case using client rely run_reachable by blast
qed

lemmas reached = always [THEN conjunct1] and known = always [THEN conjunct2]

end

end
