(* ===== verification/Rejoin_Attempt.thy ===== *)
theory Rejoin_Attempt
  imports Coroutines
begin

text \<open>
  One rejoin of one channel (\<open>_rejoin_topic\<close> of \<open>topic_runtime.py\<close>) as a whole: its waits for a
  callback, for the old processor and for the acknowledgement of the new join. The rejoin of all
  channels after a reconnect and the recovery of a crashed channel are built from it.
\<close>

section \<open>The attempt\<close>

text \<open>
  Where the attempt is: waiting for a callback of the channel, whether or not it was cancelled, for
  its processor, for the acknowledgement of its join; over, with what it raised.
\<close>

datatype attempt =
    Draining tid bool
  | Stopping_Processor "tid option"
  | Awaiting fid
  | Attempted "exn + unit"

text \<open>The old processor is cancelled, once no callback of the channel runs.\<close>

definition attempt_stop :: "tid option \<Rightarrow> sid \<Rightarrow> client \<Rightarrow> attempt \<times> client" where
  "attempt_stop me s c = (Stopping_Processor (t_process_task (c_sub c s)), stop_topic_task me s c)"

definition attempt_drain :: "tid option \<Rightarrow> sid \<Rightarrow> client \<Rightarrow> attempt \<times> client" where
  "attempt_drain me s c =
     (case drain_callback s c of
        Some k \<Rightarrow> (Draining k False, c)
      | None \<Rightarrow> attempt_stop me s c)"

definition attempt_begin :: "tid option \<Rightarrow> sid \<Rightarrow> client \<Rightarrow> attempt \<times> client" where
  "attempt_begin me s c =
     (case rejoin_begin s c of
        (False, c1) \<Rightarrow> (Attempted (Inr ()), c1)
      | (True, c1) \<Rightarrow> attempt_drain me s c1)"

text \<open>After the old processor has ended, up to the wait for the acknowledgement.\<close>

definition attempt_restart :: "sid \<Rightarrow> nat \<Rightarrow> client \<Rightarrow> attempt \<times> client" where
  "attempt_restart s gen c =
     (case rejoin_restart s gen c of
        (None, c1) \<Rightarrow> (Attempted (Inr ()), c1)
      | (Some (Inl e), c1) \<Rightarrow> (Attempted (Inl e), c1)
      | (Some (Inr f), c1) \<Rightarrow> (Awaiting f, c1))"

text \<open>The wait for the acknowledgement is over.\<close>

definition attempt_answered :: "sid \<Rightarrow> exn + reply option \<Rightarrow> client \<Rightarrow> attempt \<times> client" where
  "attempt_answered s r c = (case join_end s r c of (x, c1) \<Rightarrow> (Attempted x, c1))"

text \<open>
  The steps of the attempt in task \<open>me\<close> for generation \<open>gen\<close>. Every wait may also end by a
  cancellation of the task; where the acknowledgement is awaited, it (or that of the outcome)
  gives up the send \<open>f\<close> in the session \<open>ss\<close> that owns it.
\<close>

inductive attempt_step ::
  "tid option \<Rightarrow> sid \<Rightarrow> nat \<Rightarrow> attempt \<times> client \<Rightarrow> attempt \<times> client \<Rightarrow> bool" for me s gen where
  drain_timed_out: "\<not> task_done c k \<Longrightarrow>
    attempt_step me s gen (Draining k False, c) (Draining k True, drain_timed_out k c)"
| drained: "task_done c k \<Longrightarrow> attempt_step me s gen (Draining k b, c) (attempt_stop me s c)"
| stopped: "task_over me k c \<Longrightarrow>
    attempt_step me s gen (Stopping_Processor k, c) (attempt_restart s gen c)"
| answered: "await_outcome (c_fut c f) = Some r \<Longrightarrow> r \<noteq> Inl CancelledError \<Longrightarrow>
    attempt_step me s gen (Awaiting f, c) (attempt_answered s r c)"
| drain_cancelled: "attempt_step me s gen (Draining k b, c) (Attempted (Inl CancelledError), c)"
| stop_cancelled:
    "attempt_step me s gen (Stopping_Processor k, c) (Attempted (Inl CancelledError), c)"
| given_up:
    "attempt_step me s gen (Awaiting f, c) (Attempted (Inl CancelledError), send_cancelled ss f c)"

inductive_cases attempt_overE [elim!]: "attempt_step me s gen (Attempted r, c) x"

fun attempt_left :: "attempt \<Rightarrow> nat" where
  "attempt_left (Draining _ b) = (if b then 3 else 4)"
| "attempt_left (Stopping_Processor _) = 2"
| "attempt_left (Awaiting _) = 1"
| "attempt_left (Attempted _) = 0"

section \<open>It ends, and is a run of the client\<close>

lemma attempt_begin_left: "attempt_left (fst (attempt_begin me s c)) \<le> 4"
  by (simp add: attempt_begin_def attempt_drain_def attempt_stop_def
      split: prod.split bool.split option.split)

lemma attempt_restart_left: "attempt_left (fst (attempt_restart s gen c)) \<le> 1"
  by (simp add: attempt_restart_def split: prod.split option.split sum.split)

lemma attempt_answered_over: "attempt_left (fst (attempt_answered s r c)) = 0"
  by (simp add: attempt_answered_def split: prod.split)

lemma attempt_step_left:
  assumes "attempt_step me s gen (a, c) (a', c')"
  shows "attempt_left a' < attempt_left a"
  using assms
proof (cases rule: attempt_step.cases)
  case (stopped k)
  then have "attempt_left a' \<le> 1" by (metis attempt_restart_left fst_conv)
  with stopped(1) show ?thesis by simp
next
  case (answered f r)
  then have "attempt_left a' = 0" by (metis attempt_answered_over fst_conv)
  with answered(1) show ?thesis by simp
qed (auto simp: attempt_stop_def)

lemma attempt_begin_run: "run c (snd (attempt_begin me s c))"
proof -
  have b: "run c (snd (rejoin_begin s c))"
    by (simp add: channel_step_def task_step.rejoining run_step)
  show ?thesis
    using b run_trans [OF stop_topic_task_run b]
    by (auto simp: attempt_begin_def attempt_drain_def attempt_stop_def
        split: prod.split bool.split option.split)
qed

lemma attempt_restart_run: "run c (snd (attempt_restart s gen c))"
proof -
  have "run c (snd (rejoin_restart s gen c))"
    by (simp add: channel_step_def task_step.restarted run_step)
  then show ?thesis by (auto simp: attempt_restart_def split: prod.split option.split sum.split)
qed

lemma attempt_answered_run:
  assumes "await_outcome (c_fut c f) = Some r"
  shows "run c (snd (attempt_answered s r c))"
proof -
  have "run c (snd (join_end s r c))"
    by (simp add: channel_step_def task_step.rejoin_over [OF assms] run_step)
  then show ?thesis by (auto simp: attempt_answered_def split: prod.split)
qed

lemma attempt_step_run:
  assumes "attempt_step me s gen (a, c) (a', c')"
  shows "run c c'"
  using assms
proof (cases rule: attempt_step.cases)
  case (stopped k)
  then show ?thesis using attempt_restart_run by (metis snd_conv)
next
  case (answered f r)
  then show ?thesis using attempt_answered_run by (metis snd_conv)
qed (auto simp: attempt_stop_def drain_timed_out_run stop_topic_task_run channel_step_def run.stay
    app_step.caller_cancelled intro!: run_step)

end
