(* ===== verification/Channel_Rejoin.thy ===== *)
theory Channel_Rejoin
  imports Rejoin_Attempt
begin

text \<open>
  The rejoin of all topics after a reconnect (\<open>_rejoin_topics\<close> and \<open>_handle_rejoin_failure\<close> of
  \<open>topic_runtime.py\<close>) as one pass over the channels that were registered when it began: an attempt
  for each, with everything the client may do while it waits.
\<close>

section \<open>The pass\<close>

text \<open>
  Where the pass is: before the turn of the first channel of a list; in the rejoin of a channel;
  waiting for the leave of a channel that was refused; after the last turn; ended by an error of
  the pass, or by one that the awaited leave raised.
\<close>

datatype pass =
    Turn "sid list"
  | Attempting sid attempt "sid list"
  | Retiring sid "tid option" exn "sid list"
  | Passed
  | Pass_Raised exn
  | Leave_Raised exn

text \<open>The places where the pass waits; between its waits nothing else runs.\<close>

fun waits :: "pass \<Rightarrow> bool" where
  "waits (Attempting _ _ _) = True"
| "waits (Retiring _ _ _ _) = True"
| "waits _ = False"

text \<open>A failed rejoin: the channel's leave is awaited, or the pass goes on at once.\<close>

definition rejoin_failure :: "tid option \<Rightarrow> sid \<Rightarrow> exn \<Rightarrow> sid list \<Rightarrow> client \<Rightarrow> pass \<times> client" where
  "rejoin_failure me s e rest c =
     (if \<not> is_exception e then (Pass_Raised e, c)
      else (case handle_rejoin_failure me s e c of
              (None, c1) \<Rightarrow> (Turn rest, c1)
            | (Some (k, error), c1) \<Rightarrow> (Retiring s k error rest, c1)))"

text \<open>What follows a channel's rejoin, once it is over.\<close>

definition rejoin_tried ::
  "tid option \<Rightarrow> sid \<Rightarrow> sid list \<Rightarrow> attempt \<times> client \<Rightarrow> pass \<times> client" where
  "rejoin_tried me s rest x =
     (case x of
        (Attempted (Inr _), c) \<Rightarrow> (Turn rest, c)
      | (Attempted (Inl e), c) \<Rightarrow> rejoin_failure me s e rest c
      | (a, c) \<Rightarrow> (Attempting s a rest, c))"

text \<open>One channel's turn up to its first wait.\<close>

definition rejoin_turn :: "tid option \<Rightarrow> sid \<Rightarrow> sid list \<Rightarrow> client \<Rightarrow> pass \<times> client" where
  "rejoin_turn me s rest c =
     (if \<not> t_blocks_reconnect (c_sub c s) then (Turn rest, c)
      else rejoin_tried me s rest (attempt_begin me s c))"

text \<open>
  The steps of the pass itself, for generation \<open>gen\<close> over the channels \<open>subs\<close>, in task \<open>me\<close>. A
  leave that fails is logged, if its error is one the code expects. The wait for it may also end by
  a cancellation of the task.
\<close>

inductive pass_step ::
  "tid option \<Rightarrow> nat \<Rightarrow> sid list \<Rightarrow> pass \<times> client \<Rightarrow> pass \<times> client \<Rightarrow> bool" for me gen subs where
  turn: "pass_step me gen subs (Turn (s # rest), c) (rejoin_turn me s rest c)"
| attempting: "attempt_step me s gen (a, c) (a', c') \<Longrightarrow>
    pass_step me gen subs (Attempting s a rest, c) (rejoin_tried me s rest (a', c'))"
| retired: "task_over me k c \<Longrightarrow>
    pass_step me gen subs (Retiring s k e rest, c)
      (Turn rest, snd (track_lifecycle_task (Report_Topic_Lost s e) c))"
| leave_raised: "task_done c k \<Longrightarrow> \<not> is_channel_error x \<Longrightarrow> \<not> is_socket_error x \<Longrightarrow>
    pass_step me gen subs (Retiring s (Some k) e rest, c) (Leave_Raised x, c)"
| cancelled: "pass_step me gen subs (Retiring s k e rest, c) (Pass_Raised CancelledError, c)"
| background: "pass_step me gen subs (Turn [], c) (Passed, recover_in_background gen subs c)"

text \<open>The channels that have not had their turn, those a step takes up, and how much is left to do.\<close>

fun waiting_turns :: "pass \<Rightarrow> sid list" where
  "waiting_turns (Turn ss) = ss"
| "waiting_turns (Attempting _ _ ss) = ss"
| "waiting_turns (Retiring _ _ _ ss) = ss"
| "waiting_turns _ = []"

fun taken_up :: "pass \<Rightarrow> sid list" where
  "taken_up (Turn (s # ss)) = [s]"
| "taken_up _ = []"

fun work_left :: "pass \<Rightarrow> nat" where
  "work_left (Turn ss) = 6 * length ss + 1"
| "work_left (Attempting _ a ss) = 6 * length ss + 2 + attempt_left a"
| "work_left (Retiring _ _ _ ss) = 6 * length ss + 2"
| "work_left _ = 0"

text \<open>
  A pass under way: the channels it has taken up, the number of its own steps, where it is, and
  the client, which does any steps of its own while the pass waits.
\<close>

definition pass_start :: "sid list \<Rightarrow> sid list \<times> pass \<Rightarrow> client \<Rightarrow> bool" where
  "pass_start subs x c \<longleftrightarrow> x = ([], Turn subs) \<and> subs = dict_values (c_registry c)"

definition taking_step ::
  "tid option \<Rightarrow> nat \<Rightarrow> sid list \<Rightarrow> (sid list \<times> pass) \<times> client \<Rightarrow> (sid list \<times> pass) \<times> client \<Rightarrow> bool" where
  "taking_step me gen subs = (\<lambda>((T, q), c) ((T', q'), c').
     pass_step me gen subs (q, c) (q', c') \<and> T' = T @ taken_up q)"

definition pass_run ::
  "tid option \<Rightarrow> nat \<Rightarrow> sid list \<Rightarrow> sid list \<Rightarrow> nat \<Rightarrow> pass \<Rightarrow> client \<Rightarrow> bool" where
  "pass_run me gen subs T n q =
     interleaved (\<lambda>(_, q). waits q) (taking_step me gen subs) (pass_start subs) n (T, q)"

section \<open>It ends\<close>

lemma failure_cases:
  obtains c1 where "rejoin_failure me s e rest c = (Turn rest, c1)"
  | k x c1 where "rejoin_failure me s e rest c = (Retiring s k x rest, c1)"
  | "rejoin_failure me s e rest c = (Pass_Raised e, c)" "e = CancelledError"
proof (cases "is_exception e")
  case True
  obtain r c1 where h: "handle_rejoin_failure me s e c = (r, c1)" by force
  show ?thesis
  proof (cases r)
    case None
    then show ?thesis using True h that(1) by (simp add: rejoin_failure_def)
  next
    case (Some kx)
    then show ?thesis using True h that(2) by (cases kx) (simp add: rejoin_failure_def)
  qed
next
  case False
  then show ?thesis using that(3) by (auto simp: rejoin_failure_def is_exception_def)
qed

text \<open>Every step of the pass brings it closer to its end, and it takes the channels in their order.\<close>

definition next_of :: "pass \<Rightarrow> sid list \<Rightarrow> pass \<Rightarrow> bool" where
  "next_of q rest q' \<longleftrightarrow> work_left q' < work_left q \<and>
     (waiting_turns q' = rest \<and> (\<nexists>e. q' = Pass_Raised e \<or> q' = Leave_Raised e) \<or>
      q' = Pass_Raised CancelledError \<or>
      (\<exists>e. q' = Leave_Raised e \<and> \<not> is_channel_error e \<and> \<not> is_socket_error e))"

lemma next_failure:
  assumes "6 * length rest + 2 < work_left q"
  shows "next_of q rest (fst (rejoin_failure me s e rest c))"
  using assms
  by (cases rule: failure_cases [where me = me and s = s and e = e and rest = rest and c = c])
    (simp_all add: next_of_def)

lemma next_tried:
  assumes "6 * length rest + 2 + attempt_left a < work_left q"
  shows "next_of q rest (fst (rejoin_tried me s rest (a, c)))"
proof (cases a)
  case (Attempted r)
  then show ?thesis
    using assms next_failure [of rest q me s _ c]
    by (cases r) (auto simp: rejoin_tried_def next_of_def)
qed (use assms in \<open>auto simp: rejoin_tried_def next_of_def\<close>)

lemma pass_step_next:
  assumes "pass_step me gen subs (q, c) (q', c')"
  shows "next_of q (drop (length (taken_up q)) (waiting_turns q)) q' \<and>
    waiting_turns q = taken_up q @ drop (length (taken_up q)) (waiting_turns q)"
  using assms
proof (cases rule: pass_step.cases)
  case (turn s rest)
  then have q': "q' = fst (rejoin_turn me s rest c)" by (metis fst_conv)
  obtain a d where b: "attempt_begin me s c = (a, d)" by force
  then have "attempt_left a \<le> 4" using attempt_begin_left [of me s c] by simp
  then show ?thesis
    unfolding q' using turn(1) b next_tried [of rest a q me s d]
    by (auto simp: rejoin_turn_def next_of_def)
next
  case (attempting s a a' d rest)
  then have "q' = fst (rejoin_tried me s rest (a', d))" by (metis fst_conv)
  then show ?thesis
    using attempting(1) attempt_step_left [OF attempting(3)] next_tried [of rest a' q me s d] by simp
qed (auto simp: next_of_def)

section \<open>It is a run of the client\<close>

lemma rejoin_failure_run: "run c (snd (rejoin_failure me s e rest c))"
proof -
  have "channel_step c (snd (handle_rejoin_failure me s e c))"
    by (simp add: channel_step_def task_step.rejoin_failed)
  then show ?thesis
    using run.stay run_step by (auto simp: rejoin_failure_def split: prod.split option.split)
qed

lemma rejoin_tried_run: "run c (snd (rejoin_tried me s rest (a, c)))"
  by (simp add: rejoin_tried_def rejoin_failure_run run.stay split: attempt.split sum.split)

lemma pass_step_run:
  assumes "pass_step me gen subs (q, c) (q', c')"
  shows "run c c'"
  using assms
proof (cases rule: pass_step.cases)
  case (turn s rest)
  obtain a d where b: "attempt_begin me s c = (a, d)" by force
  then have "run c d" using attempt_begin_run [of c me s] by simp
  then have "run c (snd (rejoin_turn me s rest c))"
    using run_trans [OF rejoin_tried_run] b by (simp add: rejoin_turn_def run.stay)
  then show ?thesis using turn by (metis snd_conv)
next
  case (attempting s a a' d rest)
  then show ?thesis using run_trans [OF rejoin_tried_run attempt_step_run] by (metis snd_conv)
qed (auto simp: channel_step_def run.stay task_step.reporting task_step.background intro!: run_step)

section \<open>The channels in the background\<close>

lemma recovery_start:
  assumes "d = start_channel_recovery s (Some gen) c"
  shows "t_blocks_reconnect (c_sub d x) = t_blocks_reconnect (c_sub c x)"
    "can_recover d x g = can_recover c x g"
    "is_recovering c x \<Longrightarrow> is_recovering d x"
    "can_recover c s gen \<Longrightarrow> is_recovering d s"
  unfolding assms
  by (auto simp: start_channel_recovery_def track_lifecycle_task_def new_task_def Let_def
      can_recover_def should_rejoin_def is_registered_def is_connected_def is_recovering_def
      task_done_def upd_topic_def split: option.splits)

lemma background_keeps:
  "t_blocks_reconnect (c_sub (recover_in_background gen ss c) x) = t_blocks_reconnect (c_sub c x)"
  "can_recover (recover_in_background gen ss c) x g = can_recover c x g"
  "is_recovering c x \<Longrightarrow> is_recovering (recover_in_background gen ss c) x"
  by (induction ss arbitrary: c) (auto simp: recover_in_background_def recovery_start [OF refl])

lemma background_recovers:
  "s \<in> set ss \<Longrightarrow> \<not> t_blocks_reconnect (c_sub c s) \<Longrightarrow> can_recover c s gen \<Longrightarrow>
     is_recovering (recover_in_background gen ss c) s"
proof (induction ss arbitrary: c)
  case (Cons x ss)
  define d where "d = (if t_blocks_reconnect (c_sub c x) then c else start_channel_recovery x (Some gen) c)"
  have e: "recover_in_background gen (x # ss) c = recover_in_background gen ss d"
    by (simp add: recover_in_background_def d_def)
  show ?case
  proof (cases "s = x")
    case True
    then have "is_recovering d s" using Cons.prems(2,3) by (simp add: d_def recovery_start [OF refl])
    then show ?thesis unfolding e by (rule background_keeps(3))
  next
    case False
    then show ?thesis
      unfolding e using Cons by (simp add: d_def recovery_start [OF refl])
  qed
qed simp

section \<open>The pass as a whole\<close>

text \<open>What holds in every state of a pass.\<close>

definition pass_ok :: "nat \<Rightarrow> sid list \<Rightarrow> sid list \<Rightarrow> nat \<Rightarrow> pass \<Rightarrow> client \<Rightarrow> bool" where
  "pass_ok gen subs T n q c \<longleftrightarrow>
     n + work_left q \<le> 6 * length subs + 1 \<and>
     (case q of
        Pass_Raised e \<Rightarrow> e = CancelledError \<and> (\<exists>rest. subs = T @ rest)
      | Leave_Raised e \<Rightarrow> \<not> is_channel_error e \<and> \<not> is_socket_error e \<and> (\<exists>rest. subs = T @ rest)
      | _ \<Rightarrow> subs = T @ waiting_turns q) \<and>
     (q = Passed \<longrightarrow> (\<forall>s\<in>set subs. \<not> t_blocks_reconnect (c_sub c s) \<and> can_recover c s gen \<longrightarrow>
        is_recovering c s))"

lemma rejoin_failure_not_passed: "fst (rejoin_failure me s e rest c) \<noteq> Passed"
  by (cases rule: failure_cases [where me = me and s = s and e = e and rest = rest and c = c]) simp_all

lemma rejoin_tried_not_passed: "fst (rejoin_tried me s rest x) \<noteq> Passed"
  by (simp add: rejoin_tried_def rejoin_failure_not_passed split: prod.split attempt.split sum.split)

lemma passed_by_background:
  assumes "pass_step me gen subs (q, c) (Passed, c')"
  shows "q = Turn [] \<and> c' = recover_in_background gen subs c"
  using assms
proof (cases rule: pass_step.cases)
  case (turn s rest)
  then have "fst (rejoin_turn me s rest c) = Passed" by (metis fst_conv)
  then show ?thesis using rejoin_tried_not_passed by (auto simp: rejoin_turn_def split: if_splits)
next
  case (attempting s a a' d rest)
  then show ?thesis using rejoin_tried_not_passed by (metis fst_conv)
qed simp

lemma pass_step_ok:
  assumes "pass_step me gen subs (q, c) (q', c')" "pass_ok gen subs T n q c"
  shows "pass_ok gen subs (T @ taken_up q) (n + 1) q' c'"
proof -
  define rest where "rest = drop (length (taken_up q)) (waiting_turns q)"
  have nx: "next_of q rest q'" "waiting_turns q = taken_up q @ rest"
    using pass_step_next [OF assms(1)] by (auto simp: rest_def)
  have "0 < work_left q" using nx(1) by (auto simp: next_of_def)
  then have sub: "subs = (T @ taken_up q) @ rest"
    using assms(2) nx(2) by (cases q) (auto simp: pass_ok_def)
  have "q' = Passed \<longrightarrow> (\<forall>s\<in>set subs. \<not> t_blocks_reconnect (c_sub c' s) \<and> can_recover c' s gen \<longrightarrow>
      is_recovering c' s)"
    using passed_by_background [of me gen subs q c c'] assms(1) background_recovers [of _ subs c gen]
    by (auto simp: background_keeps)
  moreover have "n + 1 + work_left q' \<le> 6 * length subs + 1"
    using assms(2) nx(1) by (auto simp: pass_ok_def next_of_def)
  ultimately show ?thesis
    using sub nx(1) by (cases q') (auto simp: pass_ok_def next_of_def)
qed

lemma registry_sids_distinct:
  assumes "inv c"
  shows "distinct (dict_values (c_registry c))"
proof -
  have r: "distinct (map fst (c_registry c))"
      "\<And>n s. dict_get (c_registry c) n = Some s \<Longrightarrow> t_name (c_sub c s) = n"
    using assms by (auto simp: inv_def registry_ok_def)
  have "map (\<lambda>s. t_name (c_sub c s)) (dict_values (c_registry c)) = map fst (c_registry c)"
    using r(2) dict_get_in [OF r(1)] by auto
  then show ?thesis using r(1) by (metis distinct_map)
qed

text \<open>The pass as a coroutine.\<close>

interpretation rejoin:
  coroutine "\<lambda>(_, q). waits q" "taking_step me gen subs" "pass_start subs"
    "\<lambda>n (T, q) c. pass_ok gen subs T n q c \<and> distinct subs" for me gen subs
proof (unfold_locales, goal_cases)
  case (1 c x)
  then show ?case by (auto simp: pass_start_def pass_ok_def registry_sids_distinct reachable_inv)
next
  case (2 x c x' c' n)
  then show ?case by (auto simp: taking_step_def intro: pass_step_run)
next
  case (3 x c x' c' n)
  then show ?case using pass_step_ok by (auto simp: taking_step_def)
next
  case (4 x c n c')
  then show ?case by (cases "snd x") (auto simp: pass_ok_def)
qed

text \<open>
  Claim C31: the rejoin of all topics ends, and leaves none out. Whatever the client does while
  the pass waits (channels are joined, left, lost, crash again, the client stops, the next
  connection comes), the pass takes up the channels registered when it began in the order of the
  registry, each once, with at most six steps of its own for a channel and one at the end; no
  error of a channel's rejoin ends it, only its own cancellation, or an error other than a channel
  or socket error that the leave of a refused channel raises; and when it is over every
  channel has had its turn, and each of them that does not hold up the reconnect and can be
  recovered on this connection has a recovery running.
\<close>

theorem rejoin_pass_complete:
  assumes "pass_run me gen subs T n q c"
  shows "n + work_left q \<le> 6 * length subs + 1 \<and>
    (case q of
       Passed \<Rightarrow> T = subs \<and>
         (\<forall>s\<in>set subs. \<not> t_blocks_reconnect (c_sub c s) \<and> can_recover c s gen \<longrightarrow> is_recovering c s)
     | Pass_Raised e \<Rightarrow> e = CancelledError \<and> (\<exists>rest. subs = T @ rest)
     | Leave_Raised e \<Rightarrow> \<not> is_channel_error e \<and> \<not> is_socket_error e \<and> (\<exists>rest. subs = T @ rest)
     | _ \<Rightarrow> subs = T @ waiting_turns q) \<and>
    distinct subs \<and> reachable c"
  using rejoin.always [of me gen subs n "(T, q)" c] assms
  by (cases q) (auto simp: pass_run_def pass_ok_def)

lemma rejoin_pass_complete_witness:
  "\<exists>k c. pass_run None 2 [1] [1] 1 (Attempting 1 (Stopping_Processor k) []) c \<and>
     1 + 4 \<le> 6 * (1 :: nat) + 1 \<and> reachable c"
proof -
  have b: "pass_run None 2 [1] [] 0 (Turn [1]) sample_joined"
    unfolding pass_run_def
    by (rule interleaved.begun [OF sample_joined_reachable]) (simp add: pass_start_def sample_defs)
  have "should_rejoin sample_joined 1"
    by (simp add: should_rejoin_def is_registered_def sample_defs)
  moreover have "drain_callback 1 (snd (rejoin_begin 1 sample_joined)) = None"
    by (simp add: drain_callback_def rejoin_begin_def transition_channel_def should_rejoin_def
        is_registered_def fail_pushes_def fail_current_join_def current_join_ready_def
        set_future_exception_def put_outcome_def fut_done_def lost_state_def recoverable_def upd_topic_def
        new_future_def sample_defs Let_def)
  ultimately obtain k c where "attempt_begin None 1 sample_joined = (Stopping_Processor k, c)"
    by (auto simp: attempt_begin_def attempt_drain_def attempt_stop_def rejoin_begin_def)
  then have "rejoin_turn None 1 [] sample_joined = (Attempting 1 (Stopping_Processor k) [], c)"
    by (simp add: rejoin_turn_def rejoin_tried_def sample_defs)
  then have "taking_step None 2 [1] (([], Turn [1]), sample_joined)
      (([1], Attempting 1 (Stopping_Processor k) []), c)"
    using pass_step.turn [of None 2 "[1]" 1 "[]" sample_joined] by (simp add: taking_step_def)
  then have "pass_run None 2 [1] [1] 1 (Attempting 1 (Stopping_Processor k) []) c"
    using interleaved.own [OF b [unfolded pass_run_def]] by (simp add: pass_run_def)
  with rejoin_pass_complete [OF this] show ?thesis by auto
qed

end
