(* ===== verification/Recovery_Loop.thy ===== *)
theory Recovery_Loop
  imports Rejoin_Attempt
begin

text \<open>
  The recovery of a channel that crashed or that does not hold up the reconnect
  (\<open>_recover_channel\<close> of \<open>topic_runtime.py\<close>) as a whole: a loop of waits and of attempts to rejoin.
\<close>

section \<open>The loop\<close>

text \<open>
  The places of \<open>_recover_channel\<close>: at the head of its loop, waiting for a delay before an
  attempt, in an attempt, or at an end: a return, an error of the delay's computation, an error of
  the attempt that is not caught, a cancellation during the wait. The number counts the waits so far.
\<close>

datatype recovery =
    Head bool nat
  | Waiting nat real
  | Trying nat attempt
  | Over
  | Delay_Failed nat exn
  | Attempt_Raised nat exn
  | Wait_Cancelled nat

fun recovering :: "recovery \<Rightarrow> bool" where
  "recovering (Waiting _ _) = True"
| "recovering (Trying _ _) = True"
| "recovering _ = False"

text \<open>What follows an attempt, once it is over.\<close>

definition recovery_tried ::
  "tid option \<Rightarrow> sid \<Rightarrow> nat \<Rightarrow> nat \<Rightarrow> attempt \<times> client \<Rightarrow> recovery \<times> client" where
  "recovery_tried me s gen n x =
     (case x of
        (Attempted (Inr _), c) \<Rightarrow> (if recover_joined s c then Over else Head False n, c)
      | (Attempted (Inl e), c) \<Rightarrow>
          if caught_by_recovery e then
            (case recover_failed me s gen e c of (go, c1) \<Rightarrow> (if go then Head False n else Over, c1))
          else (Attempt_Raised n e, c)
      | (a, c) \<Rightarrow> (Trying n a, c))"

text \<open>
  The steps of the recovery of channel \<open>s\<close> for one generation under the policy \<open>p\<close>; an attempt
  is a rejoin of the channel.
\<close>

inductive recovery_step ::
  "tid option \<Rightarrow> reconnect_policy \<Rightarrow> sid \<Rightarrow> nat \<Rightarrow> recovery \<times> client \<Rightarrow> recovery \<times> client \<Rightarrow> bool"
  for me p s gen where
  give_up: "recover_turn s gen imm n c = Give_Up \<Longrightarrow> recovery_step me p s gen (Head imm n, c) (Over, c)"
| immediate: "recover_turn s gen imm n c = Attempt_Now \<Longrightarrow>
    recovery_step me p s gen (Head imm n, c) (recovery_tried me s gen n (attempt_begin me s c))"
| delayed: "recover_turn s gen imm n c = Attempt_After k \<Longrightarrow> draw r \<Longrightarrow>
    channel_rejoin_delay p k r = Inr d \<Longrightarrow> recovery_step me p s gen (Head imm n, c) (Waiting k d, c)"
| no_delay: "recover_turn s gen imm n c = Attempt_After k \<Longrightarrow> draw r \<Longrightarrow>
    channel_rejoin_delay p k r = Inl e \<Longrightarrow> recovery_step me p s gen (Head imm n, c) (Delay_Failed k e, c)"
| woken: "can_recover c s gen \<Longrightarrow>
    recovery_step me p s gen (Waiting n d, c) (recovery_tried me s gen (n + 1) (attempt_begin me s c))"
| overtaken: "\<not> can_recover c s gen \<Longrightarrow> recovery_step me p s gen (Waiting n d, c) (Over, c)"
| wait_cancelled: "recovery_step me p s gen (Waiting n d, c) (Wait_Cancelled n, c)"
| trying: "attempt_step me s gen (a, c) (a', c') \<Longrightarrow>
    recovery_step me p s gen (Trying n a, c) (recovery_tried me s gen n (a', c'))"

definition recovery_run ::
  "tid option \<Rightarrow> reconnect_policy \<Rightarrow> sid \<Rightarrow> nat \<Rightarrow> bool \<Rightarrow> nat \<Rightarrow> recovery \<Rightarrow> client \<Rightarrow> bool" where
  "recovery_run me p s gen imm =
     interleaved recovering (recovery_step me p s gen) (\<lambda>q c. q = Head imm 0)"

text \<open>What is known at each place.\<close>

fun recovery_fact :: "reconnect_policy \<Rightarrow> sid \<Rightarrow> nat \<Rightarrow> recovery \<Rightarrow> client \<Rightarrow> bool" where
  "recovery_fact p s gen (Waiting n d) c \<longleftrightarrow>
     n < 1024 \<and> min (max_delay_s p) (base_delay_s p * 2 ^ n) / 2 \<le> d \<and>
     d \<le> min (max_delay_s p) (base_delay_s p * 2 ^ n)"
| "recovery_fact p s gen Over c \<longleftrightarrow>
     \<not> can_recover c s gen \<or> is_current_join_ready c s"
| "recovery_fact p s gen (Delay_Failed n e) c \<longleftrightarrow>
     e = OverflowError \<and> 1024 \<le> n \<and> can_recover c s gen"
| "recovery_fact p s gen (Attempt_Raised n e) c \<longleftrightarrow> \<not> caught_by_recovery e"
| "recovery_fact p s gen _ c = True"

lemma rejoin_delay_cases:
  assumes "policy_ok p" "factor p = 2" "draw r"
  shows "channel_rejoin_delay p n r = Inr d \<Longrightarrow> recovery_fact p s gen (Waiting n d) c"
    "channel_rejoin_delay p n r = Inl e \<Longrightarrow> e = OverflowError \<and> 1024 \<le> n"
  using rejoin_delay_range [OF assms, of n] by (cases "n < 1024"; auto)+

lemma loss_leaves:
  assumes "inv c"
  shows "t_state (c_sub (start_topic_loss me s e c) s) = LEFT"
proof -
  define err where "err = (if t_state (c_sub c s) \<noteq> LEFT \<and> \<not> is_channel_error e
    then ChannelError (lit ''Channel processor failed'') else e)"
  define c1 where "c1 = (if t_state (c_sub c s) = LEFT then c else transition_channel s CLOSE (Some err) c)"
  have "t_state (c_sub c1 s) = LEFT"
    using transition_leaves [OF assms, of CLOSE] by (simp add: c1_def)
  then show ?thesis
    unfolding start_topic_loss_def Let_def err_def [symmetric] c1_def [symmetric]
    by (simp add: start_leave_task_def track_lifecycle_task_def case_prod_beta split: option.split)
qed

lemma recovery_given_up: "inv c \<Longrightarrow> recover_failed me s gen e c = (False, c') \<Longrightarrow> \<not> can_recover c' s gen"
  using loss_leaves [of c me s] by (auto simp: recover_failed_def can_recover_def should_rejoin_def split: if_splits)

lemma recovery_tried_fact:
  assumes "inv c" "recovery_tried me s gen n (a, c) = (q, c')"
  shows "recovery_fact p s gen q c'"
proof (cases a)
  case (Attempted r)
  show ?thesis
  proof (cases r)
    case (Inl e)
    then show ?thesis
      using assms(2) Attempted recovery_given_up [OF assms(1)]
      by (auto simp: recovery_tried_def split: if_splits prod.splits)
  next
    case (Inr u)
    then show ?thesis
      using assms(2) Attempted by (auto simp: recovery_tried_def recover_joined_def split: if_splits)
  qed
qed (use assms(2) in \<open>auto simp: recovery_tried_def\<close>)

lemma recovery_tried_run: "run c (snd (recovery_tried me s gen n (a, c)))"
proof -
  have "channel_step c (snd (recover_failed me s gen e c))" for e
    by (simp add: channel_step_def task_step.recovery_failed)
  then show ?thesis
    by (auto simp: recovery_tried_def run.stay run_step split: attempt.split sum.split prod.split)
      (metis run_step snd_conv)
qed

lemma recovery_tried_step:
  assumes "run c c1" "recovery_tried me s gen n (a, c1) = (q, c')"
  shows "run c c'"
  using run_trans [OF recovery_tried_run assms(1), of me s gen n a] assms(2) by simp

text \<open>Every step of a recovery is a run of the client.\<close>

lemma recovery_step_run:
  assumes "recovery_step me p s gen (q, c) (q', c')"
  shows "run c c'"
  using assms
proof (cases rule: recovery_step.cases)
  case (immediate imm n)
  then show ?thesis
    using recovery_tried_step [OF attempt_begin_run [of c me s]] by (metis prod.collapse)
next
  case (woken n d)
  then show ?thesis
    using recovery_tried_step [OF attempt_begin_run [of c me s]] by (metis prod.collapse)
next
  case (trying a a' d n)
  then show ?thesis using recovery_tried_step [OF attempt_step_run] by metis
qed (auto intro: run.stay)

lemma recovery_step_fact:
  assumes "policy_ok p" "factor p = 2" "reachable c" "recovery_step me p s gen (q, c) (q', c')"
  shows "recovery_fact p s gen q' c'"
  using assms(4)
proof (cases rule: recovery_step.cases)
  case (immediate imm n)
  obtain a d where b: "attempt_begin me s c = (a, d)" by force
  then have "inv d" using attempt_begin_run [of c me s] assms(3) reachable_inv run_reachable by fastforce
  then show ?thesis using recovery_tried_fact immediate b by metis
next
  case (woken n w)
  obtain a d where b: "attempt_begin me s c = (a, d)" by force
  then have "inv d" using attempt_begin_run [of c me s] assms(3) reachable_inv run_reachable by fastforce
  then show ?thesis using recovery_tried_fact woken b by metis
next
  case (trying a a' d n)
  then have "inv d" using attempt_step_run assms(3) reachable_inv run_reachable by blast
  then show ?thesis using recovery_tried_fact trying by metis
next
  case (delayed imm n k r d)
  then show ?thesis using rejoin_delay_cases(1) [OF assms(1,2)] by auto
next
  case (no_delay imm n k r e)
  then show ?thesis using rejoin_delay_cases(2) [OF assms(1,2)]
    by (auto simp: recover_turn_def split: if_splits)
qed (auto simp: recover_turn_def split: if_splits)

text \<open>The recovery as a coroutine; its facts are those under a usable policy with the default factor.\<close>

interpretation recovery:
  coroutine recovering "recovery_step me p s gen" "\<lambda>q c. q = Head imm 0"
    "\<lambda>n q c. policy_ok p \<and> factor p = 2 \<longrightarrow> recovery_fact p s gen q c" for me p s gen imm
proof unfold_locales
  fix q q' :: recovery and c c' :: client
  show "recovery_step me p s gen (q, c) (q', c') \<Longrightarrow> run c c'" by (rule recovery_step_run)
  show "recovery_step me p s gen (q, c) (q', c') \<Longrightarrow> reachable c \<Longrightarrow>
      policy_ok p \<and> factor p = 2 \<longrightarrow> recovery_fact p s gen q' c'"
    using recovery_step_fact by blast
  assume "recovering q" "policy_ok p \<and> factor p = 2 \<longrightarrow> recovery_fact p s gen q c"
  then show "policy_ok p \<and> factor p = 2 \<longrightarrow> recovery_fact p s gen q c'" by (cases q) auto
qed simp

text \<open>
  Claim C32: a recovery goes on until there is nothing left to recover. Whatever the client does
  meanwhile, under the built-in backoff a channel's recovery returns only when the channel is
  joined again or can no longer be recovered (it was left, refused, lost or retired, the client
  stopped, or a newer connection took over); each wait before an attempt lies between half the
  capped exponential delay and the whole of it; and the other ends are the cancellation of its
  task and errors: one of the attempt that is not caught, or the overflow of the delay at its
  1025th wait.
\<close>

theorem recovery_ends_for_cause:
  assumes "policy_ok p" "factor p = 2" "recovery_run me p s gen imm n q c"
  shows "(case q of
      Over \<Rightarrow> \<not> can_recover c s gen \<or> is_current_join_ready c s
    | Waiting n d \<Rightarrow> min (max_delay_s p) (base_delay_s p * 2 ^ n) / 2 \<le> d \<and>
        d \<le> min (max_delay_s p) (base_delay_s p * 2 ^ n)
    | Delay_Failed n e \<Rightarrow> e = OverflowError \<and> 1024 \<le> n \<and> can_recover c s gen
    | Attempt_Raised n e \<Rightarrow> \<not> caught_by_recovery e
    | _ \<Rightarrow> True) \<and>
    (\<forall>n r. 1024 \<le> n \<and> draw r \<longrightarrow> channel_rejoin_delay p n r = Inl OverflowError)"
proof -
  have "recovery_fact p s gen q c"
    using recovery.known [of me p s gen imm n q c] assms by (simp add: recovery_run_def)
  moreover have "channel_rejoin_delay p n r = Inl OverflowError" if "1024 \<le> n" "draw r" for n r
    using rejoin_delay_range [OF assms(1,2) that(2), of n] that(1) by simp
  ultimately show ?thesis by (cases q) auto
qed

lemma recovery_ends_for_cause_witness:
  "\<exists>d. recovery_run None default_policy 1 1 False 1 (Waiting 0 d) sample_joined \<and> 1 / 4 \<le> d \<and> d \<le> 1 / 2"
proof -
  have p: "policy_ok default_policy" "factor default_policy = 2"
    by (simp_all add: default_policy_ok) (simp add: default_policy_def)
  have r: "draw (1 / 2)" by (simp add: draw_def)
  have "can_recover sample_joined 1 1"
    by (simp add: can_recover_def should_rejoin_def is_registered_def is_connected_def sample_defs)
  then have t: "recover_turn 1 1 False 0 sample_joined = Attempt_After 0" by (simp add: recover_turn_def)
  obtain d where d: "channel_rejoin_delay default_policy 0 (1 / 2) = Inr d"
    using rejoin_delay_range [OF p r, of 0] by auto
  have b: "interleaved recovering (recovery_step None default_policy 1 1) (\<lambda>q c. q = Head False 0) 0
      (Head False 0) sample_joined"
    by (rule interleaved.begun [OF sample_joined_reachable]) simp
  have "recovery_run None default_policy 1 1 False 1 (Waiting 0 d) sample_joined"
    using interleaved.own [OF b recovery_step.delayed [OF t r d]] by (simp add: recovery_run_def)
  with recovery_ends_for_cause [OF p this] show ?thesis
    by (auto simp: default_policy_def)
qed

end
