(* ===== verification/Channel_Leaving.thy ===== *)
theory Channel_Leaving
  imports Coroutines
begin

text \<open>
  The task that leaves a channel (\<open>_leave_and_cleanup\<close> with \<open>_cleanup_subscription\<close> of
  \<open>topic_runtime.py\<close>) as a whole: the leave frame and its acknowledgement, then the recovery, the
  callback, the processor and the sends that it ends, with everything the client may do meanwhile.
\<close>

section \<open>The task\<close>

text \<open>
  Where the task is: scheduled; waiting for the acknowledgement; in the cleanup, waiting for the
  cancelled recovery, for a callback (whether or not it was cancelled), for the processor, for a
  send, with the sends to wait for after it; over, once the cleanup was completed; given up, by a
  cancellation before its first step or during the cleanup. The cleanup carries the error that is raised after it.
\<close>

datatype leaving =
    Leave_Scheduled
  | Leave_Sent fid
  | Ending_Recovery "tid option" "exn option"
  | Draining_Callback tid bool "exn option"
  | Ending_Processor "tid option" "exn option"
  | Awaiting_Send "tid option" "fid list" "exn option"
  | Leave_Over "exn option"
  | Leave_Given_Up

fun leave_waits :: "leaving \<Rightarrow> bool" where
  "leave_waits (Leave_Over _) = False"
| "leave_waits Leave_Given_Up = False"
| "leave_waits _ = True"

text \<open>The cleanup from its beginning, from the processor on, and from the sends on.\<close>

definition cleanup_recovery ::
  "tid option \<Rightarrow> tid option \<Rightarrow> sid \<Rightarrow> exn option \<Rightarrow> client \<Rightarrow> leaving \<times> client" where
  "cleanup_recovery me initiator s r c =
     (let k = t_recovery_task (c_sub c s)
      in (Ending_Recovery (if k = initiator then None else k) r, cleanup_cancel_recovery me initiator s c))"

definition cleanup_stop :: "tid option \<Rightarrow> sid \<Rightarrow> exn option \<Rightarrow> client \<Rightarrow> leaving \<times> client" where
  "cleanup_stop me s r c =
     (Ending_Processor (t_process_task (c_sub c s)) r, stop_topic_task me s c)"

definition next_send :: "sid \<Rightarrow> fid list \<Rightarrow> exn option \<Rightarrow> client \<Rightarrow> leaving \<times> client" where
  "next_send s fs r c =
     (case fs of
        [] \<Rightarrow> (Leave_Over r, cleanup_end s c)
      | f # fs' \<Rightarrow>
          (Awaiting_Send (case t_send_session (c_sub c s) of
                            None \<Rightarrow> None
                          | Some ss \<Rightarrow> wait_for_send ss f c) fs' r, c))"

definition sends_to_await :: "sid \<Rightarrow> client \<Rightarrow> fid list" where
  "sends_to_await s c =
     (if t_send_session (c_sub c s) = None then [] else t_send_outcomes (c_sub c s))"

definition cleanup_processor ::
  "tid option \<Rightarrow> tid option \<Rightarrow> sid \<Rightarrow> exn option \<Rightarrow> client \<Rightarrow> leaving \<times> client" where
  "cleanup_processor me initiator s r c =
     (if t_process_task (c_sub c s) = initiator then next_send s (sends_to_await s c) r c
      else if cleanup_drains initiator (c_sub c s) then
        (case drain_callback s c of
           Some k \<Rightarrow> (Draining_Callback k False r, c)
         | None \<Rightarrow> cleanup_stop me s r c)
      else cleanup_stop me s r c)"

definition leave_first ::
  "tid option \<Rightarrow> tid option \<Rightarrow> sid \<Rightarrow> client \<Rightarrow> leaving \<times> client" where
  "leave_first me initiator s c =
     (case leave_and_cleanup s c of
        (Inr f, c1) \<Rightarrow> (Leave_Sent f, c1)
      | (Inl r, c1) \<Rightarrow> cleanup_recovery me initiator s r c1)"

text \<open>
  The steps of the task \<open>me\<close>. A cancellation, or that of the outcome, gives up the wait for the
  acknowledgement, and with it the send if it was not submitted yet (in the session \<open>ss\<close> that owns
  it), but not the cleanup.
\<close>

inductive leave_step ::
  "tid option \<Rightarrow> tid option \<Rightarrow> sid \<Rightarrow> leaving \<times> client \<Rightarrow> leaving \<times> client \<Rightarrow> bool"
  for me initiator s where
  first: "leave_step me initiator s (Leave_Scheduled, c) (leave_first me initiator s c)"
| answered: "await_outcome (c_fut c f) = Some r \<Longrightarrow> r \<noteq> Inl CancelledError \<Longrightarrow>
    leave_step me initiator s (Leave_Sent f, c)
      (cleanup_recovery me initiator s (case r of Inl e \<Rightarrow> Some e | Inr _ \<Rightarrow> None) c)"
| cancelled: "leave_step me initiator s (Leave_Sent f, c)
    (cleanup_recovery me initiator s (Some CancelledError) (send_cancelled ss f c))"
| recovery_ended: "task_over me k c \<Longrightarrow>
    leave_step me initiator s (Ending_Recovery k r, c) (cleanup_processor me initiator s r c)"
| drain_timed_out: "\<not> task_done c k \<Longrightarrow>
    leave_step me initiator s (Draining_Callback k False r, c)
      (Draining_Callback k True r, drain_timed_out k c)"
| drained: "task_done c k \<Longrightarrow>
    leave_step me initiator s (Draining_Callback k b r, c) (cleanup_stop me s r c)"
| processor_ended: "task_over me k c \<Longrightarrow>
    leave_step me initiator s (Ending_Processor k r, c) (next_send s (sends_to_await s c) r c)"
| send_ended: "task_over None k c \<Longrightarrow>
    leave_step me initiator s (Awaiting_Send k fs r, c) (next_send s fs r c)"
| given_up: "leave_waits q \<Longrightarrow> \<nexists>f. q = Leave_Sent f \<Longrightarrow>
    leave_step me initiator s (q, c) (Leave_Given_Up, c)"

fun stages_left :: "leaving \<Rightarrow> nat" where
  "stages_left Leave_Scheduled = 6"
| "stages_left (Leave_Sent _) = 5"
| "stages_left (Ending_Recovery _ _) = 4"
| "stages_left (Draining_Callback _ b _) = (if b then 2 else 3)"
| "stages_left (Ending_Processor _ _) = 1"
| "stages_left (Awaiting_Send _ fs _) = length fs + 1"
| "stages_left _ = 0"

text \<open>
  The task from the end of the segment that created it, with the number of its own steps, and the
  number of sends it waits for, once it has come to them. A channel with a leave task is left:
  \<open>leave_started\<close> below.
\<close>

definition sends_found :: "leaving \<Rightarrow> leaving \<Rightarrow> nat" where
  "sends_found q q' =
     (case q of
        Awaiting_Send _ _ _ \<Rightarrow> 0
      | _ \<Rightarrow> (case q' of Awaiting_Send _ fs _ \<Rightarrow> length fs + 1 | _ \<Rightarrow> 0))"

inductive counted_leave_step ::
  "tid option \<Rightarrow> tid option \<Rightarrow> sid \<Rightarrow> (leaving \<times> nat) \<times> client \<Rightarrow> (leaving \<times> nat) \<times> client \<Rightarrow> bool"
  for me initiator s where
  counted: "leave_step me initiator s (q, c) (q', c') \<Longrightarrow>
    counted_leave_step me initiator s ((q, m), c) ((q', m + sends_found q q'), c')"

definition leave_start :: "sid \<Rightarrow> tid \<Rightarrow> tid option \<Rightarrow> leaving \<times> nat \<Rightarrow> client \<Rightarrow> bool" where
  "leave_start s k initiator q c \<longleftrightarrow> q = (Leave_Scheduled, 0) \<and> s < c_next c \<and>
     t_state (c_sub c s) = LEFT \<and> t_leave_task (c_sub c s) = Some k \<and>
     k_work (c_task c k) = Leave_And_Cleanup s initiator"

definition leave_run ::
  "sid \<Rightarrow> tid \<Rightarrow> tid option \<Rightarrow> nat \<Rightarrow> nat \<Rightarrow> leaving \<Rightarrow> client \<Rightarrow> bool" where
  "leave_run s k initiator n m q c \<longleftrightarrow>
     interleaved (\<lambda>q. leave_waits (fst q)) (counted_leave_step (Some k) initiator s)
       (leave_start s k initiator) n (q, m) c"

section \<open>It is a run of the client\<close>

lemma cleanup_step_run:
  "run c (snd (cleanup_recovery me initiator s r c))" "run c (snd (cleanup_stop me s r c))"
  "run c (snd (next_send s fs r c))"
  by (auto simp: cleanup_recovery_def Let_def cleanup_stop_def stop_topic_task_run next_send_def
      channel_step_def task_step.cleanup_recovery task_step.cleaned run.stay intro!: run_step
      split: list.split)

lemma cleanup_processor_run: "run c (snd (cleanup_processor me initiator s r c))"
  by (simp add: cleanup_processor_def cleanup_step_run run.stay split: option.split)

lemma leave_first_run: "run c (snd (leave_first me initiator s c))"
proof -
  have b: "run c (snd (leave_and_cleanup s c))"
    by (simp add: channel_step_def task_step.leaving run_step)
  show ?thesis
    using b run_trans [OF cleanup_step_run(1) b]
    by (auto simp: leave_first_def split: prod.split sum.split)
qed

lemma leave_step_run:
  assumes "leave_step me initiator s (q, c) (q', c')"
  shows "run c c'"
  using assms
proof (cases rule: leave_step.cases)
  case first
  then show ?thesis using leave_first_run by (metis snd_conv)
next
  case (answered f r)
  then show ?thesis using cleanup_step_run(1) by (metis snd_conv)
next
  case (cancelled f ss)
  have "run c (send_cancelled ss f c)"
    by (simp add: channel_step_def app_step.caller_cancelled run_step)
  then show ?thesis using cancelled(2) run_trans [OF cleanup_step_run(1)] by (metis snd_conv)
next
  case (recovery_ended k r)
  then show ?thesis using cleanup_processor_run by (metis snd_conv)
next
  case (drained k b r)
  then show ?thesis using cleanup_step_run(2) by (metis snd_conv)
next
  case (processor_ended k r)
  then show ?thesis using cleanup_step_run(3) by (metis snd_conv)
next
  case (send_ended k fs r)
  then show ?thesis using cleanup_step_run(3) by (metis snd_conv)
qed (auto simp: drain_timed_out_run run.stay)

section \<open>It ends, and cleans up\<close>

lemma cleanup_stages [simp]:
  "stages_left (fst (cleanup_recovery me initiator s r c)) = 4"
  "stages_left (fst (cleanup_stop me s r c)) = 1"
  by (simp_all add: cleanup_recovery_def cleanup_stop_def Let_def)

lemma next_send_stages: "stages_left (fst (next_send s fs r c)) = length fs"
  by (simp add: next_send_def split: list.split)

lemma sends_found_next:
  "stages_left (fst (next_send s fs r c)) \<le> sends_found q (fst (next_send s fs r c)) \<or>
   (\<exists>k x y. q = Awaiting_Send k x y)"
  by (auto simp: next_send_def sends_found_def split: list.split leaving.split)

lemma leave_step_nearer:
  assumes "leave_step me initiator s (q, c) (q', c')"
  shows "stages_left q' < stages_left q + sends_found q q'"
  using assms
proof (cases rule: leave_step.cases)
  case first
  then have "q' = fst (leave_first me initiator s c)" by (metis fst_conv)
  then have "stages_left q' \<le> 5" by (auto simp: leave_first_def split: prod.split sum.split)
  then show ?thesis using first(1) by simp
next
  case (answered f r)
  then have "stages_left q' = 4" by (metis fst_conv cleanup_stages(1))
  then show ?thesis using answered(1) by simp
next
  case (cancelled f ss)
  then have "stages_left q' = 4" by (metis fst_conv cleanup_stages(1))
  then show ?thesis using cancelled(1) by simp
next
  case (recovery_ended k r)
  then have q': "q' = fst (cleanup_processor me initiator s r c)" by (metis fst_conv)
  have "stages_left q' \<le> 3 + sends_found q q'"
    using sends_found_next [of s "sends_to_await s c" r c q] recovery_ended(1) unfolding q'
    by (auto simp: cleanup_processor_def split: option.split)
  then show ?thesis using recovery_ended(1) by simp
next
  case (drained k b r)
  then have "stages_left q' = 1" by (metis fst_conv cleanup_stages(2))
  then show ?thesis using drained(1) by simp
next
  case (processor_ended k r)
  then have q': "q' = fst (next_send s (sends_to_await s c) r c)" by (metis fst_conv)
  then show ?thesis using sends_found_next [of s "sends_to_await s c" r c q] processor_ended(1) by auto
next
  case (send_ended k fs r)
  then have "q' = fst (next_send s fs r c)" by (metis fst_conv)
  then show ?thesis using next_send_stages [of s fs r c] send_ended(1) by simp
next
  case given_up
  then show ?thesis by (cases q) auto
qed auto

lemma next_send_over: "next_send s fs r c = (Leave_Over x, c') \<Longrightarrow> c' = cleanup_end s c"
  by (auto simp: next_send_def split: list.splits)

lemma leave_over_by_cleanup:
  assumes "leave_step me initiator s (q, c) (Leave_Over x, c')"
  shows "c' = cleanup_end s c"
  using assms
proof (cases rule: leave_step.cases)
  case first
  then show ?thesis
    by (auto simp: leave_first_def cleanup_recovery_def Let_def split: prod.splits sum.splits)
next
  case (recovery_ended k r)
  then have "cleanup_processor me initiator s r c = (Leave_Over x, c')" by simp
  then show ?thesis
    by (auto simp: cleanup_processor_def cleanup_stop_def split: option.splits if_splits
        intro: next_send_over)
next
  case (processor_ended k r)
  then show ?thesis by (metis next_send_over)
next
  case (send_ended k fs r)
  then show ?thesis by (metis next_send_over)
qed (auto simp: cleanup_recovery_def cleanup_stop_def Let_def)

lemma cleanup_end_effect:
  assumes "t_state (c_sub c s) = LEFT"
  defines "d \<equiv> cleanup_end s c"
  shows "t_cleanup_done (c_sub d s) \<and>
    (is_registered d s \<longrightarrow>
      t_join_submitted (c_sub d s) \<and> \<not> t_terminal_received (c_sub d s) \<or> sends_pending d s)"
  using assms(1) unfolding d_def
  by (auto simp: cleanup_end_def release_reservation_def Let_def is_registered_def dict_get_pop
      simp del: map_of_eq_Some_iff split: if_splits)

section \<open>The task as a whole\<close>

lemma leave_started:
  assumes "inv c" "t_leave_task (c_sub c s) = None" "start_leave_task s initiator c = (k, c')"
  shows "t_state (c_sub c' s) = LEFT \<and> t_leave_task (c_sub c' s) = Some k \<and>
    k_work (c_task c' k) = Leave_And_Cleanup s initiator"
proof -
  define c1 where "c1 = (if t_state (c_sub c s) \<noteq> LEFT
    then transition_channel s LEAVE (Some (ChannelError (lit ''Channel was left''))) c else c)"
  have "t_state (c_sub c1 s) = LEFT"
    using transition_leaves [OF assms(1), of LEAVE] by (simp add: c1_def)
  then show ?thesis
    using assms(2,3)
    by (auto simp: start_leave_task_def c1_def [symmetric] Let_def new_task_def upd_topic_def
        split: prod.splits)
qed

lemma stays_left:
  assumes "reachable c" "s < c_next c" "t_state (c_sub c s) = LEFT" "t_leave_task (c_sub c s) = Some k"
    "run c c'"
  shows "reachable c'" "s < c_next c'" "t_state (c_sub c' s) = LEFT" "t_leave_task (c_sub c' s) = Some k"
proof -
  have p: "progress c c'" using run_progress [OF assms(5,1)] .
  show "reachable c'" by (rule run_reachable [OF assms(5,1)])
  show "s < c_next c'" using progressD(1) [OF p] assms(2) by simp
  show "t_state (c_sub c' s) = LEFT" "t_leave_task (c_sub c' s) = Some k"
    using progressD(4) [OF p assms(2)] assms(3,4) by (simp_all add: topic_progress_def)
qed

definition cleaned_up :: "client \<Rightarrow> sid \<Rightarrow> bool" where
  "cleaned_up c s \<longleftrightarrow> t_cleanup_done (c_sub c s) \<and>
     (is_registered c s \<longrightarrow>
        t_join_submitted (c_sub c s) \<and> \<not> t_terminal_received (c_sub c s) \<or> sends_pending c s)"

fun leave_fact :: "sid \<Rightarrow> tid \<Rightarrow> nat \<Rightarrow> leaving \<times> nat \<Rightarrow> client \<Rightarrow> bool" where
  "leave_fact s k n (q, m) c \<longleftrightarrow> s < c_next c \<and> t_state (c_sub c s) = LEFT \<and>
     t_leave_task (c_sub c s) = Some k \<and> n + stages_left q \<le> 6 + m \<and>
     (\<forall>r. q = Leave_Over r \<longrightarrow> cleaned_up c s) \<and>
     (\<forall>f. q = Leave_Sent f \<longrightarrow> t_unsubscribed (c_sub c s) = Some f)"

lemma leave_sent:
  assumes "leave_step me initiator s (q, c) (Leave_Sent f, c')" "inv c" "s < c_next c"
  shows "t_unsubscribed (c_sub c' s) = Some f"
  using assms(1)
proof (cases rule: leave_step.cases)
  case first
  then have l: "leave_and_cleanup s c = (Inr f, c')"
    by (auto simp: leave_first_def cleanup_recovery_def Let_def split: prod.splits sum.splits)
  define c2 where "c2 = upd_topic s (\<lambda>t. t\<lparr>t_leave_ref := Some (str_nat (c_ref_counter c + 1))\<rparr>)
    (snd (generate_ref c))"
  obtain g c3 where c3: "unsubscribe_completed s c2 = (g, c3)" by force
  obtain m t e where o: "g = f" "c' = snd (send_channel_operation s m f t e c3)"
    using l c3
    by (auto simp: leave_and_cleanup_def c2_def Let_def case_prod_beta split: if_splits option.splits)
  have "sound c c3" unfolding c2_def
    by (rule sound_trans [OF sound_leave_ref sound_unsubscribe_completed [OF c3 [unfolded c2_def]]])
  then have i: "inv c3" "c_next c \<le> c_next c3" using soundD assms(2) progressD(1) by blast+
  have "t_unsubscribed (c_sub c3 s) = Some f" using unsubscribed_upd(2) [OF c3] o(1) by simp
  then show ?thesis
    using progressD(4) [OF soundD(1) [OF sound_send_operation i(1)], of s s m f t e] assms(3) i(2)
    unfolding o(2) by (simp add: topic_progress_def)
next
  case (recovery_ended k r)
  then show ?thesis
    by (auto simp: cleanup_processor_def cleanup_stop_def next_send_def split: if_splits option.splits list.splits)
qed (auto simp: cleanup_recovery_def cleanup_stop_def next_send_def Let_def split: list.splits)

lemma leave_step_fact:
  assumes "leave_step me initiator s (q, c) (q', c')" "reachable c" "leave_fact s k n (q, m) c"
  shows "leave_fact s k (n + 1) (q', m + sends_found q q') c'"
proof -
  have r: "run c c'" by (rule leave_step_run [OF assms(1)])
  have "cleaned_up c' s" if "q' = Leave_Over x" for x
    using leave_over_by_cleanup [of me initiator s q c x c'] cleanup_end_effect [of c s] that assms(1,3)
    by (simp add: cleaned_up_def)
  then show ?thesis
    using stays_left [OF assms(2) _ _ _ r] leave_step_nearer [OF assms(1)] assms(1,3)
      leave_sent [OF _ reachable_inv [OF assms(2)]] by auto
qed

interpretation leave: coroutine "\<lambda>q. leave_waits (fst q)" "counted_leave_step (Some k) initiator s"
  "leave_start s k initiator" "leave_fact s k" for s k initiator
proof
  show "leave_fact s k 0 q c" if "leave_start s k initiator q c" for q c
    using that by (simp add: leave_start_def)
next
  show "run c c'" if "counted_leave_step (Some k) initiator s (q, c) (q', c')" for q c q' c'
    using that by cases (rule leave_step_run)
next
  show "leave_fact s k (n + 1) q' c'"
    if "counted_leave_step (Some k) initiator s (q, c) (q', c')" "reachable c" "leave_fact s k n q c"
    for n q c q' c'
    using that by cases (use leave_step_fact in blast)
next
  fix q :: "leaving \<times> nat" and n c c'
  assume "leave_waits (fst q)" "reachable c" "leave_fact s k n q c" "run c c'"
  then show "leave_fact s k n q c'"
    using stays_left [of c s k c'] progressD(4) [OF run_progress [of c c'], of s]
    by (cases q; cases "fst q") (auto simp: topic_progress_def)
qed

lemma leave_run_own:
  "leave_run s k initiator n m q c \<Longrightarrow> leave_step (Some k) initiator s (q, c) (q', c') \<Longrightarrow>
   leave_run s k initiator (n + 1) (m + sends_found q q') q' c'"
  unfolding leave_run_def by (rule interleaved.own) (auto intro: counted_leave_step.intros)

text \<open>
  Claim C16: leaving a channel ends, and cleans up. Whatever the client does while the task waits
  (the connection is lost or replaced, the server answers, crashes or closes the channel, the
  client stops), and whatever comes of the leave frame, the channel stays left with this task as
  the only one that leaves it; what the task waits for after the frame stays the outcome that an
  acknowledgement settles; the task needs at most six steps of its own and one for each send it
  waits for, and unless it is cancelled in its cleanup it marks the cleanup as done; the name is free from then on, unless the server may
  still hold the join or a send of the channel is still under way.
\<close>

theorem leaving_cleans_up:
  assumes "leave_run s k initiator n m q c"
  shows "n + stages_left q \<le> 6 + m \<and> reachable c \<and> t_state (c_sub c s) = LEFT \<and>
    t_leave_task (c_sub c s) = Some k \<and>
    (case q of
       Leave_Sent f \<Rightarrow> t_unsubscribed (c_sub c s) = Some f
     | Leave_Over r \<Rightarrow> t_cleanup_done (c_sub c s) \<and>
         (is_registered c s \<longrightarrow>
            t_join_submitted (c_sub c s) \<and> \<not> t_terminal_received (c_sub c s) \<or> sends_pending c s)
     | _ \<Rightarrow> True)"
  using leave.always [OF assms [unfolded leave_run_def]]
  by (cases q) (auto simp: cleaned_up_def)

lemma leaving_cleans_up_witness:
  "\<exists>k c. leave_run 1 k None 2 0 (Leave_Over None) c \<and> t_cleanup_done (c_sub c 1)"
proof -
  obtain k c where l: "start_leave_task 1 None sample_joined = (k, c)" by force
  then have "leave_channel 1 None sample_joined = (Some k, c)"
    by (simp add: leave_channel_def sample_defs)
  then have "run sample_joined c"
    using app_step.left [of sample_joined 1 None] by (auto simp: channel_step_def intro!: run_step)
  then have "reachable c" "1 < c_next c"
    using run_reachable [OF _ sample_joined_reachable]
      progressD(1) [OF run_progress [OF _ sample_joined_reachable], of c] by (auto simp: sample_defs)
  moreover have "t_leave_task (c_sub sample_joined 1) = None" by (simp add: sample_defs)
  ultimately have r0: "leave_run 1 k None 0 0 Leave_Scheduled c"
    using leave_started [OF reachable_inv [OF sample_joined_reachable] _ l]
    by (simp add: leave_run_def interleaved.begun leave_start_def)
  have c: "\<not> t_join_submitted (c_sub c 1)" "t_connection (c_sub c 1) = Some 0" "c_connection c = Some 0"
      "t_recovery_task (c_sub c 1) = None" "t_process_task (c_sub c 1) = None"
      "t_send_session (c_sub c 1) = None"
    using l
    by (auto simp: start_leave_task_def transition_channel_def fail_pushes_def fail_current_join_def
        current_join_ready_def set_future_exception_def put_outcome_def fut_done_def lost_state_def recoverable_def
        upd_topic_def new_future_def new_task_def sample_defs Let_def)
  have "leave_first (Some k) None 1 c = (Ending_Recovery None None, c)"
    using c by (simp add: leave_first_def leave_and_cleanup_def cleanup_recovery_def Let_def
        cleanup_cancel_recovery_def)
  then have "leave_run 1 k None 1 0 (Ending_Recovery None None) c"
    using leave_run_own [OF r0, of "Ending_Recovery None None" c] leave_step.first [of "Some k" None 1 c]
    by (simp add: sends_found_def)
  moreover have "cleanup_processor (Some k) None 1 None c = (Leave_Over None, cleanup_end 1 c)"
    using c by (simp add: cleanup_processor_def sends_to_await_def next_send_def)
  then have "leave_step (Some k) None 1 (Ending_Recovery None None, c) (Leave_Over None, cleanup_end 1 c)"
    using leave_step.recovery_ended [of "Some k" None c None 1 None] by (simp add: task_over_def)
  ultimately have "leave_run 1 k None (1 + 1) 0 (Leave_Over None) (cleanup_end 1 c)"
    using leave_run_own by (fastforce simp: sends_found_def)
  then have "leave_run 1 k None 2 0 (Leave_Over None) (cleanup_end 1 c)" by (simp only: one_add_one)
  with leaving_cleans_up [OF this] show ?thesis by auto
qed

end
