(* ===== verification/Channel_Joining.thy ===== *)
theory Channel_Joining
  imports Channel_Leaving
begin

text \<open>
  \<open>join()\<close> as a whole (\<open>_join_channel\<close> and \<open>_finish_failed_join\<close> of \<open>topic_runtime.py\<close>): the
  reservation of the name, the wait for the acknowledgement, the cleanup of a join that failed.
\<close>

section \<open>The call\<close>

text \<open>
  Where the call is: before its first step; waiting for the acknowledgement; waiting for the leave
  of a channel whose join failed with an error; returned, with the outcome it was given; refused
  without having touched the channel; failed.
\<close>

datatype joining =
    Join_Called
  | Awaiting_Ack fid
  | Ending_Join "tid option" exn
  | Join_Returned fid
  | Join_Refused exn
  | Join_Raised exn

fun join_waits :: "joining \<Rightarrow> bool" where
  "join_waits Join_Called = True"
| "join_waits (Awaiting_Ack _) = True"
| "join_waits (Ending_Join _ _) = True"
| "join_waits _ = False"

definition finish_failed_join :: "tid option \<Rightarrow> sid \<Rightarrow> exn \<Rightarrow> client \<Rightarrow> joining \<times> client" where
  "finish_failed_join me s e c =
     (case leave_channel s me c of (k, c1) \<Rightarrow> (Ending_Join k (join_channel_error s e c), c1))"

definition join_first :: "tid option \<Rightarrow> sid \<Rightarrow> client \<Rightarrow> joining \<times> client" where
  "join_first me s c =
     (case reserve_name s c of
        Inl e \<Rightarrow> (Join_Refused e, c)
      | Inr c1 \<Rightarrow>
          (case join_channel_begin s c1 of
             (Inl e, c2) \<Rightarrow> finish_failed_join me s e c2
           | (Inr f, c2) \<Rightarrow> (Awaiting_Ack f, c2)))"

definition join_answered ::
  "tid option \<Rightarrow> sid \<Rightarrow> fid \<Rightarrow> exn + reply option \<Rightarrow> client \<Rightarrow> joining \<times> client" where
  "join_answered me s f r c =
     (case join_end s r c of
        (Inr _, c1) \<Rightarrow> (Join_Returned f, c1)
      | (Inl e, c1) \<Rightarrow> finish_failed_join me s e c1)"

text \<open>
  The steps of the call in task \<open>me\<close>. What the leave raises is logged, unless it or the call is
  cancelled; a cancellation of the call, or of the outcome, while the acknowledgement is awaited
  gives up the send in the session \<open>ss\<close> that owns it.
\<close>

inductive join_step :: "tid option \<Rightarrow> sid \<Rightarrow> joining \<times> client \<Rightarrow> joining \<times> client \<Rightarrow> bool" for me s where
  first: "join_step me s (Join_Called, c) (join_first me s c)"
| answered: "await_outcome (c_fut c f) = Some r \<Longrightarrow> r \<noteq> Inl CancelledError \<Longrightarrow>
    join_step me s (Awaiting_Ack f, c) (join_answered me s f r c)"
| given_up: "join_step me s (Awaiting_Ack f, c)
    (finish_failed_join me s CancelledError (send_cancelled ss f c))"
| cleaned_up: "task_over me k c \<Longrightarrow> join_step me s (Ending_Join k e, c) (Join_Raised e, c)"
| cancelled: "join_step me s (Ending_Join k e, c) (Join_Raised CancelledError, c)"

fun join_left :: "joining \<Rightarrow> nat" where
  "join_left Join_Called = 3"
| "join_left (Awaiting_Ack _) = 2"
| "join_left (Ending_Join _ _) = 1"
| "join_left _ = 0"

text \<open>
  A call for a channel that is not being left, or was left already, with the number of its own
  steps.
\<close>

definition not_being_left :: "client \<Rightarrow> sid \<Rightarrow> bool" where
  "not_being_left c s \<longleftrightarrow> t_leave_task (c_sub c s) = None \<or> t_state (c_sub c s) = LEFT"

definition join_start :: "sid \<Rightarrow> joining \<Rightarrow> client \<Rightarrow> bool" where
  "join_start s q c \<longleftrightarrow> q = Join_Called \<and> s < c_next c \<and> not_being_left c s"

definition join_run :: "tid option \<Rightarrow> sid \<Rightarrow> nat \<Rightarrow> joining \<Rightarrow> client \<Rightarrow> bool" where
  "join_run me s = interleaved join_waits (join_step me s) (join_start s)"

section \<open>It is a run of the client\<close>

lemma finish_failed_join_run: "run c (snd (finish_failed_join me s e c))"
proof -
  have "run c (snd (leave_channel s me c))" by (simp add: channel_step_def app_step.left run_step)
  then show ?thesis by (simp add: finish_failed_join_def case_prod_beta)
qed

lemma join_first_run:
  assumes "s < c_next c"
  shows "run c (snd (join_first me s c))"
proof (cases "reserve_name s c")
  case (Inr c1)
  have "channel_step c c1" using app_step.reserved [OF assms Inr] by (simp add: channel_step_def)
  moreover have "channel_step c1 (snd (join_channel_begin s c1))"
    by (simp add: channel_step_def app_step.join_sent)
  ultimately have b: "run c (snd (join_channel_begin s c1))"
    using run.go [OF run_step] by blast
  show ?thesis
    using b run_trans [OF finish_failed_join_run b] Inr
    by (auto simp: join_first_def split: prod.split sum.split)
qed (simp add: join_first_def run.stay)

lemma join_answered_run:
  assumes "await_outcome (c_fut c f) = Some r"
  shows "run c (snd (join_answered me s f r c))"
proof -
  have b: "run c (snd (join_end s r c))"
    by (simp add: channel_step_def app_step.joined_or_failed [OF assms] run_step)
  show ?thesis
    using b run_trans [OF finish_failed_join_run b]
    by (auto simp: join_answered_def split: prod.split sum.split)
qed

lemma join_step_run:
  assumes "join_step me s (q, c) (q', c')" "s < c_next c"
  shows "run c c'"
  using assms(1)
proof (cases rule: join_step.cases)
  case first
  then show ?thesis using join_first_run [OF assms(2)] by (metis snd_conv)
next
  case (answered f r)
  then show ?thesis using join_answered_run by (metis snd_conv)
next
  case (given_up f ss)
  have "run c (send_cancelled ss f c)"
    by (simp add: channel_step_def app_step.caller_cancelled run_step)
  then show ?thesis using given_up(2) run_trans [OF finish_failed_join_run] by (metis snd_conv)
qed (auto simp: run.stay)

section \<open>How it ends\<close>

text \<open>What holds of the channel during the call: \<open>being_joined\<close> once the name is reserved.\<close>

definition being_joined :: "client \<Rightarrow> sid \<Rightarrow> bool" where
  "being_joined c s \<longleftrightarrow> not_being_left c s \<and> t_state (c_sub c s) \<noteq> CREATED"

definition being_left :: "client \<Rightarrow> sid \<Rightarrow> bool" where
  "being_left c s \<longleftrightarrow> t_state (c_sub c s) = LEFT \<and> t_leave_task (c_sub c s) \<noteq> None"

lemma during_call:
  assumes "reachable c" "s < c_next c" "run c c'"
  shows "reachable c'" "s < c_next c'" "not_being_left c s \<Longrightarrow> not_being_left c' s"
    "being_joined c s \<Longrightarrow> being_joined c' s" "being_left c s \<Longrightarrow> being_left c' s"
proof -
  have p: "progress c c'" using run_progress [OF assms(3,1)] .
  show "reachable c'" by (rule run_reachable [OF assms(3,1)])
  show "s < c_next c'" using progressD(1) [OF p] assms(2) by simp
  show "not_being_left c s \<Longrightarrow> not_being_left c' s" "being_joined c s \<Longrightarrow> being_joined c' s"
    "being_left c s \<Longrightarrow> being_left c' s"
    using progressD(4) [OF p assms(2)]
    by (auto simp: topic_progress_def not_being_left_def being_joined_def being_left_def)
qed

lemma failed_join_left:
  assumes "inv c" "being_joined c s" "finish_failed_join me s e c = (q, c')"
  shows "(\<exists>k. q = Ending_Join k (join_channel_error s e c)) \<and> being_left c' s"
proof -
  obtain k d where l: "start_leave_task s me c = (k, d)" by force
  have "being_left d s"
  proof (cases "t_leave_task (c_sub c s)")
    case None
    then show ?thesis using leave_started [OF assms(1) None l] by (simp add: being_left_def)
  next
    case (Some x)
    then show ?thesis
      using assms(2) l
      by (auto simp: start_leave_task_def being_joined_def not_being_left_def being_left_def)
  qed
  then show ?thesis
    using assms(2,3) l by (auto simp: finish_failed_join_def leave_channel_def being_joined_def)
qed

lemma join_channel_error_not_timeout: "join_channel_error s e c \<noteq> TimeoutError"
  by (simp add: join_channel_error_def)

lemma reserved_being_joined:
  assumes "reserve_name s c = Inr c1" "not_being_left c s"
  shows "being_joined c1 s"
  using assms
  by (auto simp: reserve_name_def ensure_can_send_def generate_ref_def upd_topic_def Let_def
      being_joined_def not_being_left_def split: sum.splits if_splits)

text \<open>
  What holds while the call waits: its outcome is settled, or the channel is still joining, and
  waits for the same.
\<close>

definition join_answerable :: "client \<Rightarrow> sid \<Rightarrow> fid \<Rightarrow> bool" where
  "join_answerable c s f \<longleftrightarrow>
     s < c_next c \<and> f < c_next c \<and> (c_fut c f = Pending \<longrightarrow> awaits_join (c_sub c s) f)"

lemma join_answerable_stays: "join_answerable c s f \<Longrightarrow> progress c c' \<Longrightarrow> join_answerable c' s f"
  unfolding join_answerable_def using progressD(1,3,7) [of c c'] by (metis order_less_le_trans)

lemma join_begin_answerable:
  assumes "inv c" "s < c_next c" "t_state (c_sub c s) = JOINING" "join_channel_begin s c = (Inr f, c')"
  shows "join_answerable c' s f"
proof -
  define c1 where "c1 = start_processor s c"
  obtain g c2 where c2: "current_join_ready s c1 = (g, c2)" by force
  note u = join_ready_upd [OF c2]
  have i1: "inv c1" unfolding c1_def using soundD(2) [OF sound_start_processor assms(1)] .
  have i2: "inv c2" using soundD(2) [OF sound_join_ready [OF c2] i1] .
  have j: "join_begin s c1 = (Inr f, c')"
    using assms(4) by (simp add: join_channel_begin_def c1_def Let_def split: sum.splits)
  obtain params where params: "resolve_join_params (c_sub c1 s) = Inr params"
    using j by (cases "resolve_join_params (c_sub c1 s)") (auto simp: join_begin_def split: prod.splits)
  define m where "m = make_message (System SysJoin) (t_name (c_sub c1 s)) (Some (t_join_ref (c_sub c1 s)))
    (Some (PDict params)) (Some (t_join_ref (c_sub c1 s)))"
  obtain x c3 where op: "send_channel_operation s m g (c_join_timeout c2) TimeoutError c2 = (x, c3)"
    by force
  have "g = f" "c3 = c'"
    using j unfolding join_begin_def params sum.case Let_def c2 prod.case m_def [symmetric] op
    by (auto split: option.splits prod.splits)
  note o = op [unfolded \<open>c3 = c'\<close>]
  have "progress c2 c'"
    using soundD(1) [OF sound_send_operation [of c2 s m g "c_join_timeout c2" TimeoutError] i2] o by simp
  moreover have "s < c_next c2"
    using assms(2) progressD(1) [OF u(1)] by (simp add: c1_def start_processor_def case_prod_beta Let_def)
  moreover have "g < c_next c2" by (rule u(5)) (use inv_topic [OF i1, of s] in \<open>simp add: topic_ok_def\<close>)
  moreover have "awaits_join (c_sub c2 s) g"
    using assms(3) by (simp add: u(2) awaits_join_def c1_def start_processor_def case_prod_beta Let_def)
  ultimately have "join_answerable c' s g"
    using join_answerable_stays [of c2 s g c'] by (simp add: join_answerable_def)
  then show ?thesis by (simp only: \<open>g = f\<close>)
qed

fun join_fact :: "joining \<Rightarrow> sid \<Rightarrow> client \<Rightarrow> bool" where
  "join_fact Join_Called s c = not_being_left c s"
| "join_fact (Awaiting_Ack f) s c = (being_joined c s \<and> join_answerable c s f)"
| "join_fact (Ending_Join k e) s c = (being_left c s \<and> e \<noteq> TimeoutError)"
| "join_fact (Join_Returned f) s c = (\<exists>r. c_fut c f = Result r)"
| "join_fact (Join_Refused e) s c =
     (t_state (c_sub c s) \<noteq> CREATED \<or> \<not> is_connected c \<or>
      dict_get (c_registry c) (t_name (c_sub c s)) \<noteq> None)"
| "join_fact (Join_Raised e) s c = (being_left c s \<and> e \<noteq> TimeoutError)"

lemma failed_join_fact:
  assumes "inv c" "being_joined c s" "finish_failed_join me s e c = (q, c')"
  shows "join_fact q s c' \<and> join_left q = 1"
  using failed_join_left [OF assms] join_channel_error_not_timeout by auto

lemma join_first_fact:
  assumes "reachable c" "s < c_next c" "not_being_left c s" "join_first me s c = (q, c')"
  shows "join_fact q s c' \<and> join_left q \<le> 2"
proof (cases "reserve_name s c")
  case (Inl e)
  then show ?thesis
    using assms(4)
    by (auto simp: join_first_def reserve_name_def ensure_can_send_def Let_def
        split: sum.splits if_splits prod.splits)
next
  case (Inr c1)
  obtain r c2 where b: "join_channel_begin s c1 = (r, c2)" by force
  have r1: "run c c1" using app_step.reserved [OF assms(2) Inr] by (simp add: channel_step_def run_step)
  have "app_step c1 c2" using app_step.join_sent [of c1 s] b by simp
  then have r2: "run c1 c2" by (simp add: channel_step_def run_step)
  note d1 = during_call [OF assms(1,2) r1]
  note d2 = during_call [OF d1(1,2) r2]
  have j: "being_joined c2 s" by (rule d2(4) [OF reserved_being_joined [OF Inr assms(3)]])
  show ?thesis
  proof (cases r)
    case (Inl e)
    then have "finish_failed_join me s e c2 = (q, c')" using assms(4) Inr b by (simp add: join_first_def)
    then show ?thesis using failed_join_fact [OF reachable_inv [OF d2(1)] j] by fastforce
  next
    case (Inr f)
    have "t_state (c_sub c1 s) = JOINING"
      using \<open>reserve_name s c = Inr c1\<close> by (auto simp: reserve_name_def andThen_Inr_iff Let_def split: if_splits prod.splits)
    then have "join_answerable c2 s f"
      using join_begin_answerable [OF reachable_inv [OF d1(1)] d1(2)] b Inr by simp
    then show ?thesis using assms(4) \<open>reserve_name s c = Inr c1\<close> b j Inr by (auto simp: join_first_def)
  qed
qed

lemma join_answered_fact:
  assumes "reachable c" "s < c_next c" "being_joined c s" "await_outcome (c_fut c f) = Some r"
    "join_answered me s f r c = (q, c')"
  shows "join_fact q s c' \<and> join_left q \<le> 1"
proof -
  obtain x c1 where b: "join_end s r c = (x, c1)" by force
  have "app_step c c1" using app_step.joined_or_failed [OF assms(4), of s] b by simp
  then have "run c c1" by (simp add: channel_step_def run_step)
  note d = during_call [OF assms(1,2) this]
  show ?thesis
  proof (cases x)
    case (Inl e)
    then have "finish_failed_join me s e c1 = (q, c')" using assms(5) b by (simp add: join_answered_def)
    then show ?thesis using failed_join_fact [OF reachable_inv [OF d(1)] d(4) [OF assms(3)]] by fastforce
  next
    case (Inr u)
    then have "q = Join_Returned f" "c' = c1" using assms(5) b by (auto simp: join_answered_def)
    moreover have "\<exists>y. c_fut c f = Result y" "c1 = c"
      using b Inr assms(4) by (cases "c_fut c f"; auto simp: join_end_def split: prod.splits)+
    ultimately show ?thesis by simp
  qed
qed

lemma join_step_fact:
  assumes "join_step me s (q, c) (q', c')" "reachable c" "s < c_next c" "join_fact q s c"
  shows "join_fact q' s c' \<and> join_left q' < join_left q"
  using assms(1)
proof (cases rule: join_step.cases)
  case first
  then show ?thesis using join_first_fact [OF assms(2,3), of me q' c'] assms(4) by simp
next
  case (answered f r)
  then show ?thesis using join_answered_fact [OF assms(2,3), of f r me q' c'] assms(4) by simp
next
  case (given_up f ss)
  have "run c (send_cancelled ss f c)"
    by (simp add: channel_step_def app_step.caller_cancelled run_step)
  note d = during_call [OF assms(2,3) this]
  show ?thesis
    using failed_join_fact [OF reachable_inv [OF d(1)] d(4), of me CancelledError q' c'] given_up assms(4)
    by simp
qed (use assms(4) in auto)

lemma refusal_changes_nothing:
  assumes "join_step me s (q, c) (Join_Refused e, c')"
  shows "c' = c"
  using assms
proof (cases rule: join_step.cases)
  case first
  then show ?thesis
    by (auto simp: join_first_def finish_failed_join_def split: sum.splits prod.splits)
qed (auto simp: join_answered_def finish_failed_join_def split: sum.splits prod.splits)

interpretation joining: coroutine join_waits "join_step me s" "join_start s"
  "\<lambda>n q c. s < c_next c \<and> join_fact q s c \<and> n + join_left q \<le> 3" for me s
proof
  show "s < c_next c \<and> join_fact q s c \<and> 0 + join_left q \<le> 3" if "join_start s q c" for q c
    using that by (simp add: join_start_def)
next
  show "run c c'" if "join_step me s (q, c) (q', c')"
    "s < c_next c \<and> join_fact q s c \<and> n + join_left q \<le> 3" for n q c q' c'
    using that join_step_run by blast
next
  fix n q c q' c'
  assume a: "join_step me s (q, c) (q', c')" "reachable c"
    "s < c_next c \<and> join_fact q s c \<and> n + join_left q \<le> 3" "run c c'"
  show "s < c_next c' \<and> join_fact q' s c' \<and> n + 1 + join_left q' \<le> 3"
    using join_step_fact [OF a(1,2)] during_call [OF a(2) _ a(4)] a(3) by fastforce
next
  fix n q c c'
  assume a: "join_waits q" "reachable c"
    "s < c_next c \<and> join_fact q s c \<and> n + join_left q \<le> 3" "run c c'"
  show "s < c_next c' \<and> join_fact q s c' \<and> n + join_left q \<le> 3"
    using during_call [OF a(2) _ a(4)] join_answerable_stays [OF _ run_progress [OF a(4,2)]] a(1,3)
    by (cases q) auto
qed

text \<open>
  Claim C14: \<open>join()\<close> ends in one of three ways, after at most three steps of its own. It is
  refused: the channel was joined or left before, the client is not connected, or another channel
  holds the name; and the step that refuses it changes nothing, no name is taken and nothing is sent. While it waits, its outcome is settled or the
  channel is still joining and has that outcome as its own, so that the acknowledgement, a refusal
  or the loss of the channel settles it. Or it returns, when the outcome it waited for
  was delivered. Or it raises, never a \<open>TimeoutError\<close>, and then the channel is left for good and
  has its leave task, whatever else the client did meanwhile: no failed join keeps a channel
  half open.
\<close>

theorem join_returns_or_leaves:
  assumes "join_run me s n q c"
  shows "n + join_left q \<le> 3 \<and> reachable c \<and>
    (case q of
       Join_Refused e \<Rightarrow> t_state (c_sub c s) \<noteq> CREATED \<or> \<not> is_connected c \<or>
         dict_get (c_registry c) (t_name (c_sub c s)) \<noteq> None
     | Awaiting_Ack f \<Rightarrow> c_fut c f \<noteq> Pending \<or>
         t_state (c_sub c s) = JOINING \<and> t_join_ready (c_sub c s) = Some f
     | Join_Returned f \<Rightarrow> \<exists>r. c_fut c f = Result r
     | Join_Raised e \<Rightarrow> e \<noteq> TimeoutError \<and> t_state (c_sub c s) = LEFT \<and>
         t_leave_task (c_sub c s) \<noteq> None
     | _ \<Rightarrow> True) \<and>
    (\<forall>e c'. join_step me s (q, c) (Join_Refused e, c') \<longrightarrow> c' = c)"
proof (intro conjI allI impI)
  note j = joining.always [OF assms [unfolded join_run_def]]
  show "n + join_left q \<le> 3" "reachable c" using j by simp_all
  show "case q of
       Join_Refused e \<Rightarrow> t_state (c_sub c s) \<noteq> CREATED \<or> \<not> is_connected c \<or>
         dict_get (c_registry c) (t_name (c_sub c s)) \<noteq> None
     | Awaiting_Ack f \<Rightarrow> c_fut c f \<noteq> Pending \<or>
         t_state (c_sub c s) = JOINING \<and> t_join_ready (c_sub c s) = Some f
     | Join_Returned f \<Rightarrow> \<exists>r. c_fut c f = Result r
     | Join_Raised e \<Rightarrow> e \<noteq> TimeoutError \<and> t_state (c_sub c s) = LEFT \<and>
         t_leave_task (c_sub c s) \<noteq> None
     | _ \<Rightarrow> True"
    using j by (cases q) (auto simp: being_left_def join_answerable_def awaits_join_def)
qed (rule refusal_changes_nothing)

lemma join_run_own:
  "join_run me s n q c \<Longrightarrow> join_step me s (q, c) (q', c') \<Longrightarrow> join_run me s (n + 1) q' c'"
  unfolding join_run_def by (rule interleaved.own)

lemma join_cancelled:
  assumes "join_run me s n q c" "join_waits q" "q \<noteq> Join_Called"
  shows "\<exists>n c. join_run me s n (Join_Raised CancelledError) c"
proof -
  have e: "\<exists>n c. join_run me s n (Join_Raised CancelledError) c" if "join_run me s n (Ending_Join k e) c" for n k e c
    using join_run_own [OF that join_step.cancelled] by blast
  show ?thesis
  proof (cases q)
    case (Awaiting_Ack f)
    obtain k d where "leave_channel s me (send_cancelled 0 f c) = (k, d)" by force
    then have "finish_failed_join me s CancelledError (send_cancelled 0 f c) =
        (Ending_Join k (join_channel_error s CancelledError (send_cancelled 0 f c)), d)"
      by (simp add: finish_failed_join_def)
    then show ?thesis using join_run_own [OF assms(1)] join_step.given_up [of me s f c 0] Awaiting_Ack e by metis
  next
    case (Ending_Join k x)
    then show ?thesis using assms(1) e by blast
  qed (use assms in simp_all)
qed

lemma join_returns_or_leaves_witness:
  "\<exists>n c. join_run None 1 n (Join_Raised CancelledError) c \<and> n \<le> 3 \<and> t_state (c_sub c 1) = LEFT"
proof -
  have o: "sample_opened = sample_connected
      \<lparr>c_next := 2, c_sub := (c_sub sample_connected)(1 := sample_topic)\<rparr>"
    by (simp add: sample_opened_def open_channel_def new_topic_def sample_topic_def sample_connected_def)
  have "channel_step sample_connected sample_opened"
    unfolding channel_step_def sample_opened_def by (intro disjI1 app_step.opened)
  then have "reachable sample_opened" using sample_connected_reachable reachable.step by blast
  then have r0: "join_run None 1 0 Join_Called sample_opened"
    by (simp add: join_run_def interleaved.begun join_start_def not_being_left_def o sample_topic_def
        new_subscription_def)
  obtain q c where f: "join_first None 1 sample_opened = (q, c)" by force
  have "\<exists>c1. reserve_name 1 sample_opened = Inr c1"
    by (simp add: o reserve_name_def ensure_can_send_def is_connected_def generate_ref_def Let_def
        sample_defs)
  then have w: "join_waits q" "q \<noteq> Join_Called"
    using f by (auto simp: join_first_def finish_failed_join_def split: prod.splits sum.splits)
  have "join_run None 1 (0 + 1) q c" using join_run_own [OF r0] join_step.first f by metis
  then obtain n d where "join_run None 1 n (Join_Raised CancelledError) d"
    using join_cancelled w by blast
  with join_returns_or_leaves [OF this] show ?thesis by auto
qed

end
