(* ===== verification/Channel_Pushing.thy ===== *)
theory Channel_Pushing
  imports Coroutines
begin

text \<open>
  \<open>push()\<close> as a whole (\<open>_push_channel\<close> of \<open>topic_runtime.py\<close>): the checks, the wait for the reply,
  and the end that forgets the reference, with everything the client does while it waits.
\<close>

section \<open>The call\<close>

text \<open>
  Where the call is: before its first step; waiting for the outcome of its reference; returned;
  refused without having waited; failed.
\<close>

datatype pushing =
    Push_Called
  | Awaiting_Reply pystr fid
  | Push_Returned pystr fid "reply option"
  | Push_Refused exn
  | Push_Raised pystr fid exn

fun push_waits :: "pushing \<Rightarrow> bool" where
  "push_waits Push_Called = True"
| "push_waits (Awaiting_Reply _ _) = True"
| "push_waits _ = False"

definition push_first ::
  "sid \<Rightarrow> event \<Rightarrow> pyval \<Rightarrow> pyfloat \<Rightarrow> client \<Rightarrow> pushing \<times> client" where
  "push_first s e v t c =
     (case push_begin s e v t c of
        (Inl x, c1) \<Rightarrow> (Push_Refused x, c1)
      | (Inr (ref, f), c1) \<Rightarrow> (Awaiting_Reply ref f, c1))"

definition push_answered ::
  "sid \<Rightarrow> pystr \<Rightarrow> fid \<Rightarrow> exn + reply option \<Rightarrow> client \<Rightarrow> pushing \<times> client" where
  "push_answered s ref f r c =
     (case r of Inl x \<Rightarrow> Push_Raised ref f x | Inr y \<Rightarrow> Push_Returned ref f y, push_end s ref f c)"

text \<open>
  A cancellation of the call, or of the outcome, gives up the send in the session \<open>ss\<close> that owns
  it.
\<close>

inductive push_step ::
  "sid \<Rightarrow> event \<Rightarrow> pyval \<Rightarrow> pyfloat \<Rightarrow> pushing \<times> client \<Rightarrow> pushing \<times> client \<Rightarrow> bool" for s e v t where
  first: "push_step s e v t (Push_Called, c) (push_first s e v t c)"
| answered: "await_outcome (c_fut c f) = Some r \<Longrightarrow> r \<noteq> Inl CancelledError \<Longrightarrow>
    push_step s e v t (Awaiting_Reply ref f, c) (push_answered s ref f r c)"
| cancelled: "push_step s e v t (Awaiting_Reply ref f, c)
    (push_answered s ref f (Inl CancelledError) (send_cancelled ss f c))"

fun push_left :: "pushing \<Rightarrow> nat" where
  "push_left Push_Called = 2"
| "push_left (Awaiting_Reply _ _) = 1"
| "push_left _ = 0"

definition push_start :: "sid \<Rightarrow> pushing \<Rightarrow> client \<Rightarrow> bool" where
  "push_start s q c \<longleftrightarrow> q = Push_Called \<and> s < c_next c"

definition push_run ::
  "sid \<Rightarrow> event \<Rightarrow> pyval \<Rightarrow> pyfloat \<Rightarrow> nat \<Rightarrow> pushing \<Rightarrow> client \<Rightarrow> bool" where
  "push_run s e v t = interleaved push_waits (push_step s e v t) (push_start s)"

section \<open>It is a run of the client\<close>

lemma send_cancelled_settles: "c_fut (send_cancelled ss f c) f \<noteq> Pending"
  by (simp add: send_cancelled_def Let_def fut_done_def split: option.split)

lemma push_end_run: "c_fut c f \<noteq> Pending \<Longrightarrow> run c (push_end s ref f c)"
  by (simp add: channel_step_def app_step.push_over run_step)

lemma push_step_run:
  assumes "push_step s e v t (q, c) (q', c')"
  shows "run c c'"
  using assms
proof (cases rule: push_step.cases)
  case first
  have "run c (snd (push_begin s e v t c))" by (simp add: channel_step_def app_step.pushed run_step)
  then show ?thesis using first by (auto simp: push_first_def split: prod.splits sum.splits)
next
  case (answered f r ref)
  then have "c_fut c f \<noteq> Pending" by auto
  then show ?thesis using answered(2) push_end_run by (simp add: push_answered_def)
next
  case (cancelled ref f ss)
  have "run c (send_cancelled ss f c)"
    by (simp add: channel_step_def app_step.caller_cancelled run_step)
  then show ?thesis
    using cancelled(2) run_trans [OF push_end_run [OF send_cancelled_settles]]
    by (simp add: push_answered_def)
qed

section \<open>No push is forgotten\<close>

text \<open>What holds while the call waits: its outcome is settled, or its reference is still known.\<close>

definition answerable :: "client \<Rightarrow> sid \<Rightarrow> pystr \<Rightarrow> fid \<Rightarrow> bool" where
  "answerable c s ref f \<longleftrightarrow>
     s < c_next c \<and> f < c_next c \<and> (c_fut c f = Pending \<longrightarrow> pending_push c s ref = Some f)"

lemma answerable_stays: "answerable c s ref f \<Longrightarrow> progress c c' \<Longrightarrow> answerable c' s ref f"
  unfolding answerable_def using progressD(1,3,6) [of c c'] by (metis order_less_le_trans)

lemma push_begin_answerable:
  assumes "inv c" "s < c_next c" "push_begin s e v t c = (Inr (ref, f), c')"
  shows "answerable c' s ref f"
proof -
  define c1 where "c1 = upd_topic s (with_push (str_nat (c_ref_counter c + 1)) (c_next c))
    (snd (new_future (snd (generate_ref c))))"
  have j: "t_state (c_sub c s) = JOINED"
    using assms(3) by (auto simp: push_begin_def channel_joined_def split: if_splits)
  obtain m where o: "ref = str_nat (c_ref_counter c + 1)" "f = c_next c"
    "c' = snd (send_channel_operation s m f t push_timeout c1)"
    using assms(3)
    by (auto simp: push_begin_def Let_def case_prod_beta with_push_def [symmetric] c1_def
        split: if_splits sum.splits option.splits)
  have "inv c1" unfolding c1_def using soundD(2) [OF sound_new_push [OF j] assms(1)] .
  then have "progress c1 c'" unfolding o(3) by (rule soundD(1) [OF sound_send_operation])
  moreover have "answerable c1 s ref f"
    using assms(2) by (simp add: answerable_def c1_def o(1,2) with_push_def)
  ultimately show ?thesis using answerable_stays by blast
qed

lemma push_end_forgets: "pending_push (push_end s ref f c) s ref \<noteq> Some f"
  by (auto simp: push_end_def dict_get_pop simp del: map_of_eq_Some_iff)

lemma push_end_fut [simp]: "c_fut (push_end s ref f c) = c_fut c"
  by (simp add: push_end_def)

fun push_fact :: "sid \<Rightarrow> pushing \<Rightarrow> client \<Rightarrow> bool" where
  "push_fact s (Awaiting_Reply ref f) c = answerable c s ref f"
| "push_fact s (Push_Returned ref f y) c =
     (c_fut c f = Result y \<and> pending_push c s ref \<noteq> Some f)"
| "push_fact s (Push_Raised ref f x) c =
     (c_fut c f \<noteq> Pending \<and> (x = CancelledError \<or> c_fut c f = Failed x) \<and> pending_push c s ref \<noteq> Some f)"
| "push_fact s _ c = (s < c_next c)"

lemma push_answered_fact:
  assumes "await_outcome (c_fut c f) = Some r \<or> c_fut c f \<noteq> Pending \<and> r = Inl CancelledError"
    "push_answered s ref f r c = (q, c')"
  shows "push_fact s q c' \<and> push_left q = 0"
  using assms push_end_forgets [of s ref f c]
  by (cases "c_fut c f") (auto simp: push_answered_def split: sum.splits)

lemma push_step_fact:
  assumes "push_step s e v t (q, c) (q', c')" "reachable c" "push_fact s q c"
  shows "push_fact s q' c' \<and> push_left q' < push_left q"
  using assms(1)
proof (cases rule: push_step.cases)
  case first
  obtain r c1 where b: "push_begin s e v t c = (r, c1)" by force
  have "run c c1" using push_step_run [OF assms(1)] first(2) b
    by (auto simp: push_first_def split: sum.splits)
  then have "s < c_next c1"
    using progressD(1) [OF run_progress [OF _ assms(2)]] assms(3) first(1) by fastforce
  then show ?thesis
    using first b push_begin_answerable [OF reachable_inv [OF assms(2)], of s e v t] assms(3)
    by (cases r) (auto simp: push_first_def)
next
  case (answered f r ref)
  then show ?thesis using push_answered_fact [of c f r s ref q' c'] by simp
next
  case (cancelled ref f ss)
  then show ?thesis
    using push_answered_fact [of "send_cancelled ss f c" f "Inl CancelledError" s ref q' c']
      send_cancelled_settles by simp
qed

interpretation pushing: coroutine push_waits "push_step s e v t" "push_start s"
  "\<lambda>n q c. push_fact s q c \<and> n + push_left q \<le> 2" for s e v t
proof
  show "push_fact s q c \<and> 0 + push_left q \<le> 2" if "push_start s q c" for q c
    using that by (simp add: push_start_def)
next
  show "run c c'" if "push_step s e v t (q, c) (q', c')" for q c q' c'
    using that by (rule push_step_run)
next
  show "push_fact s q' c' \<and> n + 1 + push_left q' \<le> 2"
    if "push_step s e v t (q, c) (q', c')" "reachable c" "push_fact s q c \<and> n + push_left q \<le> 2"
    for n q c q' c'
    using push_step_fact [OF that(1,2)] that(3) by fastforce
next
  fix n q c c'
  assume a: "push_waits q" "reachable c" "push_fact s q c \<and> n + push_left q \<le> 2" "run c c'"
  have p: "progress c c'" using run_progress [OF a(4,2)] .
  show "push_fact s q c' \<and> n + push_left q \<le> 2"
    using a(1,3) answerable_stays [OF _ p] progressD(1) [OF p] by (cases q) auto
qed

text \<open>A push that is refused leaves nothing behind that could be answered.\<close>

lemma refused_push_fresh:
  assumes "inv c" "s < c_next c" "push_begin s e v t c = (Inl x, c')" "pending_push c s r = Some f"
    "f < c_next c" "c_fut c' f = Pending"
  shows "pending_push c' s r = Some f"
  using progressD(6) [OF soundD(1) [OF sound_push_begin [of c s e v t] assms(1)] assms(2,5,4)] assms(3,6)
  by simp



end
