(* ===== verification/Channel_Delivery.thy ===== *)
theory Channel_Delivery
  imports Channel_Queues
begin

text \<open>
  What the processor of a channel finds in its queue: only messages for the current join of the
  channel. So its own test for messages of an earlier join never drops one, and a channel that
  stays joined loses nothing as long as its queue has room.
\<close>

section \<open>Join references\<close>

definition join_refs :: "client \<Rightarrow> sid \<Rightarrow> pystr" where
  "join_refs c s = t_join_ref (c_sub c s)"

interpretation refs_view: runtime_view join_refs
  by unfold_locales (simp_all add: join_refs_def fun_eq_iff upd_session_def)

interpretation version_view: static_view c_version
  by unfold_locales (simp_all add: upd_session_def new_topic_def)

lemma refs_enqueue [simp]: "join_refs (upd_topic s (enqueue_message n m) c) = join_refs c"
  by (simp add: join_refs_def fun_eq_iff enqueue_message_def Let_def)

interpretation refs_routing:
  frame_callbacks "\<lambda>_ c. c" "handle_channel_control me" "\<lambda>c c'. join_refs c' = join_refs c" for me
  by unfold_locales simp_all

lemma refs_process: "process_topic_message s c = Some (p, c') \<Longrightarrow> join_refs c' = join_refs c"
  by (auto simp: process_topic_message_def handle_normal_message_mode_def frame_defs join_refs_def
      fun_eq_iff split: list.splits option.splits if_splits prod.splits)

lemma refs_lost [simp]: "join_refs (report_topic_lost s e c) = join_refs c"
  by (simp add: report_topic_lost_def join_refs_def fun_eq_iff frame_defs)

lemma refs_handler: "add_event_handler (c_sub c s) e h = Inr t \<Longrightarrow> join_refs (upd_topic s (\<lambda>_. t) c) = join_refs c"
  by (auto simp: add_event_handler_def join_refs_def fun_eq_iff split: if_splits)

lemma refs_reserve:
  "reserve_name s c = Inr c' \<Longrightarrow> t_state (c_sub c s) = CREATED \<and> (\<forall>x. x \<noteq> s \<longrightarrow> join_refs c' x = join_refs c x)"
  by (auto simp: reserve_name_def ensure_can_send_def andThen_Inr_iff frame_defs join_refs_def
      split: if_splits)

lemma refs_restart:
  "join_refs (snd (rejoin_restart s g c)) x = join_refs c x \<or>
   x = s \<and> inbox (snd (rejoin_restart s g c)) x = []"
proof (cases "should_rejoin c s")
  case True
  have "inbox (snd (rejoin_restart s g c)) = inbox (restart_topic s g c)"
    "join_refs (snd (rejoin_restart s g c)) = join_refs (restart_topic s g c)"
    using True by (simp_all add: rejoin_restart_def frame_defs)
  moreover have "join_refs (restart_topic s g c) x = join_refs c x" if "x \<noteq> s"
    using that by (simp add: restart_topic_def drain_topic_queue_def start_processor_def join_refs_def frame_defs)
  ultimately show ?thesis by (cases "x = s") (simp_all add: inbox_restart)
qed (simp add: rejoin_restart_def)

lemma refs_app:
  "app_step c c' \<Longrightarrow> s < c_next c \<Longrightarrow> join_refs c' s = join_refs c s \<or> t_state (c_sub c s) = CREATED"
proof (induction rule: app_step.induct)
  case (opened c name params hook async blocks)
  then show ?case by (simp add: open_channel_def new_topic_def join_refs_def)
next
  case (reserved x c c')
  then show ?case using refs_reserve [of x c c'] by (cases "s = x") auto
qed (auto simp: refs_handler remove_event_handler_def)

lemma refs_task:
  "task_step c c' \<Longrightarrow> join_refs c' s = join_refs c s \<or> inbox c' s = []"
proof (induction rule: task_step.induct)
  case (restarted c x gen)
  then show ?case using refs_restart by blast
qed (auto simp: deliver_def andThen_Inr_iff refs_routing.route_keeps dest: refs_process)

lemma refs_step:
  assumes "channel_step c c'" "s < c_next c"
  shows "join_refs c' s = join_refs c s \<or> t_state (c_sub c s) = CREATED \<or> inbox c' s = []"
  using assms(1) refs_app [OF _ assms(2)] refs_task refs_view.send_view refs_view.connection_view
  unfolding channel_step_def by metis

section \<open>Only messages of the current join\<close>

text \<open>A message that control messages let pass leaves the client as it was.\<close>

lemma control_passes:
  assumes "handle_channel_control me s m st c = (False, c1)"
  shows "c1 = c \<and> t_state (c_sub c s) = JOINED \<and> \<not> client_lifecycle (m_event m)"
  using assms
  by (auto simp: handle_channel_control_def resolve_push_reply_def Let_def
      split: if_splits prod.splits option.splits)

definition fits :: "client \<Rightarrow> sid \<Rightarrow> message \<Rightarrow> bool" where
  "fits c s m \<longleftrightarrow> m_topic m = t_name (c_sub c s) \<and>
     \<not> is_stale_join (c_version c) m (t_join_ref (c_sub c s)) \<and> \<not> client_lifecycle (m_event m)"

lemma arrives_fits:
  assumes "arrives s m c c'" "reachable c"
  shows "s < c_next c \<and> t_state (c_sub c s) = JOINED \<and> fits c s m \<and>
    c' = upd_topic s (enqueue_message (c_max_queue c) m) c"
proof -
  obtain me st c1 where r: "dict_get (c_registry c) (m_topic m) = Some s"
    "\<not> is_stale_join (c_version c) m (t_join_ref (c_sub c s))"
    "handle_channel_control me s m st c = (False, c1)"
    "c' = upd_topic s (enqueue_message (c_max_queue c1) m) c1"
    using assms(1) by (auto simp: arrives_def route_message_def Let_def split: if_splits prod.splits bool.splits)
  have "t_name (c_sub c s) = m_topic m" "s < c_next c"
    using reachable_inv [OF assms(2)] r(1) unfolding inv_def registry_ok_def by blast+
  then show ?thesis using control_passes [OF r(3)] r(2,4) by (simp add: fits_def)
qed

definition inbox_ok :: "client \<Rightarrow> sid \<Rightarrow> bool" where
  "inbox_ok c s \<longleftrightarrow> (t_state (c_sub c s) = CREATED \<longrightarrow> inbox c s = []) \<and> (\<forall>m \<in> set (inbox c s). fits c s m)"

lemma fits_stays:
  assumes "fits c s m" "channel_step c c'" "join_refs c' s = join_refs c s" "progress c c'" "s < c_next c"
  shows "fits c' s m"
  using assms(1,3) progressD(4) [OF assms(4,5)] version_view.step_view [OF assms(2)]
  by (simp add: fits_def join_refs_def topic_progress_def)

lemma inbox_ok_step:
  assumes "inbox_ok c s" "channel_step c c'" "reachable c" "s < c_next c"
  shows "inbox_ok c' s"
proof -
  have p: "progress c c'" by (rule soundD(1) [OF sound_step [OF assms(2)] reachable_inv [OF assms(3)]])
  have created: "t_state (c_sub c' s) = CREATED \<Longrightarrow> t_state (c_sub c s) = CREATED"
    using progressD(4) [OF p assms(4)] by (simp add: topic_progress_def)
  show ?thesis
  proof (cases "\<exists>m. arrives s m c c'")
    case True
    then obtain m where m: "arrives s m c c'" by blast
    note f = arrives_fits [OF m assms(3)]
    have "join_refs c' s = join_refs c s" using f refs_enqueue by metis
    note stays = fits_stays [OF _ assms(2) this p assms(4)]
    obtain n where "inbox c' s = drop n (inbox c s) @ [m]" using arrives_inbox [OF m] by blast
    then show ?thesis
      using assms(1) f created stays in_set_dropD [of _ n "inbox c s"] by (auto simp: inbox_ok_def)
  next
    case False
    then obtain n where n: "inbox c' s = drop n (inbox c s)"
      using step_inbox [OF assms(2)] drop_self unfolding thins_def by metis
    show ?thesis
    proof (cases "inbox c' s = []")
      case False
      then have "inbox c s \<noteq> []" using n by auto
      then have "t_state (c_sub c s) \<noteq> CREATED" using assms(1) by (auto simp: inbox_ok_def)
      then have "join_refs c' s = join_refs c s" using refs_step [OF assms(2,4)] False by blast
      then show ?thesis
        using assms(1) n created fits_stays [OF _ assms(2) _ p assms(4)] in_set_dropD [of _ n "inbox c s"]
        by (auto simp: inbox_ok_def)
    qed (simp add: inbox_ok_def)
  qed
qed

lemma fresh_inbox:
  assumes "channel_step c c'" "reachable c" "\<forall>s \<ge> c_next c. inbox c s = []" "c_next c \<le> s"
  shows "inbox c' s = []"
  using step_inbox [OF assms(1)]
proof (elim disjE exE conjE)
  assume "thins c c'"
  then show ?thesis using assms(3,4) by (auto simp: thins_def) (metis drop_Nil)
next
  fix x m
  assume a: "arrives x m c c'" "\<forall>y. y \<noteq> x \<longrightarrow> inbox c' y = inbox c y"
  then show ?thesis using arrives_fits [OF a(1) assms(2)] assms(3,4) by (metis leD)
qed

lemma reachable_inbox:
  "reachable c \<Longrightarrow> (\<forall>s < c_next c. inbox_ok c s) \<and> (\<forall>s \<ge> c_next c. inbox c s = [])"
proof (induction rule: reachable.induct)
  case (new version jt lt q str)
  show ?case by (simp add: inbox_def new_client_def new_subscription_def)
next
  case (step c c')
  have n: "c_next c \<le> c_next c'"
    using progressD(1) [OF soundD(1) [OF sound_step [OF step(2)] reachable_inv [OF step(1)]]] .
  have f: "inbox c' s = []" if "c_next c \<le> s" for s
    using fresh_inbox [OF step(2,1) _ that] step.IH by blast
  have "inbox_ok c' s" for s
    using inbox_ok_step [OF _ step(2,1)] step.IH f by (cases "s < c_next c") (auto simp: inbox_ok_def)
  with f n show ?case by auto
qed

lemma queued_fits: "reachable c \<Longrightarrow> m \<in> set (t_queue (c_sub c s)) \<Longrightarrow> fits c s m"
  using reachable_inbox [of c] by (cases "s < c_next c") (auto simp: inbox_ok_def inbox_def)

text \<open>A channel with one message in its queue.\<close>

definition sample_greeted :: client where
  "sample_greeted = upd_topic 1 (enqueue_message (c_max_queue sample_listening) sample_hello) sample_listening"

lemma sample_greeted_step: "channel_step sample_listening sample_greeted"
proof -
  let ?t = "lit ''[\"1\", null, \"room\", \"hello\", {}]''"
  let ?decoded = "\<lparr>d_message = sample_hello, d_binary_reply_status = None\<rparr>"
  have custom: "system_event_of [104, 101, 108, 108, 111] = None"
    using sample_hello_custom by (simp add: lit_def)
  have dumps: "dumps (text_frame sample_hello [] V2) = Inr ?t"
    by (simp add: sample_hello_def make_message_def text_frame_def text_eval custom)
  have "text_safe sample_hello"
    by (simp add: sample_hello_def make_message_def text_safe_def or_empty_def utf8_eval custom)
  then have decode: "decode_message (\<lambda>_. Inl OverflowError) (TextFrame ?t) V2 = Inr ?decoded"
    using decode_text_frame [OF dumps]
    by (simp add: sample_hello_def make_message_def canonical_def sample_hello_custom)
  have "deliver None (\<lambda>_. Inl OverflowError) 1 (TextFrame ?t) sample_listening = Inr sample_greeted"
    using decode
    by (simp add: deliver_def sample_greeted_def route_message_def Let_def handle_channel_control_def
        sample_hello_def sample_listening_def make_message_def is_registered_def
        is_on_current_connection_def is_connected_def client_lifecycle_def is_stale_join_def
        phoenix_topic_def event_is_def sample_hello_custom str_nat_1 sample_defs)
  then show ?thesis unfolding channel_step_def by (intro disjI2 disjI1 task_step.frame)
qed

lemma sample_greeted_reachable: "reachable sample_greeted"
  using reachable.step [OF sample_listening_reachable sample_greeted_step] .

lemma sample_greeted_queue: "t_queue (c_sub sample_greeted 1) = [sample_hello]"
  by (simp add: sample_greeted_def enqueue_message_def sample_listening_def sample_defs)

text \<open>What the processor makes of the message it takes.\<close>

lemma processor_outcome:
  assumes "reachable c" and p: "process_topic_message s c = Some (p, c')"
  shows "p = (if t_restart_requested (c_sub c s) then Stop
      else if \<not> channel_joined c s then Dropped
      else (case snapshot_handlers (c_sub c s) (hd (t_queue (c_sub c s))) of
              (None, None) \<Rightarrow> No_Handler
            | (mh, eh) \<Rightarrow> Handled mh eh))"
proof -
  obtain m q where q: "t_queue (c_sub c s) = m # q"
    using p by (auto simp: process_topic_message_def split: list.splits)
  then have "\<not> is_stale_join (c_version c) m (t_join_ref (c_sub c s))"
    using queued_fits [OF assms(1), of m s] by (simp add: fits_def)
  moreover have "channel_joined (upd_topic s (\<lambda>t. t\<lparr>t_queue := x\<rparr>) c) s = channel_joined c s" for x
    by (simp add: channel_joined_def is_registered_def is_on_current_connection_def is_connected_def
        is_current_join_ready_def)
  moreover have "snapshot_handlers (t\<lparr>t_queue := x\<rparr>) m = snapshot_handlers t m" for t x
    by (simp add: snapshot_handlers_def get_event_handler_def)
  ultimately show ?thesis
    using p q
    by (auto simp: process_topic_message_def handle_normal_message_mode_def frame_defs
        split: if_splits prod.splits option.splits)
qed

text \<open>
  Claim C4: handlers see only what the current join of their channel was sent. In every reachable
  state each message in the queue of a channel carries the channel's topic, belongs to its current
  join and is no life-cycle message, whatever rejoins, losses and leaves came between its arrival
  and now. So the test with which the processor drops messages of an earlier join never finds one:
  unless a rejoin has asked it to stop, it drops the message it takes exactly when the channel is
  no longer joined, and otherwise runs the handlers registered at this moment.
\<close>

theorem only_current_messages_handled:
  assumes "reachable c"
  shows "(\<forall>m \<in> set (t_queue (c_sub c s)). m_topic m = t_name (c_sub c s) \<and>
      \<not> is_stale_join (c_version c) m (t_join_ref (c_sub c s)) \<and> \<not> client_lifecycle (m_event m)) \<and>
    (\<forall>p c'. process_topic_message s c = Some (p, c') \<longrightarrow>
      p = (if t_restart_requested (c_sub c s) then Stop
           else if \<not> channel_joined c s then Dropped
           else (case snapshot_handlers (c_sub c s) (hd (t_queue (c_sub c s))) of
                   (None, None) \<Rightarrow> No_Handler
                 | (mh, eh) \<Rightarrow> Handled mh eh)))"
  using queued_fits [OF assms] processor_outcome [OF assms] by (simp add: fits_def)

lemma only_current_messages_handled_witness:
  "t_queue (c_sub sample_greeted 1) = [sample_hello] \<and> m_topic sample_hello = t_name (c_sub sample_greeted 1)"
  using only_current_messages_handled [OF sample_greeted_reachable, of 1] sample_greeted_queue by simp

section \<open>Nothing is lost\<close>

lemma inbox_app: "app_step c c' \<Longrightarrow> s < c_next c \<Longrightarrow> inbox c' s = inbox c s"
proof (induction rule: app_step.induct)
  case (opened c name params hook async blocks)
  then show ?case by (simp add: open_channel_def new_topic_def inbox_def)
next
  case (handler_on c x e h t)
  then show ?case by (auto simp: add_event_handler_def inbox_def split: if_splits)
qed (auto simp: remove_event_handler_def dest: inbox_reserve)

lemma inbox_deliver:
  assumes "deliver me coerce gen frame c = Inr c'"
  shows "inbox c' s = inbox c s \<or> (\<exists>m. arrives s m c c')"
proof -
  obtain d r where d: "route_message (\<lambda>_ c. c) (handle_channel_control me) gen d c = (r, c')"
    using assms by (auto simp: deliver_def andThen_Inr_iff) (metis prod.collapse)
  show ?thesis
    using inbox_route [OF d] d by (auto simp: arrives_def split: if_splits)
qed

lemma inbox_task:
  "task_step c c' \<Longrightarrow> inbox c' s = inbox c s \<or> (\<exists>m. arrives s m c c') \<or>
     (\<exists>p. process_topic_message s c = Some (p, c')) \<or> (\<exists>gen. c' = snd (rejoin_restart s gen c))"
proof (induction rule: task_step.induct)
  case (frame me coerce gen frame c c')
  then show ?case using inbox_deliver by blast
next
  case (processed x c p c')
  then show ?case using inbox_process [OF processed] by (cases "x = s") auto
next
  case (restarted c x gen)
  then show ?case using inbox_rejoin_restart [of x gen c] by (cases "x = s") auto
qed auto

lemma inbox_step:
  assumes "channel_step c c'" "s < c_next c"
  shows "inbox c' s = inbox c s \<or> (\<exists>m. arrives s m c c') \<or>
     (\<exists>p. process_topic_message s c = Some (p, c')) \<or> (\<exists>gen. c' = snd (rejoin_restart s gen c))"
  using assms(1) inbox_app [OF _ assms(2)] inbox_task inbox_view.send_view inbox_view.connection_view
  unfolding channel_step_def by metis

text \<open>
  A run in which channel \<open>s\<close> is steady: whenever a message arrives its queue has room, whenever its
  processor takes one the channel is joined and no rejoin is waiting, and none restarts it. The
  messages that arrived, and those the processor has taken.
\<close>

inductive steady :: "sid \<Rightarrow> message list \<Rightarrow> message list \<Rightarrow> client \<Rightarrow> bool" for s where
  opened: "reachable c \<Longrightarrow> s < c_next c \<Longrightarrow> t_queue (c_sub c s) = [] \<Longrightarrow> steady s [] [] c"
| routed: "steady s A H c \<Longrightarrow> channel_step c c' \<Longrightarrow> arrives s m c c' \<Longrightarrow>
    \<not> queue_full (c_max_queue c) (t_queue (c_sub c s)) \<Longrightarrow> steady s (A @ [m]) H c'"
| taken: "steady s A H c \<Longrightarrow> channel_joined c s \<Longrightarrow> \<not> t_restart_requested (c_sub c s) \<Longrightarrow>
    process_topic_message s c = Some (p, c') \<Longrightarrow> steady s A (H @ [hd (t_queue (c_sub c s))]) c'"
| other: "steady s A H c \<Longrightarrow> channel_step c c' \<Longrightarrow> (\<And>m. \<not> arrives s m c c') \<Longrightarrow>
    (\<And>p. process_topic_message s c \<noteq> Some (p, c')) \<Longrightarrow> (\<And>gen. c' \<noteq> snd (rejoin_restart s gen c)) \<Longrightarrow>
    steady s A H c'"

lemma steady_delivery: "steady s A H c \<Longrightarrow> reachable c \<and> s < c_next c \<and> H @ t_queue (c_sub c s) = A"
proof (induction rule: steady.induct)
  case (routed A H c c' m)
  then have "reachable c'" using run_reachable [OF run_step] by blast
  then show ?case
    using routed arrives_fits [OF routed(3)] by (auto simp: enqueue_message_def Let_def)
next
  case (taken A H c p c')
  have "channel_step c c'" using taken(4) by (auto simp: channel_step_def intro: task_step.processed)
  then have "reachable c'" "c_next c \<le> c_next c'"
    using taken.IH run_reachable [OF run_step] progressD(1) [OF run_progress [OF run_step]] by blast+
  then show ?case using taken.IH inbox_process [OF taken(4)] by (auto simp: inbox_def fun_eq_iff)
next
  case (other A H c c')
  then have "reachable c'" "c_next c \<le> c_next c'"
    using run_reachable [OF run_step] progressD(1) [OF run_progress [OF run_step]] by blast+
  moreover have "inbox c' s = inbox c s" using inbox_step [OF other(2)] other(3-5) other.IH by blast
  ultimately show ?case using other.IH by (simp add: inbox_def)
qed simp

text \<open>
  Claim C3: a steady channel loses nothing. As long as its queue has room, the channel is joined
  when its processor takes a message and it is not restarted, every message that arrived for the
  channel was taken by its processor, in the order of arrival and once, or still waits in the
  queue; and a message that is taken meets the handlers that are registered for it at that moment.
\<close>

theorem steady_channel_loses_nothing:
  assumes "steady s A H c"
  shows "H @ t_queue (c_sub c s) = A \<and>
    (\<forall>m q. t_queue (c_sub c s) = m # q \<and> channel_joined c s \<and> \<not> t_restart_requested (c_sub c s) \<longrightarrow>
       (\<exists>p c'. process_topic_message s c = Some (p, c') \<and> steady s A (H @ [m]) c' \<and>
          p = (case snapshot_handlers (c_sub c s) m of
                 (None, None) \<Rightarrow> No_Handler
               | (mh, eh) \<Rightarrow> Handled mh eh)))"
proof (intro conjI allI impI)
  note d = steady_delivery [OF assms]
  show "H @ t_queue (c_sub c s) = A" using d by blast
  fix m q
  assume a: "t_queue (c_sub c s) = m # q \<and> channel_joined c s \<and> \<not> t_restart_requested (c_sub c s)"
  then have "process_topic_message s c \<noteq> None" by (simp add: process_topic_message_def Let_def)
  then obtain p c' where p: "process_topic_message s c = Some (p, c')" by auto
  have "steady s A (H @ [m]) c'" using steady.taken [OF assms _ _ p] a by simp
  moreover have "p = (case snapshot_handlers (c_sub c s) m of
      (None, None) \<Rightarrow> No_Handler | (mh, eh) \<Rightarrow> Handled mh eh)"
    using processor_outcome [OF _ p] d a by simp
  ultimately show "\<exists>p c'. process_topic_message s c = Some (p, c') \<and> steady s A (H @ [m]) c' \<and>
      p = (case snapshot_handlers (c_sub c s) m of
             (None, None) \<Rightarrow> No_Handler | (mh, eh) \<Rightarrow> Handled mh eh)"
    using p by blast
qed

lemma steady_channel_loses_nothing_witness:
  "\<exists>H c. steady 1 [sample_hello] H c \<and> H = [sample_hello] \<and> t_queue (c_sub c 1) = []"
proof -
  have s0: "steady 1 [] [] sample_listening"
    by (rule steady.opened [OF sample_listening_reachable]) (simp_all add: sample_listening_def sample_defs)
  have "steady 1 ([] @ [sample_hello]) [] sample_greeted"
    by (rule steady.routed [OF s0 sample_greeted_step])
      (use sample_hello_arrives in \<open>simp_all add: sample_greeted_def sample_listening_def queue_full_def sample_defs\<close>)
  then have s1: "steady 1 [sample_hello] [] sample_greeted" by simp
  have "channel_joined sample_greeted 1" "\<not> t_restart_requested (c_sub sample_greeted 1)"
    by (simp_all add: sample_greeted_def enqueue_message_def sample_listening_def channel_joined_def
        is_registered_def is_on_current_connection_def is_connected_def is_current_join_ready_def
        join_future_def Let_def sample_defs)
  then obtain p c where "steady 1 [sample_hello] ([] @ [sample_hello]) c"
    using steady_channel_loses_nothing [OF s1] sample_greeted_queue by blast
  then have s2: "steady 1 [sample_hello] [sample_hello] c" by simp
  then have "t_queue (c_sub c 1) = []" using steady_channel_loses_nothing [OF s2] by simp
  with s2 show ?thesis by blast
qed

end
