(* ===== verification/Channel_Wire.thy ===== *)
theory Channel_Wire
  imports Channel_Calm
begin

text \<open>
  What the client writes to its connections. Two steps write: the first step of a send task, and a
  heartbeat. So whatever is on the wire was allowed when it was written.
\<close>

section \<open>Who writes\<close>

interpretation wire_runtime: flagless_view c_sent
  by unfold_locales (simp_all add: upd_session_def)

interpretation wire_channels: topic_blind_view c_sent
  by unfold_locales (simp_all add: upd_session_def new_topic_def)

definition heartbeat_frame :: "protocol_version \<Rightarrow> ws_frame \<Rightarrow> bool" where
  "heartbeat_frame version fr \<longleftrightarrow> (\<exists>m. is_heartbeat m \<and> encode_message m version = Inr fr)"

text \<open>A request that may go out on connection \<open>conn\<close>, as its send task finds the client.\<close>

definition may_send :: "client \<Rightarrow> cid \<Rightarrow> send_request \<Rightarrow> bool" where
  "may_send c conn q \<longleftrightarrow>
     (\<exists>k ss f. k_work (c_task c k) = Send_Frame ss f q \<and> \<not> task_done c k \<and> c_fut c f = Pending) \<and>
     q_connection q = conn \<and> c_connection c = Some conn \<and>
     is_registered c (q_topic q) \<and> q_join_ref q = Some (t_join_ref (c_sub c (q_topic q))) \<and>
     (\<not> q_leaving q \<longrightarrow> t_state (c_sub c (q_topic q)) \<noteq> LEFT \<and> \<not> c_shutdown c) \<and>
     (\<not> q_leaving q \<and> \<not> q_joining q \<longrightarrow> channel_joined c (q_topic q))"

definition written :: "client \<Rightarrow> cid \<times> ws_frame \<Rightarrow> bool" where
  "written c x \<longleftrightarrow> (case x of (conn, fr) \<Rightarrow>
     heartbeat_frame (c_version c) fr \<or> (\<exists>q. q_frame q = fr \<and> may_send c conn q))"

lemma wire_send: "send_step c c' \<Longrightarrow> c_sent c' = c_sent c \<or> (\<exists>x. c_sent c' = c_sent c @ [x] \<and> written c x)"
proof (induction rule: send_step.induct)
  case (started c k ss f q)
  note s = send_goes_out_iff_current [where ss = ss and f = f and q = q and c = c]
  show ?case
  proof (cases "fst (run_send ss f q c)")
    case True
    then have "may_send c (q_connection q) q"
      using s started by (fastforce simp: may_send_def eligible_def case_prod_beta)
    then show ?thesis using s True by (auto simp: written_def case_prod_beta)
  next
    case False
    then show ?thesis using s by (simp add: case_prod_beta)
  qed
qed simp_all

lemma written_cases:
  "written d (conn, fr) \<Longrightarrow>
       (\<exists>m. is_heartbeat m \<and> encode_message m (c_version d) = Inr fr) \<or>
        (\<exists>q k ss f. k_work (c_task d k) = Send_Frame ss f q \<and> \<not> task_done d k \<and> c_fut d f = Pending \<and>
           q_frame q = fr \<and> q_connection q = conn \<and> c_connection d = Some conn \<and>
           is_registered d (q_topic q) \<and> q_join_ref q = Some (t_join_ref (c_sub d (q_topic q))) \<and>
           (\<not> q_leaving q \<longrightarrow> t_state (c_sub d (q_topic q)) \<noteq> LEFT \<and> \<not> c_shutdown d) \<and>
           (\<not> q_leaving q \<and> \<not> q_joining q \<longrightarrow> channel_joined d (q_topic q)))"
  unfolding written_def heartbeat_frame_def may_send_def by (simp only: prod.case) blast

lemma wire_connection:
  "connection_step c c' \<Longrightarrow> c_sent c' = c_sent c \<or> (\<exists>x. c_sent c' = c_sent c @ [x] \<and> written c x)"
proof (induction rule: connection_step.induct)
  case (heartbeat m conn c c')
  then show ?case
    by (auto simp: send_message_def andThen_Inr_iff written_def heartbeat_frame_def)
qed (auto simp: shutdown_end_def dest: wire_runtime.state_view wire_runtime.exit_view wire_runtime.enter_view)

lemma wire_step:
  "channel_step c c' \<Longrightarrow> c_sent c' = c_sent c \<or> (\<exists>x. c_sent c' = c_sent c @ [x] \<and> written c x)"
  unfolding channel_step_def
  using wire_send wire_connection wire_channels.app_view wire_channels.task_view by blast

text \<open>
  Claim C11: whatever is written was allowed when it was written. Over any run the client only adds
  to what it has written, and each frame it adds is a heartbeat, or the frame of a send task that was
  current at that moment of the run: its caller still waited, on the connection of that moment, for
  a registered channel and under the channel's join of that moment; unless it leaves the channel, the channel was not
  left and no shutdown had begun; and unless it joins or leaves, the channel was joined.
\<close>

theorem written_when_allowed:
  assumes "run c c'"
  shows "\<exists>frs. c_sent c' = c_sent c @ frs \<and>
    (\<forall>(conn, fr) \<in> set frs. \<exists>d. run c d \<and> run d c' \<and>
       ((\<exists>m. is_heartbeat m \<and> encode_message m (c_version d) = Inr fr) \<or>
        (\<exists>q k ss f. k_work (c_task d k) = Send_Frame ss f q \<and> \<not> task_done d k \<and> c_fut d f = Pending \<and>
           q_frame q = fr \<and> q_connection q = conn \<and> c_connection d = Some conn \<and>
           is_registered d (q_topic q) \<and> q_join_ref q = Some (t_join_ref (c_sub d (q_topic q))) \<and>
           (\<not> q_leaving q \<longrightarrow> t_state (c_sub d (q_topic q)) \<noteq> LEFT \<and> \<not> c_shutdown d) \<and>
           (\<not> q_leaving q \<and> \<not> q_joining q \<longrightarrow> channel_joined d (q_topic q)))))"
proof -
  have "\<exists>frs. c_sent c' = c_sent c @ frs \<and> (\<forall>x \<in> set frs. \<exists>d. run c d \<and> run d c' \<and> written d x)"
    using assms
  proof (induction rule: run.induct)
    case (go c c' c'')
    then obtain frs where f: "c_sent c' = c_sent c @ frs"
      "\<forall>x \<in> set frs. \<exists>d. run c d \<and> run d c' \<and> written d x" by blast
    then have old: "\<forall>x \<in> set frs. \<exists>d. run c d \<and> run d c'' \<and> written d x" using run.go go(2) by blast
    from wire_step [OF go(2)] show ?case
    proof
      assume "c_sent c'' = c_sent c'"
      then show ?thesis using f(1) old by simp
    next
      assume "\<exists>x. c_sent c'' = c_sent c' @ [x] \<and> written c' x"
      then obtain x where x: "c_sent c'' = c_sent c' @ [x]" "written c' x" by blast
      then have "c_sent c'' = c_sent c @ (frs @ [x])" using f(1) by simp
      moreover have "\<forall>y \<in> set (frs @ [x]). \<exists>d. run c d \<and> run d c'' \<and> written d y"
        using old x(2) go(1) run_step [OF go(2)] by auto
      ultimately show ?thesis by blast
    qed
  qed simp
  then obtain frs where f: "c_sent c' = c_sent c @ frs"
    "\<forall>x \<in> set frs. \<exists>d. run c d \<and> run d c' \<and> written d x" by blast
  show ?thesis
  proof (rule exI [of _ frs], intro conjI ballI, rule f(1), clarify)
    fix conn fr
    assume "(conn, fr) \<in> set frs"
    then obtain d where "run c d" "run d c'" "written d (conn, fr)" using f(2) by blast
    then show "\<exists>d. run c d \<and> run d c' \<and>
       ((\<exists>m. is_heartbeat m \<and> encode_message m (c_version d) = Inr fr) \<or>
        (\<exists>q k ss f. k_work (c_task d k) = Send_Frame ss f q \<and> \<not> task_done d k \<and> c_fut d f = Pending \<and>
           q_frame q = fr \<and> q_connection q = conn \<and> c_connection d = Some conn \<and>
           is_registered d (q_topic q) \<and> q_join_ref q = Some (t_join_ref (c_sub d (q_topic q))) \<and>
           (\<not> q_leaving q \<longrightarrow> t_state (c_sub d (q_topic q)) \<noteq> LEFT \<and> \<not> c_shutdown d) \<and>
           (\<not> q_leaving q \<and> \<not> q_joining q \<longrightarrow> channel_joined d (q_topic q))))"
      using written_cases by blast
  qed
qed

lemma written_when_allowed_witness:
  "\<exists>c' x. run sample_pushed c' \<and> c_sent c' = [x] \<and> (\<exists>d. run sample_pushed d \<and> run d c')"
proof -
  obtain k ss q where q: "k_work (c_task sample_pushed k) = Send_Frame ss 3 q" "\<not> task_done sample_pushed k"
    "live_session sample_pushed ss" "eligible q sample_pushed"
    using sample_pushed_facts(6) by blast
  define c' where "c' = snd (run_send ss 3 q sample_pushed)"
  have "c_sent sample_pushed = []"
    using wire_runtime.push_begin by (simp add: sample_pushed_def sample_joined_facts)
  then have s: "c_sent c' = [(q_connection q, q_frame q)]"
    using send_goes_out_iff_current [where ss = ss and f = 3 and q = q and c = sample_pushed]
      q(3,4) sample_pushed_facts(4)
    by (simp add: c'_def case_prod_beta live_session_def)
  have "run sample_pushed c'"
    using send_step.started [OF q(1,2)] by (simp add: c'_def channel_step_def run_step)
  from written_when_allowed [OF this] s this show ?thesis by (auto simp: \<open>c_sent sample_pushed = []\<close>)
qed

end
