(* ===== verification/Supervisor_Runs.thy ===== *)
theory Supervisor_Runs
  imports Supervisor
begin

text \<open>
  The runs of the supervised client: where \<open>_supervisor_loop\<close> waits, one step for each segment
  between two waits, and in between any step of the channel runtime, of the heartbeats, of the
  application and of a shutdown. The supervisor's runs project to runs of the channel runtime, so
  what is proved of those holds here as well.
\<close>

section \<open>Where the supervisor waits\<close>

datatype place =
    Idle
  | Starting
  | Handshake
  | Pausing pyfloat
  | Rejecting "cid option" "ssid option"
  | Rejoining_Topics nat
  | Notifying_Reconnect nat
  | Routing nat
  | Closing close_details "exn option" "cid option" "ssid option"
  | Notifying_Disconnect close_details
  | Ended "exn option"

fun supervising :: "place \<Rightarrow> bool" where
  "supervising Idle = False"
| "supervising (Ended _) = False"
| "supervising _ = True"

text \<open>Leaving the loop, by \<open>break\<close> or by an error: the \<open>finally\<close> runs, and its error wins.\<close>

definition leave_loop :: "tid option \<Rightarrow> exn option \<Rightarrow> supervisor \<Rightarrow> place \<times> supervisor" where
  "leave_loop me error v =
     (case settle_supervisor_exit me v of
        (Inl e, v1) \<Rightarrow> (Ended (Some e), v1)
      | (Inr _, v1) \<Rightarrow> (Ended error, v1))"

text \<open>The head of the loop, up to the wait for the handshake.\<close>

definition loop_head :: "tid option \<Rightarrow> outcome \<Rightarrow> supervisor \<Rightarrow> place \<times> supervisor" where
  "loop_head me out v =
     (if c_shutdown (v_client v) then leave_loop me None v
      else (case gate Connecting out v of
              (Inl e, v1) \<Rightarrow> leave_loop me (Some e) v1
            | (Inr True, v1) \<Rightarrow> (Handshake, v1)
            | (Inr False, v1) \<Rightarrow> leave_loop me None v1))"

text \<open>What follows a decision: wait for its delay, or leave the loop.\<close>

definition pause :: "tid option \<Rightarrow> (exn + decision option) \<times> supervisor \<Rightarrow> place \<times> supervisor" where
  "pause me r =
     (case r of
        (Inl e, v) \<Rightarrow> leave_loop me (Some e) v
      | (Inr None, v) \<Rightarrow> leave_loop me None v
      | (Inr (Some d), v) \<Rightarrow> (Pausing (delay_s d), v))"

definition connect_failed ::
  "tid option \<Rightarrow> (pystr \<Rightarrow> pystr) \<Rightarrow> exn \<Rightarrow> outcome \<Rightarrow> supervisor \<Rightarrow> place \<times> supervisor" where
  "connect_failed me redact exc out v = pause me (retry_after_connect_failure redact exc out v)"

text \<open>The handshake succeeded. The connection object is the next number.\<close>

definition connect_returned ::
  "tid option \<Rightarrow> outcome \<Rightarrow> real \<Rightarrow> supervisor \<Rightarrow> place \<times> supervisor" where
  "connect_returned me out now v =
     (let conn = c_next (v_client v)
      in case adopt_connection me out now v of
           (Inl e, v1) \<Rightarrow> leave_loop me (Some e) v1
         | (Inr Stop_Won, v1) \<Rightarrow> leave_loop me None v1
         | (Inr Refused_Connection, v1) \<Rightarrow> (Rejecting (Some conn) (c_send_session (v_client v)), v1)
         | (Inr Adopted, v1) \<Rightarrow>
             (Rejoining_Topics (c_generation (v_client v1)), start_session conn v1))"

definition topics_rejoined :: "nat \<Rightarrow> supervisor \<Rightarrow> place \<times> supervisor" where
  "topics_rejoined generation v =
     (case session_started generation v of
        (True, v1) \<Rightarrow> (Notifying_Reconnect generation, v1)
      | (False, v1) \<Rightarrow> (Routing generation, v1))"

definition routing_ended ::
  "tid option \<Rightarrow> int option \<Rightarrow> pystr option \<Rightarrow> exn option \<Rightarrow> supervisor \<Rightarrow> place \<times> supervisor" where
  "routing_ended me code reason result v =
     (case await_routing result of
        Inl e \<Rightarrow> leave_loop me (Some e) v
      | Inr routing_error \<Rightarrow>
          (case end_session me code reason routing_error v of
             (close, v1) \<Rightarrow>
               (Closing close routing_error (c_connection (v_client v)) (c_send_session (v_client v)),
                v1)))"

definition decided :: "tid option \<Rightarrow> close_details \<Rightarrow> outcome \<Rightarrow> supervisor \<Rightarrow> place \<times> supervisor" where
  "decided me close out v = pause me (reconnecting (decide_reconnect close out v))"

definition connection_cleaned ::
  "tid option \<Rightarrow> close_details \<Rightarrow> exn option \<Rightarrow> cid option \<Rightarrow> ssid option \<Rightarrow> outcome \<Rightarrow> supervisor \<Rightarrow>
   place \<times> supervisor" where
  "connection_cleaned me close routing_error conn session out v =
     (let v1 = supervisor_cleanup_end conn session v
      in if v_on_disconnect v1
         then (Notifying_Disconnect close, call_back (On_Disconnect routing_error) v1)
         else decided me close out v1)"

section \<open>Steps\<close>

text \<open>
  A cancelled supervisor. A cleanup that is under way still runs to its end when the cancellation
  lands in its wait for the tasks (\<open>settles\<close>). When it lands in the wait for the close or for the
  sends - \<open>_close_websocket\<close> aborts the transport and raises again -, the rest of the cleanup is
  skipped: the session stays with the client and the topics are not settled. The supervisor's first
  step is scheduled before any cancellation of its task can be, so it is never cancelled there.
\<close>

definition cleanup_cancelled ::
  "bool \<Rightarrow> cid option \<Rightarrow> ssid option \<Rightarrow> supervisor \<Rightarrow> supervisor" where
  "cleanup_cancelled settles conn session v =
     (if settles then supervisor_cleanup_end conn session v else v)"

fun interrupted :: "tid option \<Rightarrow> bool \<Rightarrow> place \<Rightarrow> supervisor \<Rightarrow> place \<times> supervisor" where
  "interrupted me settles (Rejecting conn session) v =
     leave_loop me (Some CancelledError) (cleanup_cancelled settles conn session v)"
| "interrupted me settles (Closing _ _ conn session) v =
     leave_loop me (Some CancelledError) (cleanup_cancelled settles conn session v)"
| "interrupted me settles _ v = leave_loop me (Some CancelledError) v"

inductive loop_step :: "place \<times> supervisor \<Rightarrow> place \<times> supervisor \<Rightarrow> bool" where
  began: "enter v = Inr v1 \<Longrightarrow> \<not> supervising p \<Longrightarrow> loop_step (p, v) (Starting, v1)"
| first: "loop_step (Starting, v) (loop_head me out v)"
| paused: "loop_step (Pausing d, v) (loop_head me out v)"
| failed: "loop_step (Handshake, v) (connect_failed me redact exc out v)"
| connected: "loop_step (Handshake, v) (connect_returned me out now v)"
| rejected: "loop_step (Rejecting conn session, v) (leave_loop me None (supervisor_cleanup_end conn session v))"
| rejoined: "loop_step (Rejoining_Topics g, v) (topics_rejoined g v)"
| notified: "loop_step (Notifying_Reconnect g, v) (Routing g, v)"
| routed: "loop_step (Routing g, v) (routing_ended me code reason err v)"
| closed: "loop_step (Closing close err conn session, v)
    (connection_cleaned me close err conn session out v)"
| reported: "loop_step (Notifying_Disconnect close, v) (decided me close out v)"
| cancelled: "supervising p \<Longrightarrow> p \<noteq> Starting \<Longrightarrow> loop_step (p, v) (interrupted me settles p v)"

inductive other_step :: "place \<Rightarrow> supervisor \<Rightarrow> supervisor \<Rightarrow> bool" where
  channels: "app_step (v_client v) c \<or> send_step (v_client v) c \<or> task_step (v_client v) c \<Longrightarrow>
    other_step p v (v\<lparr>v_client := c\<rparr>)"
| answered: "other_step p v (handle_heartbeat_response now m v)"
| beating: "other_step p v (snd (send_heartbeat conn v))"
| beat_started: "other_step p v (heartbeat_loop_begin d v)"
| beat_ended: "other_step p v (snd (heartbeat_loop_end how v))"
| deadline_passed: "v_timer v = Some w \<Longrightarrow> other_step p v (v\<lparr>v_timer := Some (w\<lparr>w_expired := True\<rparr>)\<rparr>)"
| forced: "other_step p v (snd (close_connection is_open reason v))"
| joins_failed: "other_step p v (routing_stopped me conn task b v)"
| stopping: "other_step p v (snd (shutdown me v))"
| supervisor_stopped: "other_step p v (stop_supervisor v)"
| cancelling: "other_step p v (upd_client (request_cancel k) v)"
| cleaning: "c_shutdown (v_client v) \<Longrightarrow> \<not> supervising p \<Longrightarrow> other_step p v (supervisor_cleanup_begin me v)"
| cleaned: "c_shutdown (v_client v) \<Longrightarrow> \<not> supervising p \<Longrightarrow> other_step p v (supervisor_cleanup_end conn session v)"
| leaving: "other_step p v (unsubscribe_all v)"
| stopped: "c_shutdown (v_client v) \<Longrightarrow> \<not> supervising p \<Longrightarrow> other_step p v (snd (shutdown_finish v))"

text \<open>A client as its constructor leaves it.\<close>

definition fresh :: "supervisor \<Rightarrow> bool" where
  "fresh v \<longleftrightarrow>
     (\<exists>version jt lt q str. v_client v = new_client version jt lt q str) \<and> v_initial v = None \<and>
     v_terminal v = None \<and> \<not> v_connected v \<and> v_timer v = None \<and> v_heartbeat_task v = None \<and>
     v_routing_task v = None \<and> v_supervisor_task v = None \<and> v_shutdown_task v = None \<and>
     v_pending_ref v = None \<and> \<not> v_forced_close v \<and> v_deadline v = None"

inductive supervised :: "place \<times> supervisor \<Rightarrow> bool" where
  fresh: "fresh v \<Longrightarrow> supervised (Idle, v)"
| loop: "supervised x \<Longrightarrow> loop_step x y \<Longrightarrow> supervised y"
| other: "supervised (p, v) \<Longrightarrow> other_step p v v' \<Longrightarrow> supervised (p, v')"

end
