(* ===== verification/Supervisor_Properties.thy ===== *)
theory Supervisor_Properties
  imports Supervisor_Runs
begin

text \<open>
  What holds in every run of the supervised client: no state transition the supervisor makes is
  ever refused, nobody waits for a first connection that will not come, and every run is a run of
  the channel runtime.
\<close>

section \<open>The invariant\<close>

fun in_session :: "place \<Rightarrow> bool" where
  "in_session (Rejoining_Topics _) = True"
| "in_session (Notifying_Reconnect _) = True"
| "in_session (Routing _) = True"
| "in_session _ = False"

lemma in_session_supervising: "in_session p \<Longrightarrow> supervising p"
  by (cases p) simp_all

definition running_state :: "client_state \<Rightarrow> bool" where
  "running_state st \<longleftrightarrow> st \<in> {CONNECTING, CONNECTED, RECONNECTING}"

definition client_ok :: "place \<Rightarrow> bool \<times> client_state \<Rightarrow> bool" where
  "client_ok p x \<longleftrightarrow>
     (case x of (stop, st) \<Rightarrow>
        (supervising p \<longrightarrow> stop \<or> running_state st) \<and>
        (\<not> supervising p \<longrightarrow> st \<in> {CLOSED, SHUTTING_DOWN}) \<and> (st = SHUTTING_DOWN \<longrightarrow> stop))"

definition waits_ok :: "place \<Rightarrow> supervisor \<Rightarrow> bool" where
  "waits_ok p v \<longleftrightarrow>
     (v_initial v = Some Pending \<longrightarrow> supervising p \<and> v_terminal v = None) \<and>
     (v_connected v \<longrightarrow> in_session p)"

definition healthy :: "place \<times> supervisor \<Rightarrow> bool" where
  "healthy x \<longleftrightarrow>
     (case x of (p, v) \<Rightarrow> client_ok p (flags (v_client v)) \<and> waits_ok p v \<and>
        (\<forall>e. p = Ended (Some e) \<longrightarrow> e = CancelledError))"

lemma settle_initial_sel [simp]:
  "v_client (settle_initial_connection e v) = v_client v"
  "v_connected (settle_initial_connection e v) = v_connected v"
  "v_initial (settle_initial_connection e v) \<noteq> Some Pending"
  "v_terminal (settle_initial_connection e v) = v_terminal v"
  "v_auto_reconnect (settle_initial_connection e v) = v_auto_reconnect v"
  by (auto simp: settle_initial_connection_def split: option.split)

lemma healthy_leave:
  assumes "c_state (v_client v) = SHUTTING_DOWN \<longrightarrow> c_shutdown (v_client v)"
    and "error = None \<or> error = Some CancelledError"
  shows "healthy (leave_loop me error v)"
proof -
  obtain c where "retire_at_exit me (v_client v) = Inr c"
    "flags c = (c_shutdown (v_client v), if c_state (v_client v) = SHUTTING_DOWN then SHUTTING_DOWN else CLOSED)"
    using flags_exit by blast
  then show ?thesis
    using assms
    by (auto simp: leave_loop_def settle_supervisor_exit_def healthy_def client_ok_def waits_ok_def)
qed

text \<open>Asking the decider changes at most the terminal error and the first wait.\<close>

lemma proceeds_effect:
  assumes "proceeds event out v = (r, v1)"
  shows "v_client v1 = v_client v" "v_connected v1 = v_connected v"
    "v_auto_reconnect v1 = v_auto_reconnect v"
    "v_initial v1 = Some Pending \<Longrightarrow> v_initial v = Some Pending \<and> v_terminal v1 = v_terminal v"
    "r = Inl e \<Longrightarrow> e = CancelledError"
    "v_terminal v1 = v_terminal v \<or> r = Inr None"
  using assms
  by (auto simp: proceeds_def record_terminal_error_def decide_def decider_failure_eq is_exception_def
      split: sum.splits if_splits option.splits outcome.splits)

lemma gate_effect:
  assumes "gate event out v = (r, v1)"
  shows "v_client v1 = v_client v" "v_connected v1 = v_connected v"
    "v_initial v1 = Some Pending \<Longrightarrow> v_initial v = Some Pending \<and> v_terminal v1 = v_terminal v"
    "r = Inl e \<Longrightarrow> e = CancelledError"
  using assms
  by (auto simp: gate_def split: if_splits prod.splits sum.splits dest: proceeds_effect)

section \<open>Every segment keeps the invariant\<close>

lemma healthy_between:
  "supervising p \<Longrightarrow> \<not> in_session p \<Longrightarrow> healthy (p, v) \<longleftrightarrow> healthy (Handshake, v)"
  by (cases p) (auto simp: healthy_def client_ok_def waits_ok_def)

lemma healthy_leave_from:
  "healthy (p, v) \<Longrightarrow> error = None \<or> error = Some CancelledError \<Longrightarrow> healthy (leave_loop me error v)"
  by (rule healthy_leave) (auto simp: healthy_def client_ok_def flags_def)

lemma healthy_changed:
  assumes "healthy (Handshake, v)" "flags (v_client v1) = flags (v_client v)" "v_connected v1 = v_connected v"
    and "v_initial v1 = Some Pending \<Longrightarrow> v_initial v = Some Pending \<and> v_terminal v1 = v_terminal v"
  shows "healthy (Handshake, v1)"
  using assms by (auto simp: healthy_def waits_ok_def)

lemma healthy_proceeds:
  "healthy (Handshake, v) \<Longrightarrow> proceeds event out v = (r, v1) \<Longrightarrow> healthy (Handshake, v1)"
  using proceeds_effect [of event out v r v1] by (intro healthy_changed [of v v1]) auto

lemma healthy_gate:
  "healthy (Handshake, v) \<Longrightarrow> gate event out v = (r, v1) \<Longrightarrow> healthy (Handshake, v1)"
  using gate_effect [of event out v r v1] by (intro healthy_changed [of v v1]) auto

lemma healthy_loop_head:
  assumes "healthy (Handshake, v)"
  shows "healthy (loop_head me out v)"
proof -
  obtain r v1 where g: "gate Connecting out v = (r, v1)" by force
  note h = healthy_gate [OF assms g]
  show ?thesis
    using healthy_leave_from [OF assms] healthy_leave_from [OF h] h gate_effect(4) [OF g] g
    by (auto simp: loop_head_def split: sum.split bool.split)
qed

lemma healthy_pause:
  assumes "healthy (Handshake, v)" "\<And>e. r = Inl e \<Longrightarrow> e = CancelledError"
  shows "healthy (pause me (r, v))"
  using assms healthy_leave_from [OF assms(1)] healthy_between [of "Pausing x" v for x]
  by (auto simp: pause_def split: sum.split option.split)

lemma to_reconnecting:
  "running_state (c_state c) \<Longrightarrow> transition_state RECONNECTING c = Inr (c\<lparr>c_state := RECONNECTING\<rparr>)"
  "running_state (c_state c) \<Longrightarrow> c_state c \<noteq> CONNECTED \<Longrightarrow>
    transition_state CONNECTED c = Inr (c\<lparr>c_state := CONNECTED\<rparr>)"
  "c_state c = CONNECTED \<Longrightarrow> transition_state CONNECTED c = Inr c"
  by (auto simp: running_state_def transition_state_def transition_client_state_def)

lemma healthy_reconnecting:
  assumes "healthy (Handshake, v)" "\<And>e. r = Inl e \<Longrightarrow> e = CancelledError"
    and "\<not> c_shutdown (v_client v) \<or> r = Inr None" "reconnecting (r, v) = (r1, v1)"
  shows "healthy (Handshake, v1)" "r1 = Inl e \<Longrightarrow> e = CancelledError"
proof -
  have "running_state (c_state (v_client v))" if "\<not> c_shutdown (v_client v)"
    using assms(1) that by (simp add: healthy_def client_ok_def flags_def)
  then show "healthy (Handshake, v1)" "r1 = Inl e \<Longrightarrow> e = CancelledError"
    using assms to_reconnecting(1) [of "v_client v"]
    by (auto simp: reconnecting_def transition_to_def healthy_def client_ok_def waits_ok_def flags_def
        running_state_def split: sum.splits option.splits)
qed

lemma healthy_connect_failed:
  assumes "healthy (Handshake, v)"
  shows "healthy (connect_failed me redact exc out v)"
proof -
  obtain r v1 where p: "proceeds (ConnectFailed exc) out v = (r, v1)" by force
  obtain r2 v2 where q: "reconnecting (r, v1) = (r2, v2)" by force
  have c: "\<not> c_shutdown (v_client v) \<Longrightarrow> \<not> c_shutdown (v_client v1) \<or> r = Inr None"
    using proceeds_effect(1) [OF p] by simp
  have "\<not> c_shutdown (v_client v) \<Longrightarrow> healthy (pause me (r2, v2))"
    using healthy_reconnecting [OF healthy_proceeds [OF assms p] proceeds_effect(5) [OF p] c q]
    by (intro healthy_pause)
  moreover have "healthy (Handshake, settle_initial_connection x v)" for x
    using assms by (rule healthy_changed) simp_all
  ultimately show ?thesis
    using p q assms by (auto simp: connect_failed_def retry_after_connect_failure_def intro!: healthy_pause)
qed

lemma decided_healthy:
  assumes "healthy (Handshake, v)"
  shows "healthy (decided me close out v)"
proof (cases "c_shutdown (v_client v) \<or> \<not> v_auto_reconnect v")
  case True
  then show ?thesis
    using healthy_pause [OF assms, of "Inr None"]
    by (simp add: decided_def decide_reconnect_def reconnecting_def)
next
  case False
  obtain r v1 where p: "proceeds (disconnect_event close) out v = (r, v1)" by force
  obtain r2 v2 where q: "reconnecting (r, v1) = (r2, v2)" by force
  have c: "\<not> c_shutdown (v_client v1) \<or> r = Inr None"
    using False proceeds_effect(1) [OF p] by simp
  have "healthy (pause me (r2, v2))"
    using healthy_reconnecting [OF healthy_proceeds [OF assms p] proceeds_effect(5) [OF p] c q]
    by (intro healthy_pause)
  then show ?thesis using False p q by (simp add: decided_def decide_reconnect_def)
qed

lemma healthy_cleanup_end:
  "healthy (p, v) \<Longrightarrow> healthy (p, supervisor_cleanup_end conn ses v)"
  by (simp add: supervisor_cleanup_end_def upd_client_def healthy_def waits_ok_def)

lemma healthy_cleanup_begin:
  "healthy (p, v) \<Longrightarrow> \<not> in_session q \<Longrightarrow> supervising q \<longleftrightarrow> supervising p \<Longrightarrow>
   \<forall>e. q = Ended (Some e) \<longrightarrow> e = CancelledError \<Longrightarrow>
   healthy (q, supervisor_cleanup_begin me v)"
  by (auto simp: supervisor_cleanup_begin_def healthy_def waits_ok_def flags_cleanup_begin client_ok_def)

lemma healthy_connection_cleaned:
  assumes "healthy (Closing close err conn ses, v)"
  shows "healthy (connection_cleaned me close err conn ses out v)"
proof -
  have "healthy (Handshake, v)"
    using assms healthy_between [of "Closing close err conn ses" v] by simp
  then have "healthy (Handshake, supervisor_cleanup_end conn ses v)" by (rule healthy_cleanup_end)
  moreover have "healthy (Notifying_Disconnect close, call_back x w)" if "healthy (Handshake, w)" for x w
    using that by (simp add: healthy_def call_back_def waits_ok_def client_ok_def)
  ultimately show ?thesis by (simp add: connection_cleaned_def Let_def decided_healthy)
qed

lemma start_session_sel:
  "flags (v_client (start_session conn v)) = flags (v_client v)"
  "v_connected (start_session conn v) = v_connected v"
  "v_initial (start_session conn v) = v_initial v"
  "v_terminal (start_session conn v) = v_terminal v"
  by (simp_all add: start_session_def start_task_def Let_def case_prod_beta)

lemma healthy_connect_returned:
  assumes "healthy (Handshake, v)"
  shows "healthy (connect_returned me out now v)"
proof -
  define v1 where "v1 = upd_client set_connection v"
  define v2 where "v2 = upd_client next_generation v1"
  have h1: "healthy (Handshake, v1)" and h2: "healthy (Handshake, v2)"
    using assms by (auto intro!: healthy_changed [OF assms] simp: v1_def v2_def upd_client_def)
  obtain r v3 where g: "gate (Connected (c_generation (v_client v2))) out v2 = (r, v3)" by force
  note h3 = healthy_gate [OF h2 g]
  define v4 where "v4 = v3\<lparr>v_deadline := heartbeat_deadline_from now v3, v_connected := True\<rparr>"
  have run: "running_state (c_state (v_client v3))" if "\<not> c_shutdown (v_client v1)"
    using h3 that gate_effect(1) [OF g]
    by (simp add: healthy_def client_ok_def flags_def v2_def upd_client_def next_generation_def)
  define c5 where "c5 = (if c_state (v_client v3) = CONNECTED then v_client v3
    else (v_client v3)\<lparr>c_state := CONNECTED\<rparr>)"
  have t: "transition_to CONNECTED v4 = (Inr (), v4\<lparr>v_client := c5\<rparr>)" if "\<not> c_shutdown (v_client v1)"
    using to_reconnecting(2,3) run [OF that] by (simp add: transition_to_def v4_def c5_def)
  have f: "flags c5 = (c_shutdown (v_client v3), CONNECTED)" by (simp add: c5_def flags_def)
  have "healthy (Rejoining_Topics n, start_session conn (v4\<lparr>v_client := c5\<rparr>))" for n conn
    using h3
    by (simp add: healthy_def client_ok_def waits_ok_def start_session_sel v4_def f running_state_def)
  moreover have "healthy (Rejecting a b, supervisor_cleanup_begin me v3)" for a b
    using healthy_cleanup_begin [OF h3] by simp
  moreover have "adopt_connection me out now v =
      (if c_shutdown (v_client v1) then (Inr Stop_Won, v1)
       else case r of Inl e \<Rightarrow> (Inl e, v3)
         | Inr False \<Rightarrow> (Inr Refused_Connection, supervisor_cleanup_begin me v3)
         | Inr True \<Rightarrow> (Inr Adopted, v4\<lparr>v_client := c5\<rparr>))"
    using g t by (auto simp: adopt_connection_def Let_def v1_def [symmetric] v2_def [symmetric]
        v4_def [symmetric] split: sum.split bool.split)
  ultimately show ?thesis
    using healthy_leave_from [OF h1] healthy_leave_from [OF h3] gate_effect(4) [OF g]
    by (auto simp: connect_returned_def Let_def split: sum.split bool.split)
qed

lemma healthy_topics_rejoined:
  "healthy (Rejoining_Topics g, v) \<Longrightarrow> healthy (topics_rejoined n v)"
  by (auto simp: topics_rejoined_def session_started_def Let_def call_back_def healthy_def
      client_ok_def waits_ok_def)

lemma healthy_routing_ended:
  "healthy (Routing g, v) \<Longrightarrow> healthy (routing_ended me code reason err v)"
  by (auto simp: routing_ended_def end_session_def await_routing_def is_exception_def
      intro!: healthy_cleanup_begin healthy_leave_from
      split: prod.split option.split)

lemma healthy_interrupted: "healthy (p, v) \<Longrightarrow> healthy (interrupted me settles p v)"
  by (cases p) (auto simp: cleanup_cancelled_def intro!: healthy_leave_from [of p] healthy_cleanup_end)

lemma healthy_enter:
  assumes "enter v = Inr v1"
  shows "healthy (Starting, v1)"
proof -
  obtain c where c: "enter_client (active_shutdown v \<noteq> None) (v_client v) = Inr c"
    using assms by (auto simp: enter_def andThen_Inr_iff)
  then have f: "flags c = (False, CONNECTING)"
    using flags_transition by (fastforce simp: enter_client_def split: if_splits)
  have "flags (v_client v1) = flags c" "v_initial v1 = Some Pending" "v_terminal v1 = None" "\<not> v_connected v1"
    using assms c by (auto simp: enter_def andThen_Inr_iff start_task_def Let_def case_prod_beta)
  then show ?thesis
    by (simp add: healthy_def client_ok_def waits_ok_def f running_state_def)
qed

lemma healthy_loop_step: "loop_step x y \<Longrightarrow> healthy x \<Longrightarrow> healthy y"
proof (induction rule: loop_step.induct)
  case (began v v1 p)
  then show ?case using healthy_enter by blast
next
  case (first v me out)
  then show ?case using healthy_between [of Starting] healthy_loop_head by simp
next
  case (paused d v me out)
  then show ?case using healthy_between [of "Pausing d"] healthy_loop_head by simp
next
  case (rejected conn session v me)
  then show ?case by (intro healthy_leave_from [OF healthy_cleanup_end]) auto
next
  case (notified g v)
  then show ?case by (simp add: healthy_def client_ok_def waits_ok_def)
next
  case (reported close v me out)
  then show ?case using healthy_between [of "Notifying_Disconnect close"] decided_healthy by simp
qed (auto intro: healthy_connect_failed healthy_connect_returned healthy_topics_rejoined
    healthy_routing_ended healthy_connection_cleaned healthy_interrupted)

text \<open>A change outside the flags and the waits.\<close>

lemma healthy_same:
  assumes "healthy (p, v)" "flags (v_client v1) = flags (v_client v)" "v_connected v1 = v_connected v"
    "v_initial v1 = v_initial v" "v_terminal v1 = v_terminal v"
  shows "healthy (p, v1)"
  using assms by (simp add: healthy_def waits_ok_def)

lemma healthy_calm: "healthy (p, v) \<Longrightarrow> calm (v_client v) c \<Longrightarrow> healthy (p, v\<lparr>v_client := c\<rparr>)"
  by (auto simp: calm_def healthy_def client_ok_def waits_ok_def flags_def env_def running_state_def)

lemma healthy_shutdown: "healthy (p, v) \<Longrightarrow> healthy (p, snd (shutdown me v))"
  by (auto simp: shutdown_def start_task_def upd_client_def Let_def case_prod_beta healthy_def
      client_ok_def waits_ok_def flags_request_stop running_state_def split: option.split)

lemma healthy_other: "other_step p v v' \<Longrightarrow> healthy (p, v) \<Longrightarrow> healthy (p, v')"
proof (induction rule: other_step.induct)
  case (channels v c p)
  then show ?case using calm_app calm_send calm_task healthy_calm by blast
next
  case (answered p v now m)
  then show ?case
    by (elim healthy_same)
      (auto simp: handle_heartbeat_response_def acknowledge_heartbeat_def call_back_def Let_def
        split: option.split)
next
  case (beating p v conn)
  have "flags c2 = flags c1" if "send_message conn m c1 = Inr c2" for m c1 c2
    using that by (auto simp: send_message_def andThen_Inr_iff flags_def)
  with beating show ?case
    by (elim healthy_same)
      (auto simp: send_heartbeat_def Let_def case_prod_beta split: sum.split)
next
  case (beat_ended p v how)
  then show ?case
    by (elim healthy_same) (auto simp: heartbeat_loop_end_def Let_def split: loop_end.split)
next
  case (forced p v is_open reason)
  then show ?case
    by (elim healthy_same)
      (auto simp: close_connection_def force_close_connection_def split: sum.split)
next
  case (cleaning v p me)
  moreover have "\<not> in_session p" using cleaning(2) in_session_supervising by blast
  moreover have "\<forall>e. p = Ended (Some e) \<longrightarrow> e = CancelledError"
    using cleaning(3) by (simp add: healthy_def)
  ultimately show ?case using healthy_cleanup_begin by blast
next
  case (stopped v p)
  obtain c where c: "transition_state CLOSED (v_client v) = Inr c"
    using stopped by (auto simp: healthy_def client_ok_def flags_def transition_state_def
        transition_client_state_def)
  show ?case
    using stopped flags_transition [OF c] c
    by (simp add: shutdown_finish_def transition_to_def healthy_def client_ok_def waits_ok_def)
next
  case (stopping p v me)
  then show ?case by (rule healthy_shutdown)
next
  case (cleaned v p conn session)
  then show ?case by (intro healthy_cleanup_end)
qed (auto elim!: healthy_same
    simp: heartbeat_loop_begin_def routing_stopped_def stop_supervisor_def unsubscribe_all_def
      upd_client_def Let_def flags_unsubscribe split: option.split)

lemma supervised_healthy: "supervised x \<Longrightarrow> healthy x"
proof (induction rule: supervised.induct)
  case (fresh v)
  then show ?case
    by (auto simp: fresh_def healthy_def client_ok_def waits_ok_def flags_def new_client_def)
qed (auto intro: healthy_loop_step healthy_other)

section \<open>Runs of the supervised client are runs of the channel runtime\<close>

lemma run_connection: "connection_step c c' \<Longrightarrow> run c c'"
  by (rule run_step) (simp add: channel_step_def)

lemma run_two: "run a b \<Longrightarrow> run b c \<Longrightarrow> run a c"
  by (rule run_trans)

lemma run_transition:
  "transition_state RECONNECTING c = Inr c' \<Longrightarrow> run c c'"
  "transition_state CLOSED c = Inr c' \<Longrightarrow> run c c'"
  by (rule run_connection, erule connection_step.reconnecting)
    (rule run_connection, rule connection_step.stopped, simp add: shutdown_end_def)

lemma run_transition_to: "transition_to st v = (r, v1) \<Longrightarrow> st = RECONNECTING \<or> st = CLOSED \<Longrightarrow>
  run (v_client v) (v_client v1)"
  using run_transition [of "v_client v"]
  by (auto simp: transition_to_def split: sum.splits intro: run.stay)

lemma run_leave_loop: "run (v_client v) (v_client (snd (leave_loop me error v)))"
proof -
  obtain c where c: "retire_at_exit me (v_client v) = Inr c" using flags_exit by blast
  then have "run (v_client v) c" by (intro run_connection connection_step.exited)
  with c show ?thesis by (simp add: leave_loop_def settle_supervisor_exit_def)
qed

lemma run_gate: "gate event out v = (r, v1) \<Longrightarrow> v_client v1 = v_client v"
  using gate_effect(1) .

lemma run_loop_head: "run (v_client v) (v_client (snd (loop_head me out v)))"
proof -
  obtain r v1 where g: "gate Connecting out v = (r, v1)" by force
  show ?thesis
    using run_leave_loop [of v me] run_leave_loop [of v1 me] run.stay [of "v_client v"] run_gate [OF g] g
    by (auto simp: loop_head_def split: sum.split bool.split)
qed

lemma run_pause: "run (v_client v) (v_client (snd (pause me (r, v))))"
  using run_leave_loop [of v me] run.stay [of "v_client v"]
  by (auto simp: pause_def split: sum.split option.split)

lemma run_reconnecting:
  "reconnecting (r, v) = (r1, v1) \<Longrightarrow> run (v_client v) (v_client v1)"
  by (auto simp: reconnecting_def split: sum.splits option.splits prod.splits
      intro: run.stay run_transition_to)

lemma run_decided:
  "run (v_client v) (v_client (snd (pause me (reconnecting (decide_reconnect close out v)))))"
proof -
  obtain r v1 where d: "decide_reconnect close out v = (r, v1)" by force
  obtain r2 v2 where q: "reconnecting (r, v1) = (r2, v2)" by force
  have "v_client v1 = v_client v"
    using d proceeds_effect(1) by (fastforce simp: decide_reconnect_def split: if_splits)
  with run_trans [OF run_pause run_reconnecting [OF q]] d q show ?thesis by simp
qed

lemma run_connect_failed:
  "run (v_client v) (v_client (snd (connect_failed me redact exc out v)))"
proof -
  obtain r v1 where p: "proceeds (ConnectFailed exc) out v = (r, v1)" by force
  obtain r2 v2 where q: "reconnecting (r, v1) = (r2, v2)" by force
  have "run (v_client v) (v_client (snd (pause me (r2, v2))))"
    using run_trans [OF run_pause run_reconnecting [OF q]] proceeds_effect(1) [OF p] by simp
  with run_pause [of "settle_initial_connection x v" for x] run_pause [of v] p q show ?thesis
    by (simp add: connect_failed_def retry_after_connect_failure_def)
qed

lemma run_start_session: "run (v_client v) (v_client (start_session conn v))"
proof -
  have t: "run (v_client v) (v_client (snd (start_task w v)))" for w v
    using run_connection [OF connection_step.started] by (simp add: start_task_def case_prod_beta)
  show ?thesis
    using run_trans [OF t [of "snd (start_task x v)" for x] t] t
    by (simp add: start_session_def Let_def case_prod_beta start_task_def)
qed

lemma run_connect_returned:
  assumes "healthy (Handshake, v)"
  shows "run (v_client v) (v_client (snd (connect_returned me out now v)))"
proof -
  define v1 where "v1 = upd_client set_connection v"
  define v2 where "v2 = upd_client next_generation v1"
  obtain r v3 where g: "gate (Connected (c_generation (v_client v2))) out v2 = (r, v3)" by force
  define v4 where "v4 = v3\<lparr>v_deadline := heartbeat_deadline_from now v3, v_connected := True\<rparr>"
  have c3: "v_client v3 = next_generation (set_connection (v_client v))"
    using gate_effect(1) [OF g] by (simp add: v2_def v1_def upd_client_def)
  have sd: "c_shutdown (v_client v1) = c_shutdown (v_client v)"
    by (simp add: v1_def upd_client_def set_connection_def)
  have ad: "adopt_connection me out now v =
      (if c_shutdown (v_client v1) then (Inr Stop_Won, v1)
       else case r of Inl e \<Rightarrow> (Inl e, v3)
         | Inr False \<Rightarrow> (Inr Refused_Connection, supervisor_cleanup_begin me v3)
         | Inr True \<Rightarrow> (case transition_to CONNECTED v4 of
             (Inl e, v5) \<Rightarrow> (Inl e, v5) | (Inr _, v5) \<Rightarrow> (Inr Adopted, v5)))"
    using g by (auto simp: adopt_connection_def Let_def v1_def [symmetric] v2_def [symmetric]
        v4_def [symmetric] split: sum.split bool.split)
  show ?thesis
  proof (cases "c_shutdown (v_client v)")
    case True
    then have "run (v_client v) (v_client v1)"
      by (simp add: v1_def upd_client_def run_connection connection_step.stop_won)
    then show ?thesis
      using run_trans [OF run_leave_loop] True sd ad by (simp add: connect_returned_def Let_def)
  next
    case False
    then have r3: "run (v_client v) (v_client v3)"
      unfolding c3 by (intro run_connection connection_step.gate_raised)
    have cl: "run (v_client v) (v_client (supervisor_cleanup_begin me v3))"
      using False by (simp add: supervisor_cleanup_begin_def c3 run_connection connection_step.refused)
    have ok: "run (v_client v) c" if "transition_state CONNECTED (v_client v3) = Inr c" for c
      using that False unfolding c3 by (intro run_connection connection_step.connected)
    have v43: "v_client v4 = v_client v3" by (simp add: v4_def)
    obtain q v5 where t: "transition_to CONNECTED v4 = (q, v5)" by force
    have r5: "run (v_client v) (v_client v5)"
      using t r3 ok v43 by (auto simp: transition_to_def split: sum.splits)
    show ?thesis
      using run_trans [OF run_leave_loop r3] run_trans [OF run_leave_loop r5] cl
        run_trans [OF run_start_session r5] t False sd ad
      by (auto simp: connect_returned_def Let_def split: sum.split bool.split)
  qed
qed

lemma run_supervisor_cleanup:
  "run (v_client v) (v_client (supervisor_cleanup_begin me v))"
  "run (v_client v) (v_client (supervisor_cleanup_end conn ses v))"
  by (simp_all add: supervisor_cleanup_begin_def supervisor_cleanup_end_def upd_client_def
      run_connection connection_step.cleanup connection_step.cleaned_up)

lemma run_interrupted: "run (v_client v) (v_client (snd (interrupted me settles p v)))"
  by (cases p) (auto simp: cleanup_cancelled_def intro: run_leave_loop run_trans [OF run_leave_loop run_supervisor_cleanup(2)])

lemma run_connection_cleaned:
  "run (v_client v) (v_client (snd (connection_cleaned me close err conn ses out v)))"
proof -
  define w where "w = supervisor_cleanup_end conn ses v"
  have "run (v_client v) (v_client w)" unfolding w_def by (rule run_supervisor_cleanup)
  then show ?thesis
    using run_trans [OF run_decided]
    by (simp add: connection_cleaned_def w_def [symmetric] decided_def call_back_def Let_def)
qed

lemma run_enter: "enter v = Inr v1 \<Longrightarrow> run (v_client v) (v_client v1)"
  by (auto simp: enter_def andThen_Inr_iff start_task_def Let_def case_prod_beta
      intro: run_two [OF run_connection [OF connection_step.entered] run_connection [OF connection_step.started]])

lemma run_loop_step: "loop_step x y \<Longrightarrow> healthy x \<Longrightarrow> run (v_client (snd x)) (v_client (snd y))"
proof (induction rule: loop_step.induct)
  case (rejected conn session v me)
  show ?case using run_trans [OF run_leave_loop run_supervisor_cleanup(2)] by simp
next
  case (rejoined g v)
  show ?case
    by (simp add: topics_rejoined_def session_started_def call_back_def Let_def run.stay)
next
  case (routed g v me code reason err)
  show ?case
    using run_supervisor_cleanup(1) run_leave_loop
    by (simp add: routing_ended_def end_session_def split: prod.split sum.split)
qed (auto intro: run.stay run_enter run_loop_head run_connect_failed run_connect_returned
    run_connection_cleaned run_decided run_interrupted simp: decided_def)

lemma run_leave_all: "run c (fold (\<lambda>s c. snd (leave_channel s k c)) ss c)"
proof (induction ss arbitrary: c)
  case (Cons s ss)
  have "run c (snd (leave_channel s k c))"
    by (rule run_step) (simp add: channel_step_def app_step.left)
  with run_trans [OF Cons.IH] show ?case by simp
qed (simp add: run.stay)

lemma run_shutdown: "run (v_client v) (v_client (snd (shutdown me v)))"
  using run_two [OF run_connection [OF connection_step.stop] run_connection [OF connection_step.started]]
  by (auto simp: shutdown_def start_task_def upd_client_def Let_def case_prod_beta
      intro: run.stay split: option.split)

lemma beat_is_heartbeat: "is_heartbeat (make_message (Custom heartbeat_event) phoenix_topic r p j)"
  by (simp add: is_heartbeat_def make_message_def heartbeat_event_def system_event_of_def system_events_def)

lemma run_send_heartbeat: "run (v_client v) (v_client (snd (send_heartbeat conn v)))"
  by (auto simp: send_heartbeat_def Let_def case_prod_beta beat_is_heartbeat
      intro: run.stay run_connection connection_step.ref_taken
      connection_step.heartbeat [OF beat_is_heartbeat] split: sum.split)

lemma run_other: "other_step p v v' \<Longrightarrow> run (v_client v) (v_client v')"
proof (induction rule: other_step.induct)
  case (channels v c p)
  then have "channel_step (v_client v) c" by (auto simp: channel_step_def)
  then show ?case by (simp add: run_step)
next
  case (answered p v now m)
  have "v_client (handle_heartbeat_response now m v) = v_client v"
    by (auto simp: handle_heartbeat_response_def acknowledge_heartbeat_def call_back_def Let_def
        split: option.split)
  then show ?case by (simp add: run.stay)
next
  case (beat_ended p v how)
  have "v_client (snd (heartbeat_loop_end how v)) = v_client v"
    by (simp add: heartbeat_loop_end_def Let_def split: loop_end.split)
  then show ?case by (simp add: run.stay)
next
  case (forced p v is_open reason)
  have "v_client (snd (close_connection is_open reason v)) = v_client v"
    by (simp add: close_connection_def force_close_connection_def split: sum.split)
  then show ?case by (simp add: run.stay)
next
  case (stopped v p)
  obtain r v1 where t: "transition_to CLOSED (v\<lparr>v_connected := False\<rparr>) = (r, v1)" by force
  from run_transition_to [OF t] show ?case by (simp add: shutdown_finish_def t)
qed (auto intro: run.stay run_shutdown run_send_heartbeat run_supervisor_cleanup run_leave_all
    run_connection connection_step.routing_stopped connection_step.cancel_requested
    simp: heartbeat_loop_begin_def routing_stopped_def stop_supervisor_def unsubscribe_all_def
      upd_client_def Let_def split: option.split)

lemma supervised_reachable: "supervised x \<Longrightarrow> reachable (v_client (snd x))"
proof (induction rule: supervised.induct)
  case (fresh v)
  then show ?case by (auto simp: fresh_def intro: reachable.new)
next
  case (loop x y)
  then show ?case using run_loop_step [OF loop(2) supervised_healthy [OF loop(1)]] run_reachable by blast
next
  case (other p v v')
  then show ?case using run_other run_reachable by fastforce
qed

end
