(* ===== verification/Supervisor_Behaviour.thy ===== *)
theory Supervisor_Behaviour
  imports Supervisor_Properties
begin

text \<open>The properties of the supervised client, with a client that shows each of them at work.\<close>

section \<open>A client entered once\<close>

definition sample_supervisor :: supervisor where
  "sample_supervisor =
     \<lparr>v_client = sample_client, v_auto_reconnect = True, v_url_redacted = lit ''ws://host/socket'',
      v_connected = False, v_initial = None, v_terminal = None, v_threshold = Some 60,
      v_interval = Some (Fin 30), v_deadline = None, v_timer = None, v_heartbeat_task = None,
      v_routing_task = None, v_supervisor_task = None, v_shutdown_task = None, v_initiator = None,
      v_pending_ref = None, v_forced_close = False, v_on_reconnect = False,
      v_on_disconnect = False, v_on_ack = True, v_calls = []\<rparr>"

lemma sample_supervised: "supervised (Idle, sample_supervisor)"
proof (rule supervised.fresh)
  have "\<exists>version jt lt q str. sample_client = new_client version jt lt q str"
    unfolding sample_client_def by blast
  then show "fresh sample_supervisor" by (simp add: fresh_def sample_supervisor_def)
qed

text \<open>The client entered, and stopped at once by a decider that raises.\<close>

definition sample_entered :: supervisor where
  "sample_entered = sample_supervisor
     \<lparr>v_client := snd (new_task Supervisor_Loop (sample_client\<lparr>c_state := CONNECTING\<rparr>)),
      v_initial := Some Pending, v_supervisor_task := Some 0\<rparr>"

lemma sample_enter: "enter sample_supervisor = Inr sample_entered"
  by (simp add: enter_def enter_client_def transition_state_def transition_client_state_def
      active_shutdown_def task_active_def start_task_def new_task_def sample_supervisor_def
      sample_entered_def sample_client_def new_client_def)

lemma sample_entered_supervised: "supervised (Starting, sample_entered)"
  using supervised.loop [OF sample_supervised loop_step.began [OF sample_enter]] by simp

definition sample_stopped :: supervisor where
  "sample_stopped = snd (loop_head None (Raised TimeoutError) sample_entered)"

lemma sample_stopped_eq:
  "loop_head None (Raised TimeoutError) sample_entered = (Ended None, sample_stopped)"
  by (simp add: sample_stopped_def loop_head_def gate_def proceeds_def decide_def decider_failure_eq
      is_exception_def record_terminal_error_def leave_loop_def settle_supervisor_exit_def
      retire_at_exit_def transition_state_def transition_client_state_def
      settle_initial_connection_def sample_entered_def sample_supervisor_def sample_client_def
      new_client_def new_task_def)

lemma sample_stopped_supervised: "supervised (Ended None, sample_stopped)"
  using supervised.loop [OF sample_entered_supervised loop_step.first] sample_stopped_eq by metis

section \<open>The supervisor\<close>

text \<open>
  Claim C17: the supervisor only does what the channel runtime allows. Every state of a supervised
  client has a reachable channel runtime in it, and every step of the supervisor's loop, of the
  heartbeats, of a shutdown or of the application is a run of the channel runtime; so every
  property of the channels' runs holds of the whole client.
\<close>

theorem supervised_refines_channels:
  assumes "supervised (p, v)"
  shows "reachable (v_client v) \<and>
    (\<forall>q w. loop_step (p, v) (q, w) \<longrightarrow> run (v_client v) (v_client w)) \<and>
    (\<forall>w. other_step p v w \<longrightarrow> run (v_client v) (v_client w))"
proof -
  have "run (v_client v) (v_client w)" if "loop_step (p, v) (q, w)" for q w
    using run_loop_step [OF that supervised_healthy [OF assms]] by simp
  then show ?thesis
    using supervised_reachable [OF assms] run_other by auto
qed

lemma supervised_refines_channels_witness: "reachable (v_client sample_stopped)"
  using supervised_refines_channels [OF sample_stopped_supervised] by blast

text \<open>
  Claim C18: the supervisor never makes a transition the client's state machine refuses. Whenever
  its task has ended by an error, that error is a cancellation; while it runs and no stop was
  asked for, the client is connecting, connected or reconnecting; once it has ended the client is
  closed or shutting down, and it shuts down only after a stop.
\<close>

theorem supervisor_ends_cleanly:
  assumes "supervised (p, v)"
  shows "(p = Ended (Some e) \<longrightarrow> e = CancelledError) \<and>
    (supervising p \<and> \<not> c_shutdown (v_client v) \<longrightarrow>
       c_state (v_client v) \<in> {CONNECTING, CONNECTED, RECONNECTING}) \<and>
    (\<not> supervising p \<longrightarrow> c_state (v_client v) \<in> {CLOSED, SHUTTING_DOWN}) \<and>
    (c_state (v_client v) = SHUTTING_DOWN \<longrightarrow> c_shutdown (v_client v))"
  using supervised_healthy [OF assms]
  by (auto simp: healthy_def client_ok_def flags_def running_state_def)

lemma supervisor_ends_cleanly_witness: "c_state (v_client sample_stopped) \<in> {CLOSED, SHUTTING_DOWN}"
  using supervisor_ends_cleanly [OF sample_stopped_supervised] by simp

text \<open>
  Claim C19: entering a client never hangs on a supervisor that is gone. When the supervisor has
  ended, for whatever reason, the future \<open>__aenter__\<close> waits for has an outcome and the client does
  not report a connection; while a terminal error is recorded that future is not pending either;
  and the client reports a connection only between the adoption of one and its loss.
\<close>

theorem first_wait_is_answered:
  assumes "supervised (p, v)"
  shows "(\<not> supervising p \<longrightarrow> v_initial v \<noteq> Some Pending \<and> \<not> v_connected v) \<and>
    (v_terminal v \<noteq> None \<longrightarrow> v_initial v \<noteq> Some Pending) \<and> (v_connected v \<longrightarrow> in_session p)"
  using supervised_healthy [OF assms] in_session_supervising by (auto simp: healthy_def waits_ok_def)

lemma first_wait_is_answered_witness:
  "v_initial sample_stopped \<noteq> Some Pending \<and> v_initial sample_entered = Some Pending"
  using first_wait_is_answered [OF sample_stopped_supervised] by (simp add: sample_entered_def)

section \<open>Decisions and errors\<close>

text \<open>
  A close the client forces is not decided on its code. The frame it sends carries code
  4000 and a reason of at most 123 bytes; the session that ends after it is decided as a
  disconnect without code and reason, whatever the connection reports, and the next connection
  starts unforced. A session that was not forced is decided on the code and reason of the close.
\<close>

lemma forced_close_hides_code:
  assumes "close_connection is_open reason v = (Inr sent, v1)"
    and "end_session me code close_reason err v1 = (close, v2)"
  shows "(\<forall>frame. sent = Some frame \<longrightarrow> fst frame = 4000 \<and>
      (\<exists>bs. utf8_encode (snd frame) = Some bs \<and> length bs \<le> 123)) \<and>
    disconnect_event close = (if sent \<noteq> None \<or> v_forced_close v then Disconnected None []
      else (case extract_close_details code close_reason err of (c, r) \<Rightarrow> Disconnected c r)) \<and>
    \<not> v_forced_close v2"
proof -
  have fits: "\<exists>bs. utf8_encode t = Some bs \<and> length bs \<le> 123" if "truncate_close_reason r = Inr t" for r t
  proof -
    have e: "list_all encodable r"
      using that by (auto simp: truncate_close_reason_def utf8_encode_def split: option.splits if_splits)
    then have t: "t = fit 123 r" using truncate_fit that by (simp add: max_close_reason_bytes_def)
    obtain rest where "r = fit 123 r @ rest" "length (concat (map utf8_cp (fit 123 r))) \<le> 123"
      using fit_split by blast
    then show ?thesis using e t by (metis length_map list_all_append utf8_encode_def)
  qed
  show ?thesis
    using assms
    by (auto simp: close_connection_def force_close_connection_def end_session_def
        supervisor_cleanup_begin_def disconnect_event_def forced_close_code_def
        split: if_splits sum.splits prod.splits dest: fits)
qed

lemma forced_close_hides_code_witness:
  "disconnect_event (fst (end_session None (Some 1000) None None
     (snd (close_connection True [] (sample_entered\<lparr>v_client := sample_joined\<rparr>))))) = Disconnected None []"
proof -
  let ?v = "sample_entered\<lparr>v_client := sample_joined\<rparr>"
  have "close_connection True [] ?v = (Inr (Some (4000, [])), ?v\<lparr>v_forced_close := True\<rparr>)"
    by (simp add: close_connection_def force_close_connection_def truncate_close_reason_def
        forced_close_code_def max_close_reason_bytes_def sample_defs)
  moreover obtain close v2 where
    "end_session None (Some 1000) None None (?v\<lparr>v_forced_close := True\<rparr>) = (close, v2)" by force
  ultimately show ?thesis
    using forced_close_hides_code [of True "[]" ?v "Some (4000, [])" "?v\<lparr>v_forced_close := True\<rparr>"]
    by auto
qed

section \<open>Heartbeats\<close>

text \<open>
  The heartbeat turns of one connection, the answers (with the time they are handled at) and the end
  of the timer, in the order they happen.
\<close>

datatype beat_event = Beat | Answered real message | Expired

fun heartbeat_event_step :: "cid \<Rightarrow> beat_event \<Rightarrow> supervisor \<Rightarrow> supervisor" where
  "heartbeat_event_step conn Beat v = snd (send_heartbeat conn v)"
| "heartbeat_event_step conn (Answered now m) v = handle_heartbeat_response now m v"
| "heartbeat_event_step conn Expired v =
     v\<lparr>v_timer := map_option (\<lambda>w. w\<lparr>w_expired := True\<rparr>) (v_timer v)\<rparr>"

abbreviation beats :: "cid \<Rightarrow> beat_event list \<Rightarrow> supervisor \<Rightarrow> supervisor" where
  "beats conn \<equiv> fold (heartbeat_event_step conn)"

text \<open>An answer in time: to the heartbeat that is outstanding, before the deadline, the timer running.\<close>

definition in_time :: "supervisor \<Rightarrow> real \<Rightarrow> message \<Rightarrow> bool" where
  "in_time v now m \<longleftrightarrow>
     m_ref m \<noteq> None \<and> m_ref m = v_pending_ref v \<and>
     (\<exists>w d. v_timer v = Some w \<and> \<not> w_expired w \<and> w_when w = Some d \<and> now < d)"

definition outstanding :: "supervisor \<Rightarrow> nat" where
  "outstanding v = (if v_pending_ref v = None then 0 else 1)"

text \<open>What the heartbeats count on: a threshold, a running timer, a callback that counts.\<close>

definition beating_ok :: "real \<Rightarrow> supervisor \<Rightarrow> bool" where
  "beating_ok threshold v \<longleftrightarrow>
     v_threshold v = Some threshold \<and> v_on_ack v \<and> \<not> c_shutdown (v_client v) \<and>
     (\<exists>w d. v_timer v = Some w \<and> w_when w = Some d)"

lemma heartbeat_encodes:
  "\<exists>t. encode_message (make_message (Custom heartbeat_event) phoenix_topic (Some r) (Some (PDict [])) None) ver
     = Inr (TextFrame t)"
  by (cases ver)
    (simp_all add: encode_message_def make_message_def dumps_checked_def text_frame_def
      split: sum.split)

lemma answer_step:
  assumes "beating_ok th v"
  shows "handle_heartbeat_response now m v =
    (if in_time v now m
     then acknowledge_heartbeat (v\<lparr>v_timer := map_option (\<lambda>w. w\<lparr>w_when := Some (now + th)\<rparr>) (v_timer v)\<rparr>)
     else v)"
  using assms by (auto simp: handle_heartbeat_response_def in_time_def beating_ok_def)

definition beat_moves :: "real \<Rightarrow> beat_event \<Rightarrow> supervisor \<Rightarrow> supervisor \<Rightarrow> bool" where
  "beat_moves th e v v' \<longleftrightarrow>
     beating_ok th v' \<and>
     length (c_sent (v_client v')) + length (v_calls v) + outstanding v =
       length (c_sent (v_client v)) + length (v_calls v') + outstanding v' \<and>
     (\<exists>w w'. v_timer v = Some w \<and> v_timer v' = Some w' \<and>
       (w_when w' = w_when w \<or> (\<exists>now m. e = Answered now m \<and> in_time v now m \<and> w_when w' = Some (now + th))))"

lemma beat_step:
  assumes "beating_ok th v"
  shows "beat_moves th e v (heartbeat_event_step conn e v)"
proof (cases e)
  case Beat
  obtain ref c1 where g: "generate_ref (v_client v) = (ref, c1)" by force
  then have c1: "c1 = snd (generate_ref (v_client v))" by simp
  obtain t where t: "encode_message (make_message (Custom heartbeat_event) phoenix_topic (Some ref)
      (Some (PDict [])) None) (c_version c1) = Inr (TextFrame t)"
    using heartbeat_encodes by blast
  show ?thesis
    using assms t Beat
    by (simp add: beat_moves_def send_heartbeat_def beating_ok_def g send_message_def outstanding_def)
      (auto simp add: c1)
next
  case (Answered now m)
  then show ?thesis
    using assms
    by (auto simp: beat_moves_def answer_step [OF assms] acknowledge_heartbeat_def call_back_def
        beating_ok_def outstanding_def in_time_def)
next
  case Expired
  then show ?thesis
    using assms by (auto simp: beat_moves_def beating_ok_def outstanding_def)
qed

lemma beats_ok: "beating_ok th v \<Longrightarrow> beating_ok th (beats conn es v)"
  by (induction es arbitrary: v) (use beat_step in \<open>auto simp: beat_moves_def\<close>)

lemma beats_count:
  "beating_ok th v \<Longrightarrow>
   length (c_sent (v_client (beats conn es v))) + length (v_calls v) + outstanding v =
     length (c_sent (v_client v)) + length (v_calls (beats conn es v)) + outstanding (beats conn es v)"
proof (induction es arbitrary: v)
  case (Cons e es)
  have "beat_moves th e v (heartbeat_event_step conn e v)" using beat_step [OF Cons.prems] .
  then show ?case using Cons.IH [of "heartbeat_event_step conn e v"] by (simp add: beat_moves_def)
qed simp

lemma beats_deadline:
  assumes "beating_ok th v" "v_timer v = Some w"
  shows "\<exists>w'. v_timer (beats conn es v) = Some w' \<and>
    (w_when w' = w_when w \<or>
     (\<exists>es1 now m es2. es = es1 @ Answered now m # es2 \<and> in_time (beats conn es1 v) now m \<and>
        w_when w' = Some (now + th)))"
proof (induction es rule: rev_induct)
  case (snoc e es)
  then obtain w1 where w1: "v_timer (beats conn es v) = Some w1"
    "w_when w1 = w_when w \<or> (\<exists>es1 now m es2. es = es1 @ Answered now m # es2 \<and>
      in_time (beats conn es1 v) now m \<and> w_when w1 = Some (now + th))" by blast
  obtain w2 where w2: "v_timer (beats conn (es @ [e]) v) = Some w2"
    "w_when w2 = w_when w1 \<or> (\<exists>now m. e = Answered now m \<and> in_time (beats conn es v) now m \<and>
      w_when w2 = Some (now + th))"
    using beat_step [OF beats_ok [OF assms(1)], of e conn es conn] w1(1) by (auto simp: beat_moves_def)
  have "w_when w2 = w_when w \<or> (\<exists>es1 now m es2. es @ [e] = es1 @ Answered now m # es2 \<and>
      in_time (beats conn es1 v) now m \<and> w_when w2 = Some (now + th))"
    using w2(2) w1(2) by (metis append.assoc append_Cons)
  with w2(1) show ?case by blast
qed (use assms(2) in simp)

text \<open>
  Claim C20: at most one heartbeat is unanswered, and only an answer in time moves the deadline. With
  a dead threshold, over any sequence of heartbeat turns, answers and timer ends, the frames sent are
  exactly the acknowledgements counted plus the one outstanding heartbeat, if there is one. The
  deadline at the end is the one at the start, or the threshold after an answer that was handled in
  time: its reference was the outstanding one, the timer had not ended and the deadline of that
  moment was still ahead. Every other answer - late, repeated, to an older heartbeat - changes nothing:
  it moves no deadline and leaves the heartbeat unanswered.
\<close>

theorem heartbeats_bounded:
  assumes "beating_ok th v" "v_timer v = Some w"
  shows "length (c_sent (v_client (beats conn es v))) + length (v_calls v) + outstanding v =
      length (c_sent (v_client v)) + length (v_calls (beats conn es v)) + outstanding (beats conn es v) \<and>
    (\<exists>w'. v_timer (beats conn es v) = Some w' \<and>
      (w_when w' = w_when w \<or>
       (\<exists>es1 now m es2. es = es1 @ Answered now m # es2 \<and> in_time (beats conn es1 v) now m \<and>
          w_when w' = Some (now + th)))) \<and>
    (\<forall>now m. \<not> in_time (beats conn es v) now m \<longrightarrow>
       handle_heartbeat_response now m (beats conn es v) = beats conn es v)"
  using beats_count [OF assms(1)] beats_deadline [OF assms] answer_step [OF beats_ok [OF assms(1)]] by simp

text \<open>A supervisor in the middle of a connection.\<close>

definition sample_beating :: supervisor where
  "sample_beating = heartbeat_loop_begin (Some 60) (sample_supervisor\<lparr>v_client := sample_joined\<rparr>)"

definition sample_pong :: message where
  "sample_pong = make_message (System SysReply) phoenix_topic (Some (lit ''2'')) None None"

definition sample_beats :: "beat_event list" where
  "sample_beats = [Beat, Answered 10 sample_pong, Beat, Beat]"

lemma sample_beating_ok: "beating_ok 60 sample_beating" "v_timer sample_beating = Some \<lparr>w_when = Some 60, w_expired = False\<rparr>"
  by (simp_all add: beating_ok_def sample_beating_def heartbeat_loop_begin_def sample_supervisor_def
      sample_defs)

lemma heartbeats_bounded_witness:
  "(\<exists>w'. v_timer (beats 0 sample_beats sample_beating) = Some w' \<and>
     (w_when w' = Some 60 \<or> w_when w' = Some 70)) \<and>
   handle_heartbeat_response 100 sample_pong (beats 0 [Beat] sample_beating) = beats 0 [Beat] sample_beating"
proof -
  note h = heartbeats_bounded [OF sample_beating_ok, of 0]
  have e: "now = 10" if "sample_beats = es1 @ Answered now m # es2" for es1 now m es2
  proof -
    have "Answered now m \<in> set sample_beats" unfolding that by simp
    then show ?thesis by (simp add: sample_beats_def)
  qed
  obtain w where "v_timer (beats 0 [Beat] sample_beating) = Some w" "w_when w = Some 60"
    using h [of "[Beat]"] by (auto simp: Cons_eq_append_conv)
  then have "\<not> in_time (beats 0 [Beat] sample_beating) 100 sample_pong" by (simp add: in_time_def)
  then have "handle_heartbeat_response 100 sample_pong (beats 0 [Beat] sample_beating) =
      beats 0 [Beat] sample_beating"
    using h [of "[Beat]"] by blast
  moreover have "\<exists>w'. v_timer (beats 0 sample_beats sample_beating) = Some w' \<and>
      (w_when w' = Some 60 \<or> w_when w' = Some 70)"
    using h [of sample_beats] e by fastforce
  ultimately show ?thesis by blast
qed

end
