(* ===== verification/Client_Shutdown.thy ===== *)
theory Client_Shutdown
  imports Supervisor_Behaviour Background
begin

text \<open>
  A shutdown from the call to its end (\<open>client.py\<close>, \<open>_shutdown\<close>): its stages, each left when what it
  waits for is over, among all other steps of the client; and the two ends of
  \<open>async with Client(...)\<close>, which call it.
\<close>

section \<open>Entering and leaving\<close>

text \<open>\<open>__aenter__\<close> after its wait: what failed the wait is raised once the shutdown is over.\<close>

definition enter_waited :: "tid option \<Rightarrow> exn option \<Rightarrow> supervisor \<Rightarrow> tid option \<times> supervisor" where
  "enter_waited me r v = (case r of None \<Rightarrow> (None, v) | Some e \<Rightarrow> shutdown me v)"

definition leave_client :: "tid option \<Rightarrow> supervisor \<Rightarrow> tid option \<times> supervisor" where
  "leave_client me v = shutdown me v"

section \<open>Stages\<close>

text \<open>
  Where \<open>_shutdown\<close> is: before its first step; waiting for the supervisor; waiting for the socket
  and the sends of a connection; leaving the channels, with those whose leave has not begun;
  waiting for cancelled tasks; waiting for cleanups; at its end, by its last transition or by the
  error of a cleanup.
\<close>

datatype stage =
    Requested
  | Stopping
  | Cleaning "cid option" "ssid option"
  | Leaving "sid list"
  | Cancelling "tid list"
  | Gathering "tid list"
  | Finished "exn option"
  | Cleanup_Raised exn

fun stage_number :: "stage \<Rightarrow> nat" where
  "stage_number Requested = 0"
| "stage_number Stopping = 1"
| "stage_number (Cleaning _ _) = 2"
| "stage_number (Leaving _) = 3"
| "stage_number (Cancelling _) = 4"
| "stage_number (Gathering _) = 5"
| "stage_number (Finished _) = 6"
| "stage_number (Cleanup_Raised _) = 6"

text \<open>The lifecycle tasks a shutdown cancels: all but the task that asked for it.\<close>

definition left_behind :: "supervisor \<Rightarrow> tid list" where
  "left_behind v = filter (\<lambda>k. Some k \<noteq> v_initiator v) (c_lifecycle_tasks (v_client v))"

definition leave_one :: "sid \<Rightarrow> supervisor \<Rightarrow> supervisor" where
  "leave_one s v = upd_client (\<lambda>c. snd (leave_channel s (v_initiator v) c)) v"

text \<open>
  The steps of the task \<open>me\<close>, given where the supervisor is. The supervisor's task is over when
  the supervisor is at no place of its loop; the waits for the socket, the sends and the leaves may
  take any time. No caller's cancellation reaches the task (each waits behind a shield), and nothing
  in the client cancels it, so its own cancellation is not a step.
\<close>

inductive shutdown_step ::
  "tid \<Rightarrow> place \<Rightarrow> stage \<times> supervisor \<Rightarrow> stage \<times> supervisor \<Rightarrow> bool" for me p where
  stop: "shutdown_step me p (Requested, v) (Stopping, stop_supervisor v)"
| clean: "\<not> supervising p \<Longrightarrow>
    shutdown_step me p (Stopping, v)
      (Cleaning (c_connection (v_client v)) (c_send_session (v_client v)),
       supervisor_cleanup_begin (Some me) v)"
| cleaned: "v1 = supervisor_cleanup_end conn session v \<Longrightarrow>
    shutdown_step me p (Cleaning conn session, v) (Leaving (dict_values (c_registry (v_client v1))), v1)"
| leave: "shutdown_step me p (Leaving (s # ss), v) (Leaving ss, leave_one s v)"
| cancel: "shutdown_step me p (Leaving [], v)
    (Cancelling (left_behind v), upd_client (cancel_and_wait (left_behind v)) v)"
| gather: "\<forall>k \<in> set ks. task_done (v_client v) k \<Longrightarrow>
    shutdown_step me p (Cancelling ks, v) (Gathering (c_cleanup_tasks (v_client v)), v)"
| finish: "\<forall>k \<in> set ks. task_done (v_client v) k \<Longrightarrow> shutdown_finish v = (r, v') \<Longrightarrow>
    shutdown_step me p (Gathering ks, v)
      (Finished (case r of Inl e \<Rightarrow> Some e | Inr _ \<Rightarrow> None), v')"
| raised: "k \<in> set ks \<Longrightarrow> task_done (v_client v) k \<Longrightarrow>
    shutdown_step me p (Gathering ks, v) (Cleanup_Raised e, v)"

inductive_cases shutdown_stepE [elim!]: "shutdown_step me p (st, v) (st', v')"

text \<open>
  The shutdown that was asked for in state \<open>v0\<close>, with task \<open>k\<close>. Until that task ends, anything
  else may happen in between.
\<close>

inductive shutting :: "supervisor \<Rightarrow> tid \<Rightarrow> stage \<times> place \<times> supervisor \<Rightarrow> bool" for v0 k where
  asked: "supervised (p, v0) \<Longrightarrow> active_shutdown v0 = None \<Longrightarrow> shutdown me v0 = (Some k, v) \<Longrightarrow>
    shutting v0 k (Requested, p, v)"
| own: "shutting v0 k (st, p, v) \<Longrightarrow> active_shutdown v = Some k \<Longrightarrow>
    shutdown_step k p (st, v) (st', v') \<Longrightarrow> shutting v0 k (st', p, v')"
| loop: "shutting v0 k (st, p, v) \<Longrightarrow> active_shutdown v = Some k \<Longrightarrow> stage_number st < 6 \<Longrightarrow>
    loop_step (p, v) (q, w) \<Longrightarrow> shutting v0 k (st, q, w)"
| other: "shutting v0 k (st, p, v) \<Longrightarrow> active_shutdown v = Some k \<Longrightarrow> stage_number st < 6 \<Longrightarrow>
    other_step p v w \<Longrightarrow> shutting v0 k (st, p, w)"

section \<open>What stays during a shutdown\<close>

text \<open>The stop stays requested, and a supervisor that was taken away does not come back.\<close>

definition firm :: "supervisor \<Rightarrow> supervisor \<Rightarrow> bool" where
  "firm v w \<longleftrightarrow> (c_shutdown (v_client v) \<longrightarrow> c_shutdown (v_client w)) \<and>
     (v_supervisor_task v = None \<longrightarrow> v_supervisor_task w = None)"

lemma firm_refl [simp]: "firm v v"
  by (simp add: firm_def)

lemma firm_trans: "firm u v \<Longrightarrow> firm v w \<Longrightarrow> firm u w"
  by (simp add: firm_def)

lemma flags_shutdown: "flags c' = flags c \<Longrightarrow> c_shutdown c' = c_shutdown c"
  by (simp add: flags_def)

lemma firm_same:
  "flags (v_client w) = flags (v_client v) \<Longrightarrow> v_supervisor_task w = v_supervisor_task v \<Longrightarrow> firm v w"
  by (simp add: firm_def flags_def)

lemma settle_initial_task [simp]:
  "v_supervisor_task (settle_initial_connection e v) = v_supervisor_task v"
  by (simp add: settle_initial_connection_def)

lemma proceeds_task: "proceeds event out v = (r, v1) \<Longrightarrow> v_supervisor_task v1 = v_supervisor_task v"
  by (auto simp: proceeds_def record_terminal_error_def split: sum.splits if_splits option.splits)

lemma firm_proceeds: "proceeds event out v = (r, v1) \<Longrightarrow> firm v v1"
  using proceeds_effect(1) proceeds_task by (metis firm_same)

lemma firm_gate: "gate event out v = (r, v1) \<Longrightarrow> firm v v1"
  by (auto simp: gate_def split: if_splits prod.splits sum.splits dest: firm_proceeds)

lemma firm_transition: "transition_to st v = (r, v1) \<Longrightarrow> firm v v1"
  by (auto simp: transition_to_def firm_def split: sum.splits dest: flags_transition [unfolded flags_def])

lemma firm_leave_loop: "firm v (snd (leave_loop me e v))"
proof -
  obtain c where "retire_at_exit me (v_client v) = Inr c" "c_shutdown c = c_shutdown (v_client v)"
    using flags_exit [of me "v_client v"] by (auto simp: flags_def)
  then show ?thesis
    by (simp add: leave_loop_def settle_supervisor_exit_def firm_def)
qed

lemma firm_loop_head: "firm v (snd (loop_head me out v))"
  using firm_leave_loop firm_trans [OF firm_gate firm_leave_loop] firm_gate
  by (fastforce simp: loop_head_def split: prod.split sum.split bool.split)

lemma firm_pause: "firm v (snd (pause me (r, v)))"
  using firm_leave_loop by (simp add: pause_def split: sum.split option.split)

lemma firm_reconnecting: "reconnecting (r, v) = (r1, v1) \<Longrightarrow> firm v v1"
  by (auto simp: reconnecting_def split: sum.splits option.splits prod.splits dest: firm_transition)

lemma firm_decided: "firm v (snd (decided me close out v))"
proof -
  obtain r v1 where d: "decide_reconnect close out v = (r, v1)" by force
  obtain r2 v2 where q: "reconnecting (r, v1) = (r2, v2)" by force
  have "firm v v1"
    using d by (auto simp: decide_reconnect_def split: if_splits dest: firm_proceeds)
  with firm_trans [OF firm_trans [OF _ firm_reconnecting [OF q]] firm_pause] d q show ?thesis
    by (simp add: decided_def)
qed

lemma firm_connect_failed: "firm v (snd (connect_failed me redact exc out v))"
proof -
  obtain r v1 where p: "proceeds (ConnectFailed exc) out v = (r, v1)" by force
  obtain r2 v2 where q: "reconnecting (r, v1) = (r2, v2)" by force
  have "firm v (snd (pause me (r2, v2)))"
    using firm_trans [OF firm_trans [OF firm_proceeds [OF p] firm_reconnecting [OF q]] firm_pause] .
  moreover have "firm v (snd (pause me (x, settle_initial_connection y v)))" for x y
    by (rule firm_trans [OF firm_same firm_pause]) simp_all
  ultimately show ?thesis
    using firm_pause p q by (simp add: connect_failed_def retry_after_connect_failure_def)
qed

lemma firm_cleanup: "firm v (supervisor_cleanup_begin me v)" "firm v (supervisor_cleanup_end conn ses v)"
  by (rule firm_same; simp add: supervisor_cleanup_begin_def supervisor_cleanup_end_def upd_client_def
      flags_cleanup_begin)+

lemma firm_start_session: "firm v (start_session conn v)"
  by (rule firm_same)
    (simp_all add: start_session_sel, simp add: start_session_def start_task_def Let_def case_prod_beta)

lemma firm_adopt: "adopt_connection me out now v = (r, v1) \<Longrightarrow> firm v v1"
proof -
  have s: "firm v (upd_client set_connection v)" "firm w (upd_client next_generation w)" for w
    by (rule firm_same; simp add: upd_client_def)+
  have d: "firm w (w\<lparr>v_deadline := x, v_connected := b\<rparr>)" for w x b by (rule firm_same) simp_all
  assume "adopt_connection me out now v = (r, v1)"
  then show ?thesis
    by (auto simp: adopt_connection_def Let_def split: if_splits prod.splits sum.splits bool.splits
        dest!: firm_gate firm_transition
        intro: s firm_trans [OF s(1) firm_trans [OF s(2)]] firm_trans [OF _ firm_cleanup(1)]
          firm_trans [OF _ firm_trans [OF d]])
qed

lemma firm_connect_returned: "firm v (snd (connect_returned me out now v))"
proof -
  obtain r v1 where a: "adopt_connection me out now v = (r, v1)" by force
  have "firm v v1" using firm_adopt [OF a] .
  then show ?thesis
    using a firm_trans [OF _ firm_leave_loop] firm_trans [OF _ firm_start_session]
    by (auto simp: connect_returned_def Let_def split: sum.split adoption.split)
qed

lemma firm_interrupted: "firm v (snd (interrupted me settles p v))"
  by (cases p)
    (auto simp: cleanup_cancelled_def intro: firm_leave_loop firm_trans [OF firm_cleanup(2) firm_leave_loop])

lemma firm_connection_cleaned: "firm v (snd (connection_cleaned me close err conn ses out v))"
proof -
  have c: "firm w (call_back x w)" for w x by (rule firm_same) (simp_all add: call_back_def)
  show ?thesis
    using firm_trans [OF firm_cleanup(2) c] firm_trans [OF firm_cleanup(2) firm_decided]
    by (auto simp: connection_cleaned_def Let_def)
qed

text \<open>Every step of the loop but entering again, which a running shutdown refuses.\<close>

lemma firm_loop_step: "loop_step (p, v) (q, w) \<Longrightarrow> supervising p \<Longrightarrow> firm v w"
proof (induction "(p, v)" "(q, w)" rule: loop_step.induct)
  case (rejected conn session me)
  then show ?case using firm_trans [OF firm_cleanup(2) firm_leave_loop] by (metis snd_conv)
next
  case (rejoined g)
  have "firm v (snd (topics_rejoined g v))"
    by (rule firm_same) (simp_all add: topics_rejoined_def session_started_def call_back_def Let_def)
  then show ?case using rejoined by (metis snd_conv)
next
  case (routed g me code reason err)
  have "firm v (snd (routing_ended me code reason err v))"
    using firm_cleanup(1) firm_leave_loop
    by (simp add: routing_ended_def end_session_def split: prod.split sum.split)
  then show ?case using routed by (metis snd_conv)
qed (metis firm_loop_head firm_connect_failed firm_connect_returned firm_connection_cleaned
    firm_decided firm_interrupted firm_refl snd_conv)+

lemma no_enter_while_shutting:
  "active_shutdown v = Some k \<Longrightarrow> loop_step (p, v) (q, w) \<Longrightarrow> supervising p"
  by (auto elim!: loop_step.cases simp: enter_def enter_client_def)

section \<open>What other steps leave\<close>

lemma calm_other: "app_step c c' \<or> send_step c c' \<or> task_step c c' \<Longrightarrow> calm c c'"
  using calm_app calm_send calm_task by blast

lemma shutdown_firm: "firm v (snd (shutdown me v))"
  using flags_request_stop [of me "v_client v"]
  by (auto simp: shutdown_def start_task_def upd_client_def firm_def Let_def case_prod_beta flags_def
      new_task_def split: option.split)

lemma firm_other: "other_step p v w \<Longrightarrow> firm v w"
proof (induction rule: other_step.induct)
  case (channels v c p)
  then show ?case using calm_other by (fastforce simp: firm_def calm_def env_def)
next
  case (answered p v now m)
  show ?case
    by (rule firm_same) (auto simp: handle_heartbeat_response_def acknowledge_heartbeat_def call_back_def Let_def
        split: option.split)
next
  case (beating p v conn)
  have "flags c2 = flags c1" if "send_message conn m c1 = Inr c2" for m c1 c2
    using that by (auto simp: send_message_def andThen_Inr_iff flags_def)
  then show ?case
    by (intro firm_same) (auto simp: send_heartbeat_def Let_def case_prod_beta split: sum.split)
next
  case (beat_ended p v how)
  show ?case by (rule firm_same) (auto simp: heartbeat_loop_end_def Let_def split: loop_end.split)
next
  case (forced p v is_open reason)
  show ?case
    by (rule firm_same) (auto simp: close_connection_def force_close_connection_def split: sum.split)
next
  case (stopping p v me)
  show ?case by (rule shutdown_firm)
next
  case (stopped v p)
  obtain r v1 where t: "transition_to CLOSED (v\<lparr>v_connected := False\<rparr>) = (r, v1)" by force
  have "firm v (v\<lparr>v_connected := False\<rparr>)" by (rule firm_same) simp_all
  with firm_trans firm_transition [OF t] t show ?case by (auto simp: shutdown_finish_def)
next
  case (joins_failed p v me conn task b)
  show ?case by (rule firm_same) (simp_all add: routing_stopped_def upd_client_def)
next
  case (leaving p v)
  show ?case by (rule firm_same) (simp_all add: unsubscribe_all_def upd_client_def flags_unsubscribe)
next
  case (supervisor_stopped p v)
  have "flags (request_cancel k (v_client v)) = flags (v_client v)" for k by simp
  then show ?case
    by (auto simp: stop_supervisor_def upd_client_def firm_def Let_def flags_def split: option.split)
next
  case (cancelling p v k)
  show ?case by (rule firm_same) (simp_all add: upd_client_def)
qed (auto intro: firm_same firm_cleanup simp: heartbeat_loop_begin_def)

text \<open>Without a supervisor, nothing brings a connection back.\<close>

lemma env_connection: "env c' = env c \<Longrightarrow> c_connection c' = c_connection c"
  by (simp add: env_def)

lemma connection_kept [simp]:
  "c_connection (request_stop me c) = c_connection c"
  "c_connection (cleanup_connection_end conn ses c) = c_connection c"
  "c_connection (fail_pending_joins me e c) = c_connection c"
  "c_connection (request_cancel k c) = c_connection c"
  "c_connection (snd (new_task w c)) = c_connection c"
  "c_connection (fold (\<lambda>s c. snd (leave_channel s i c)) ss c) = c_connection c"
proof -
  have "env (retire_channels me e c1) = env c1" for e c1 by simp
  from env_connection [OF this] show "c_connection (request_stop me c) = c_connection c"
    by (simp add: request_stop_def Let_def)
  show "c_connection (fold (\<lambda>s c. snd (leave_channel s i c)) ss c) = c_connection c"
    by (rule env_connection, rule env_view.fold_view) simp
qed (rule env_connection, simp add: env_cleanup_end)+

lemma connection_dropped [simp]: "c_connection (cleanup_connection_begin me own c) = None"
proof -
  have "c_connection (fold request_cancel ks (c\<lparr>c_connection := None\<rparr>)) = None" for ks c
    by (induction ks rule: rev_induct) simp_all
  then show ?thesis
    by (simp add: cleanup_connection_begin_def Let_def del: fold_append filter_append)
qed

lemma no_connection_other:
  assumes "other_step p v w" "c_connection (v_client v) = None"
  shows "c_connection (v_client w) = None"
  using assms
proof (induction rule: other_step.induct)
  case (channels v c p)
  then show ?case using calm_other by (fastforce simp: calm_def env_def)
next
  case (answered p v now m)
  then show ?case
    by (auto simp: handle_heartbeat_response_def acknowledge_heartbeat_def call_back_def Let_def
        split: option.split)
next
  case (beating p v conn)
  have "c_connection c2 = c_connection c1" if "send_message conn m c1 = Inr c2" for m c1 c2
    using that by (auto simp: send_message_def andThen_Inr_iff)
  with beating show ?case
    by (auto simp: send_heartbeat_def Let_def case_prod_beta generate_ref_def split: sum.split)
next
  case (beat_ended p v how)
  then show ?case by (auto simp: heartbeat_loop_end_def Let_def split: loop_end.split)
next
  case (forced p v is_open reason)
  then show ?case by (auto simp: close_connection_def)
next
  case (stopping p v me)
  then show ?case
    by (auto simp: shutdown_def start_task_def upd_client_def Let_def case_prod_beta split: option.split)
next
  case (stopped v p)
  then show ?case
    by (auto simp: shutdown_finish_def transition_to_def transition_state_def andThen_Inr_iff split: sum.splits)
qed (auto simp: heartbeat_loop_begin_def routing_stopped_def upd_client_def unsubscribe_all_def
    stop_supervisor_def supervisor_cleanup_begin_def supervisor_cleanup_end_def Let_def split: option.split)

section \<open>The shutdown\<close>

lemma cancelled_all:
  "flags (cancel_and_wait ks c) = flags c" "c_connection (cancel_and_wait ks c) = c_connection c"
  by (induction ks arbitrary: c) (simp_all add: cancel_and_wait_def)

lemma supervised_cancel: "supervised (p, v) \<Longrightarrow> supervised (p, upd_client (cancel_and_wait ks) v)"
proof (induction ks arbitrary: v)
  case (Cons k ks)
  have "supervised (p, upd_client (request_cancel k) v)"
    using supervised.other [OF Cons.prems other_step.cancelling] .
  from Cons.IH [OF this] show ?case by (simp add: cancel_and_wait_def upd_client_def)
qed (simp add: cancel_and_wait_def upd_client_def)

text \<open>A shutdown only does what the supervised client allows.\<close>

lemma shutdown_step_kind:
  assumes "shutdown_step me p (st, v) (st', v')" "c_shutdown (v_client v)"
    and "2 \<le> stage_number st \<Longrightarrow> \<not> supervising p"
  shows "v' = v \<or> other_step p v v' \<or> (\<exists>ks. v' = upd_client (cancel_and_wait ks) v)"
  using assms(1)
proof (cases rule: shutdown_step.cases)
  case stop
  then show ?thesis using other_step.supervisor_stopped by blast
next
  case clean
  then show ?thesis using other_step.cleaning [OF assms(2)] by blast
next
  case (cleaned conn session)
  then show ?thesis using other_step.cleaned [OF assms(2)] assms(3) by auto
next
  case (leave s)
  have "app_step (v_client v) (snd (leave_channel s (v_initiator v) (v_client v)))"
    by (rule app_step.left)
  with leave show ?thesis by (auto simp: leave_one_def upd_client_def intro: other_step.channels)
next
  case (finish ks r)
  then have "\<not> supervising p" "v' = snd (shutdown_finish v)" using assms(3) by simp_all
  then show ?thesis using other_step.stopped [OF assms(2)] by simp
qed auto

lemma shutdown_step_effect:
  assumes "shutdown_step me p (st, v) (st', v')" "supervised (p, v)" "c_shutdown (v_client v)"
    and "2 \<le> stage_number st \<Longrightarrow> \<not> supervising p"
  shows "supervised (p, v')" "run (v_client v) (v_client v')" "firm v v'"
    "c_connection (v_client v) = None \<Longrightarrow> c_connection (v_client v') = None"
proof -
  note k = shutdown_step_kind [OF assms(1,3,4)]
  have "firm v (upd_client (cancel_and_wait ks) v)" for ks
    by (rule firm_same) (simp_all add: upd_client_def cancelled_all)
  then show "supervised (p, v')" "run (v_client v) (v_client v')" "firm v v'"
    "c_connection (v_client v) = None \<Longrightarrow> c_connection (v_client v') = None"
    using k assms(2) supervised.other supervised_cancel run_other firm_other no_connection_other
      cancel_run run.stay by (auto simp: upd_client_def cancelled_all)
qed

lemma shutdown_step_marks:
  assumes "shutdown_step me p (st, v) (st', v')"
  shows "stage_number st = 0 \<Longrightarrow> v_supervisor_task v' = None"
    "2 \<le> stage_number st' \<Longrightarrow> \<not> supervising p \<or> 2 \<le> stage_number st"
    "stage_number st' = 2 \<Longrightarrow> c_connection (v_client v') = None"
    "stage_number st' = stage_number st + 1 \<or> stage_number st' = stage_number st \<and> st' \<noteq> st"
  using assms
  by (auto simp: stop_supervisor_def upd_client_def supervisor_cleanup_begin_def Let_def
      elim!: shutdown_step.cases split: option.splits)

text \<open>What is known of a shutdown at each stage.\<close>

definition shut_ok :: "client \<Rightarrow> stage \<Rightarrow> place \<Rightarrow> supervisor \<Rightarrow> bool" where
  "shut_ok c0 st p v \<longleftrightarrow>
     supervised (p, v) \<and> c_shutdown (v_client v) \<and> run c0 (v_client v) \<and>
     (1 \<le> stage_number st \<longrightarrow> v_supervisor_task v = None) \<and>
     (2 \<le> stage_number st \<longrightarrow> \<not> supervising p \<and> c_connection (v_client v) = None) \<and>
     (\<forall>r. st = Finished r \<longrightarrow> r = None \<and> c_state (v_client v) = CLOSED)"

lemma finish_allowed:
  assumes "supervised (p, v)" "\<not> supervising p" "shutdown_finish v = (r, v')"
  shows "r = Inr () \<and> c_state (v_client v') = CLOSED \<and> \<not> v_connected v'"
proof -
  have "c_state (v_client v) \<in> {CLOSED, SHUTTING_DOWN}"
    using supervised_healthy [OF assms(1)] assms(2) by (simp add: healthy_def client_ok_def flags_def)
  then obtain c where c: "transition_state CLOSED (v_client v) = Inr c"
    by (auto simp: transition_state_def transition_client_state_def)
  moreover have "c_state c = CLOSED" using flags_transition [OF c] by (simp add: flags_def)
  ultimately show ?thesis using assms(3) by (auto simp: shutdown_finish_def transition_to_def)
qed

lemma shut_ok_own:
  assumes "shut_ok c0 st p v" "shutdown_step k p (st, v) (st', v')"
  shows "shut_ok c0 st' p v'"
proof -
  have a: "supervised (p, v)" "c_shutdown (v_client v)" "2 \<le> stage_number st \<Longrightarrow> \<not> supervising p"
    "run c0 (v_client v)"
    using assms(1) by (simp_all add: shut_ok_def)
  note e = shutdown_step_effect [OF assms(2) a(1-3)] and m = shutdown_step_marks [OF assms(2)]
  have r: "run c0 (v_client v')" by (rule run_trans [OF e(2) a(4)])
  have f: "r = None \<and> c_state (v_client v') = CLOSED" if fin: "st' = Finished r" for r
  proof -
    obtain x ks where "st = Gathering ks" "shutdown_finish v = (x, v')"
      "r = (case x of Inl e \<Rightarrow> Some e | Inr _ \<Rightarrow> None)"
      using assms(2) fin by (auto elim: shutdown_step.cases)
    with finish_allowed [OF a(1) a(3)] show ?thesis by auto
  qed
  have t: "1 \<le> stage_number st' \<longrightarrow> v_supervisor_task v' = None"
    using m(1) assms(1) e(3) by (cases "stage_number st = 0") (auto simp: shut_ok_def firm_def)
  have "c_connection (v_client v') = None" "\<not> supervising p" if "2 \<le> stage_number st'"
    using that m(2-4) a(3) e(4) assms(1) by (auto simp: shut_ok_def)
  then show ?thesis using e r f t a(2) by (simp add: shut_ok_def firm_def)
qed

lemma shut_ok_between:
  assumes "shut_ok c0 st p v" "supervised (q, w)" "run (v_client v) (v_client w)" "firm v w"
    "stage_number st < 6" "2 \<le> stage_number st \<Longrightarrow> \<not> supervising q \<and> c_connection (v_client w) = None"
  shows "shut_ok c0 st q w"
  using assms run_trans [OF assms(3)] by (auto simp: shut_ok_def firm_def)

lemma shutdown_asked:
  assumes "active_shutdown v0 = None" "shutdown me v0 = (Some k, v)"
  shows "v_client v = snd (new_task Shutdown_Client (request_stop me (v_client v0)))"
  using assms by (auto simp: shutdown_def start_task_def upd_client_def case_prod_beta Let_def split: if_splits)

lemma shutting_ok: "shutting v0 k (st, p, v) \<Longrightarrow> \<exists>me. shut_ok (request_stop me (v_client v0)) st p v"
proof (induction "(st, p, v)" arbitrary: st p v rule: shutting.induct)
  case (asked p me v)
  define c0 where "c0 = request_stop me (v_client v0)"
  have c: "v_client v = snd (new_task Shutdown_Client c0)"
    unfolding c0_def by (rule shutdown_asked [OF asked(2,3)])
  have "flags c0 = (True, snd (flags c0))" by (simp add: c0_def flags_request_stop)
  then have "c_shutdown (v_client v)" unfolding c by (simp add: flags_def new_task_def)
  moreover have "run c0 (v_client v)" unfolding c by (rule run_connection [OF connection_step.started])
  moreover have "supervised (p, v)"
    using supervised.other [OF asked(1) other_step.stopping, of me] asked(3) by simp
  ultimately have "shut_ok c0 Requested p v" by (simp add: shut_ok_def)
  then show ?case unfolding c0_def by blast
next
  case (own st p v st' v')
  from own(2) obtain me where "shut_ok (request_stop me (v_client v0)) st p v" by blast
  from shut_ok_own [OF this own(4)] show ?case by blast
next
  case (loop st p v q w)
  then obtain me where ok: "shut_ok (request_stop me (v_client v0)) st p v" by blast
  note s = no_enter_while_shutting [OF loop(3,5)]
  have "supervised (p, v)" "2 \<le> stage_number st \<Longrightarrow> False" using ok s by (auto simp: shut_ok_def)
  then have "shut_ok (request_stop me (v_client v0)) st q w"
    using shut_ok_between [OF ok supervised.loop [OF _ loop(5)] _ firm_loop_step [OF loop(5) s] loop(4)]
      run_loop_step [OF loop(5) supervised_healthy] by auto
  then show ?case by blast
next
  case (other st p v w)
  then obtain me where ok: "shut_ok (request_stop me (v_client v0)) st p v" by blast
  have "shut_ok (request_stop me (v_client v0)) st p w"
    using ok shut_ok_between [OF ok supervised.other [OF _ other(5)] run_other [OF other(5)] firm_other [OF other(5)] other(4)]
      no_connection_other [OF other(5)] by (auto simp: shut_ok_def)
  then show ?case by blast
qed

lemma shutdown_last_step:
  assumes "shutting v0 k (st, p, v)" "stage_number st = 6"
  shows "v_shutdown_task v = Some k"
  using assms(1)
proof (cases rule: shutting.cases)
  case (own st1 v1)
  from own(3) assms(2) obtain ks x where
    "shutdown_finish v1 = (x, v) \<or> st1 = Gathering ks \<and> v = v1"
    by (auto elim!: shutdown_step.cases)
  with own(2) show ?thesis
    by (auto simp: active_shutdown_def shutdown_finish_def transition_to_def split: if_splits sum.splits)
qed (use assms(2) in simp_all)

lemma shutting_from: "shutting v0 k x \<Longrightarrow> reachable (v_client v0)"
  by (induction rule: shutting.induct) (auto dest: supervised_reachable)

text \<open>The state a shutdown leaves, once its task is over.\<close>

definition after_shutdown :: "tid \<Rightarrow> supervisor \<Rightarrow> supervisor" where
  "after_shutdown k v = upd_client (end_task k) v"

lemma after_shutdown_idle: "v_shutdown_task v = Some k \<Longrightarrow> active_shutdown (after_shutdown k v) = None"
  by (simp add: after_shutdown_def active_shutdown_def task_active_def task_done_def end_task_def upd_client_def)

lemma enter_after_shutdown:
  assumes "v_shutdown_task v = Some k"
  shows "c_state (v_client v) = CLOSED \<Longrightarrow> \<exists>v1. enter (after_shutdown k v) = Inr v1"
    "c_state (v_client v) \<noteq> CLOSED \<Longrightarrow> \<exists>e. enter (after_shutdown k v) = Inl e"
    "c_state (v_client v) \<noteq> CLOSED \<Longrightarrow> \<exists>k' w. shutdown me (after_shutdown k v) = (Some k', w)"
  using after_shutdown_idle [OF assms]
  by (simp_all add: enter_def enter_client_def shutdown_def is_fully_closed_def after_shutdown_def end_task_def
      upd_client_def transition_state_def transition_client_state_def start_task_def case_prod_beta Let_def)


lemmas sample_stop_simps =
  shutdown_def active_shutdown_def task_active_def task_done_def is_fully_closed_def start_task_def
  new_task_def upd_client_def request_stop_def retire_channels_def stop_supervisor_def request_cancel_def
  sample_entered_def sample_supervisor_def sample_client_def new_client_def

lemma sample_shutdown:
  "shutting sample_entered 1 (Requested, Starting, snd (shutdown None sample_entered))"
proof (rule shutting.asked [OF sample_entered_supervised])
  show "active_shutdown sample_entered = None" by (simp add: sample_stop_simps)
  show "shutdown None sample_entered = (Some 1, snd (shutdown None sample_entered))"
    by (simp add: sample_stop_simps)
qed

lemmas sample_close_simps =
  loop_head_def leave_loop_def settle_supervisor_exit_def settle_initial_connection_def retire_at_exit_def
  supervisor_cleanup_begin_def supervisor_cleanup_end_def cleanup_connection_begin_def
  cleanup_connection_end_def fail_pending_joins_def channel_recoveries_def shutdown_finish_def
  transition_to_def transition_state_def transition_client_state_def left_behind_def cancel_and_wait_def


end
