(* ===== verification/Shutdown_Signals.thy ===== *)
theory Shutdown_Signals
  imports Messages
begin

text \<open>
  The handling of SIGTERM and SIGINT shared by every waiting \<open>run_forever\<close>
  (\<open>shutdown_signals.py\<close>): the operating system's handler table, the waiters, and the handlers
  that were in place before. \<open>raise_signal\<close> is logged with the handler that gets it.
\<close>

section \<open>State\<close>

datatype signum = SIGTERM | SIGINT

definition shutdown_signals :: "signum list" where
  "shutdown_signals = [SIGTERM, SIGINT]"

lemma shutdown_signals_all [simp]: "sig \<in> set shutdown_signals"
  by (cases sig) (simp_all add: shutdown_signals_def)

text \<open>A handler set from Python: this module's, or another.\<close>

datatype handler = Ours | Other nat

text \<open>A waiter is its loop and its event; \<open>None\<close> in the table is a handler set outside Python.\<close>

type_synonym waiter = "nat \<times> nat"

record signals =
  g_table :: "signum \<Rightarrow> handler option"
  g_waiters :: "(waiter, signum option) dict"
  g_previous :: "(signum, handler) dict"
  g_closed :: "nat list"
  g_events :: "waiter list"
  g_raised :: "(signum \<times> handler option) list"

definition live :: "signals \<Rightarrow> waiter \<Rightarrow> bool" where
  "live g w \<longleftrightarrow> fst w \<notin> set (g_closed g)"

definition owned :: "signals \<Rightarrow> signum \<Rightarrow> bool" where
  "owned g sig \<longleftrightarrow> g_table g sig = Some Ours"

definition raise_signal :: "signum \<Rightarrow> signals \<Rightarrow> signals" where
  "raise_signal sig g = g\<lparr>g_raised := g_raised g @ [(sig, g_table g sig)]\<rparr>"

section \<open>Operations\<close>

text \<open>Put a handler back where ours is; a missing entry is a \<open>KeyError\<close>.\<close>

definition restore_one :: "signum \<Rightarrow> signals \<Rightarrow> exn + signals" where
  "restore_one sig g =
     (if \<not> owned g sig then Inr g
      else (case dict_get (g_previous g) sig of
              None \<Rightarrow> Inl (OtherError (lit ''KeyError''))
            | Some h \<Rightarrow> Inr (g\<lparr>g_table := (g_table g)(sig := Some h)\<rparr>)))"

definition restore :: "signals \<Rightarrow> exn + signals" where
  "restore g = andThen (restore_one SIGTERM g) (restore_one SIGINT)"

definition install_one :: "signum \<Rightarrow> signals \<Rightarrow> signals" where
  "install_one sig g =
     (case g_table g sig of
        Some (Other h) \<Rightarrow>
          g\<lparr>g_previous := dict_set sig (Other h) (g_previous g),
            g_table := (g_table g)(sig := Some Ours)\<rparr>
      | _ \<Rightarrow> g)"

text \<open>\<open>possible\<close>: this interpreter lets its main thread take signals.\<close>

definition install :: "bool \<Rightarrow> signals \<Rightarrow> bool \<times> signals" where
  "install possible g =
     (if possible then (True, fold install_one shutdown_signals g) else (False, g))"

text \<open>
  The signal handler: every live waiter takes the signal; with none, it is handed back.
  \<open>g_events\<close> lists the waiters whose event it asked their loop to set
  (\<open>call_soon_threadsafe\<close>); when each loop does so is its own matter.
\<close>

definition on_shutdown_signal :: "signum \<Rightarrow> signals \<Rightarrow> exn + signals" where
  "on_shutdown_signal sig g =
     (let ws = filter (live g) (map fst (g_waiters g));
          g1 = g\<lparr>g_waiters := fold (\<lambda>w. dict_set w (Some sig)) ws (g_waiters g),
                 g_events := g_events g @ ws\<rparr>
      in if ws = [] \<and> owned g1 sig then andThen (restore g1) (\<lambda>g2. Inr (raise_signal sig g2))
         else Inr g1)"

text \<open>Drop a waiter and those whose loop closed; the last one restores, on the main thread.\<close>

definition unregister :: "bool \<Rightarrow> waiter \<Rightarrow> signals \<Rightarrow> exn + signum option \<times> signals" where
  "unregister main w g =
     (let received = (case dict_get (g_waiters g) w of None \<Rightarrow> None | Some r \<Rightarrow> r);
          g1 = g\<lparr>g_waiters := filter (\<lambda>(x, _). live g x) (dict_pop w (g_waiters g))\<rparr>
      in if g_waiters g1 = [] \<and> main then andThen (restore g1) (\<lambda>g2. Inr (received, g2))
         else Inr (received, g1))"

text \<open>\<open>handle_shutdown_signals\<close> on the main thread, before its body and after it.\<close>

definition enter_signals :: "bool \<Rightarrow> waiter \<Rightarrow> signals \<Rightarrow> signals" where
  "enter_signals possible w g = snd (install possible (g\<lparr>g_waiters := dict_set w None (g_waiters g)\<rparr>))"

definition leave_signals :: "bool \<Rightarrow> bool \<Rightarrow> waiter \<Rightarrow> signals \<Rightarrow> exn + signals" where
  "leave_signals main consumed w g =
     andThen (unregister main w g) (\<lambda>(received, g1).
       Inr (case received of
              None \<Rightarrow> g1
            | Some sig \<Rightarrow>
                if \<not> consumed \<and> \<not> owned g1 sig then raise_signal sig g1 else g1))"

section \<open>Runs\<close>

text \<open>
  What may happen from a table \<open>T\<close> on: waiters come and go, a signal reaches our handler (from
  the system, or from a host's handler that chains to it), the host installs a handler of its
  own, a loop is closed. The set holds the signals whose handler the host changed meanwhile.
\<close>

inductive signal_run :: "(signum \<Rightarrow> handler option) \<Rightarrow> signum set \<Rightarrow> signals \<Rightarrow> bool" for T where
  start: "g_table g = T \<Longrightarrow> g_waiters g = [] \<Longrightarrow> signal_run T {} g"
| entered: "signal_run T H g \<Longrightarrow> signal_run T H (enter_signals possible w g)"
| left: "signal_run T H g \<Longrightarrow> leave_signals main consumed w g = Inr g' \<Longrightarrow> signal_run T H g'"
| signalled: "signal_run T H g \<Longrightarrow> on_shutdown_signal sig g = Inr g' \<Longrightarrow> signal_run T H g'"
| hosted: "signal_run T H g \<Longrightarrow> h \<noteq> Some Ours \<Longrightarrow>
    signal_run T (insert sig H) (g\<lparr>g_table := (g_table g)(sig := h)\<rparr>)"
| closed: "signal_run T H g \<Longrightarrow> signal_run T H (g\<lparr>g_closed := l # g_closed g\<rparr>)"

text \<open>Ours stands only for a handler that was kept, and the kept one is the original unless the host meddled.\<close>

definition kept :: "(signum \<Rightarrow> handler option) \<Rightarrow> signum set \<Rightarrow> signals \<Rightarrow> bool" where
  "kept T H g \<longleftrightarrow>
     (\<forall>sig. owned g sig \<longrightarrow> (\<exists>h. dict_get (g_previous g) sig = Some (Other h) \<and>
        (sig \<notin> H \<longrightarrow> T sig = Some (Other h)))) \<and>
     (\<forall>sig. sig \<notin> H \<and> \<not> owned g sig \<longrightarrow> g_table g sig = T sig)"

lemma kept_install_one: "kept T H g \<Longrightarrow> kept T H (install_one sig g)"
  by (cases "g_table g sig"; cases "the (g_table g sig)")
    (auto simp: kept_def install_one_def owned_def)

lemma kept_fold_install: "kept T H g \<Longrightarrow> kept T H (fold install_one ss g)"
  by (induction ss arbitrary: g) (auto intro: kept_install_one)

lemma kept_restore_one:
  assumes "kept T H g"
  shows "\<exists>g'. restore_one sig g = Inr g' \<and> kept T H g' \<and> \<not> owned g' sig \<and>
    (\<forall>s. \<not> owned g s \<longrightarrow> \<not> owned g' s) \<and> g_waiters g' = g_waiters g"
proof (cases "owned g sig")
  case True
  then obtain h where h: "dict_get (g_previous g) sig = Some (Other h)"
    using assms by (auto simp: kept_def)
  with True show ?thesis using assms by (auto simp: restore_one_def kept_def owned_def)
qed (use assms in \<open>simp add: restore_one_def\<close>)

lemma kept_restore:
  assumes "kept T H g"
  shows "\<exists>g'. restore g = Inr g' \<and> kept T H g' \<and> (\<forall>s. \<not> owned g' s) \<and> g_waiters g' = g_waiters g"
proof -
  obtain g1 where g1: "restore_one SIGTERM g = Inr g1" "kept T H g1" "\<not> owned g1 SIGTERM"
    "g_waiters g1 = g_waiters g"
    using kept_restore_one [OF assms] by blast
  obtain g2 where g2: "restore_one SIGINT g1 = Inr g2" "kept T H g2" "\<not> owned g2 SIGINT"
    "\<forall>s. \<not> owned g1 s \<longrightarrow> \<not> owned g2 s" "g_waiters g2 = g_waiters g1"
    using kept_restore_one [OF g1(2)] by blast
  have "\<not> owned g2 s" for s using g1(3) g2(3,4) by (cases s) auto
  then show ?thesis using g1 g2 by (auto simp: restore_def)
qed

lemma kept_same: "kept T H g \<Longrightarrow> g_table g' = g_table g \<Longrightarrow> g_previous g' = g_previous g \<Longrightarrow> kept T H g'"
  by (simp add: kept_def owned_def)

lemma kept_enter: "kept T H g \<Longrightarrow> kept T H (enter_signals possible w g)"
  by (auto simp: enter_signals_def install_def intro!: kept_fold_install elim: kept_same)

lemma kept_signal:
  assumes "kept T H g"
  shows "\<exists>g'. on_shutdown_signal sig g = Inr g' \<and> kept T H g'"
proof -
  define ws where "ws = filter (live g) (map fst (g_waiters g))"
  define g1 where "g1 = g\<lparr>g_waiters := fold (\<lambda>w. dict_set w (Some sig)) ws (g_waiters g),
    g_events := g_events g @ ws\<rparr>"
  have k: "kept T H g1" using assms by (rule kept_same) (simp_all add: g1_def)
  obtain g2 where g2: "restore g1 = Inr g2" "kept T H g2" using kept_restore [OF k] by blast
  have "kept T H (raise_signal sig g2)" using g2(2) by (rule kept_same) (simp_all add: raise_signal_def)
  moreover have "on_shutdown_signal sig g =
      (if ws = [] \<and> owned g1 sig then Inr (raise_signal sig g2) else Inr g1)"
    unfolding on_shutdown_signal_def Let_def ws_def [symmetric] g1_def [symmetric] g2(1) by simp
  ultimately show ?thesis using k by simp
qed

lemma kept_unregister:
  assumes "kept T H g"
  shows "\<exists>r g'. unregister main w g = Inr (r, g') \<and> kept T H g' \<and>
    (g_waiters g' = [] \<and> main \<longrightarrow> (\<forall>s. \<not> owned g' s))"
proof -
  define g1 where "g1 = g\<lparr>g_waiters := filter (\<lambda>(x, _). live g x) (dict_pop w (g_waiters g))\<rparr>"
  have k: "kept T H g1" using assms by (rule kept_same) (simp_all add: g1_def)
  obtain g2 where "restore g1 = Inr g2" "kept T H g2" "\<forall>s. \<not> owned g2 s" "g_waiters g2 = g_waiters g1"
    using kept_restore [OF k] by blast
  with k show ?thesis
    by (auto simp: unregister_def Let_def g1_def [symmetric])
qed

lemma run_kept:
  assumes "\<forall>sig. T sig \<noteq> Some Ours" "signal_run T H g"
  shows "kept T H g"
  using assms(2)
proof (induction rule: signal_run.induct)
  case (start g)
  then show ?case using assms(1) by (simp add: kept_def owned_def)
next
  case (left H g main consumed w g')
  obtain r g1 where u: "unregister main w g = Inr (r, g1)" "kept T H g1"
    using kept_unregister [OF left.IH] by blast
  show ?case
    using left(2) u(1) kept_same [OF u(2)]
    by (auto simp: leave_signals_def raise_signal_def split: option.splits if_splits)
next
  case (signalled H g sig g')
  then show ?case using kept_signal [OF signalled.IH, of sig] by auto
next
  case (hosted H g h sig)
  then show ?case by (auto simp: kept_def owned_def)
qed (auto intro: kept_enter elim: kept_same)

lemma restore_one_effect:
  assumes "restore_one s g = Inr g'"
  shows "g_raised g' = g_raised g" "g_previous g' = g_previous g"
    "t \<noteq> s \<Longrightarrow> g_table g' t = g_table g t"
    "owned g s \<Longrightarrow> g_table g' s = dict_get (g_previous g) s"
  using assms by (auto simp: restore_one_def split: if_splits option.splits)

lemma restore_table:
  assumes "restore g = Inr g'" "owned g sig"
  shows "g_table g' sig = dict_get (g_previous g) sig" "g_raised g' = g_raised g"
proof -
  obtain g1 where g1: "restore_one SIGTERM g = Inr g1" "restore_one SIGINT g1 = Inr g'"
    using assms(1) by (auto simp: restore_def andThen_Inr_iff)
  note e1 = restore_one_effect [OF g1(1)] and e2 = restore_one_effect [OF g1(2)]
  show "g_raised g' = g_raised g" using e1(1) e2(1) by simp
  show "g_table g' sig = dict_get (g_previous g) sig"
  proof (cases sig)
    case SIGTERM
    then show ?thesis using e1(4) e2(3) [of SIGTERM] assms(2) by simp
  next
    case SIGINT
    then have "owned g1 SIGINT" using e1(3) [of SIGINT] assms(2) by (simp add: owned_def)
    then show ?thesis using e2(4) e1(2) SIGINT by simp
  qed
qed

lemma dict_get_fold_set:
  "dict_get (fold (\<lambda>w. dict_set w x) ws d) w = (if w \<in> set ws then Some x else dict_get d w)"
  by (induction ws arbitrary: d) (auto simp del: map_of_eq_Some_iff)

section \<open>Properties\<close>

text \<open>
  Claim C24: the process gets its signal handlers back. Whatever waiters came and went, whatever
  signals arrived and loops were closed, leaving never fails, and when the last waiter leaves on
  the main thread, no handler of the client is installed and every signal the host did not touch
  has the handler it had at the start; a signal the leaving waiter took and nobody acted on is
  raised again, for that handler.
\<close>

theorem signals_handed_back:
  assumes "\<forall>sig. T sig \<noteq> Some Ours" "signal_run T H g"
  shows "\<exists>g'. leave_signals True consumed w g = Inr g' \<and>
    (g_waiters g' = [] \<longrightarrow>
      (\<forall>sig. \<not> owned g' sig \<and> (sig \<notin> H \<longrightarrow> g_table g' sig = T sig)) \<and>
      (\<forall>sig. dict_get (g_waiters g) w = Some (Some sig) \<and> \<not> consumed \<longrightarrow>
         (sig, g_table g' sig) \<in> set (g_raised g')))"
proof -
  obtain r g1 where u: "unregister True w g = Inr (r, g1)" "kept T H g1"
    "g_waiters g1 = [] \<longrightarrow> (\<forall>s. \<not> owned g1 s)"
    using kept_unregister [OF run_kept [OF assms], of True w] by blast
  have r: "r = (case dict_get (g_waiters g) w of None \<Rightarrow> None | Some x \<Rightarrow> x)"
    using u(1) by (auto simp: unregister_def Let_def andThen_Inr_iff split: if_splits)
  define g' where "g' = (case r of None \<Rightarrow> g1
    | Some sig \<Rightarrow> if \<not> consumed \<and> \<not> owned g1 sig then raise_signal sig g1 else g1)"
  have t: "g_table g' = g_table g1" "g_waiters g' = g_waiters g1"
    by (auto simp: g'_def raise_signal_def split: option.split)
  have "leave_signals True consumed w g = Inr g'"
    using u(1) by (simp add: leave_signals_def g'_def)
  moreover have "(\<forall>sig. \<not> owned g' sig \<and> (sig \<notin> H \<longrightarrow> g_table g' sig = T sig)) \<and>
      (\<forall>sig. dict_get (g_waiters g) w = Some (Some sig) \<and> \<not> consumed \<longrightarrow>
         (sig, g_table g' sig) \<in> set (g_raised g'))" if "g_waiters g' = []"
  proof -
    have o: "\<not> owned g1 s" for s using that t u(3) by simp
    then have "g_table g' sig = T sig" if "sig \<notin> H" for sig
      using u(2) t that by (simp add: kept_def)
    moreover have "(sig, g_table g' sig) \<in> set (g_raised g')"
      if "dict_get (g_waiters g) w = Some (Some sig)" "\<not> consumed" for sig
      using that o r t(1) by (simp add: g'_def raise_signal_def)
    ultimately show ?thesis using o t(1) by (simp add: owned_def)
  qed
  ultimately show ?thesis by blast
qed

definition sample_table :: "signum \<Rightarrow> handler option" where
  "sample_table sig = Some (Other (case sig of SIGTERM \<Rightarrow> 0 | SIGINT \<Rightarrow> 1))"

definition sample_signals :: signals where
  "sample_signals = enter_signals True (0, 0)
     \<lparr>g_table = sample_table, g_waiters = [], g_previous = [], g_closed = [], g_events = [], g_raised = []\<rparr>"

lemma sample_signal_run: "\<forall>sig. sample_table sig \<noteq> Some Ours" "signal_run sample_table {} sample_signals"
  by (simp add: sample_table_def) (simp add: sample_signals_def signal_run.entered signal_run.start)

lemma signals_handed_back_witness:
  "\<exists>g'. leave_signals True False (0, 0) sample_signals = Inr g' \<and>
    (g_waiters g' = [] \<longrightarrow> g_table g' SIGINT = Some (Other 1))"
  using signals_handed_back [OF sample_signal_run, of False "(0, 0)"] by (auto simp: sample_table_def)

text \<open>
  Claim C25: a signal always reaches someone. A signal that arrives at the client's handler sets the
  event of every waiter whose loop is open and is noted there as taken; when there is none, the
  handlers are put back and the signal is raised for the handler that was there before.
\<close>

theorem signal_reaches_someone:
  assumes "\<forall>sig. T sig \<noteq> Some Ours" "signal_run T H g" "owned g sig"
  shows "\<exists>g'. on_shutdown_signal sig g = Inr g' \<and>
    (if \<exists>w \<in> fst ` set (g_waiters g). live g w
     then \<forall>w \<in> fst ` set (g_waiters g). live g w \<longrightarrow>
       w \<in> set (g_events g') \<and> dict_get (g_waiters g') w = Some (Some sig)
     else \<exists>h. dict_get (g_previous g) sig = Some (Other h) \<and> \<not> owned g' sig \<and>
       g_raised g' = g_raised g @ [(sig, Some (Other h))])"
proof -
  define ws where "ws = filter (live g) (map fst (g_waiters g))"
  define g1 where "g1 = g\<lparr>g_waiters := fold (\<lambda>w. dict_set w (Some sig)) ws (g_waiters g),
    g_events := g_events g @ ws\<rparr>"
  have k: "kept T H g" using run_kept [OF assms(1,2)] .
  have k1: "kept T H g1" using k by (rule kept_same) (simp_all add: g1_def)
  obtain g2 where g2: "restore g1 = Inr g2" "\<forall>s. \<not> owned g2 s" using kept_restore [OF k1] by blast
  obtain h where h: "dict_get (g_previous g) sig = Some (Other h)"
    using k assms(3) by (auto simp: kept_def)
  have o: "owned g1 sig" using assms(3) by (simp add: owned_def g1_def)
  have e: "on_shutdown_signal sig g = (if ws = [] then Inr (raise_signal sig g2) else Inr g1)"
    unfolding on_shutdown_signal_def Let_def ws_def [symmetric] g1_def [symmetric] g2(1)
    using o by simp
  have ws: "w \<in> set ws \<longleftrightarrow> w \<in> fst ` set (g_waiters g) \<and> live g w" for w by (auto simp: ws_def)
  show ?thesis
  proof (cases "ws = []")
    case True
    then have "\<not> (\<exists>w \<in> fst ` set (g_waiters g). live g w)" using ws by auto
    moreover have "dict_get (g_previous g1) sig = Some (Other h)" using h by (simp add: g1_def)
    then have "g_table g2 sig = Some (Other h)" "g_raised g2 = g_raised g1"
      using restore_table [OF g2(1) o] by simp_all
    ultimately show ?thesis
      using True h e g2(2) by (simp add: raise_signal_def owned_def g1_def)
  next
    case False
    then have "\<exists>w \<in> fst ` set (g_waiters g). live g w" using ws by (metis list.set_sel(1))
    moreover have "dict_get (g_waiters g1) w = Some (Some sig)" if "w \<in> set ws" for w
      using that by (simp add: g1_def dict_get_fold_set del: map_of_eq_Some_iff)
    ultimately show ?thesis using False e ws by (simp add: g1_def)
  qed
qed

lemma signal_reaches_someone_witness:
  "\<exists>g'. on_shutdown_signal SIGINT sample_signals = Inr g' \<and> (0, 0) \<in> set (g_events g')"
proof -
  have o: "owned sample_signals SIGINT" and w: "live sample_signals (0, 0)" "(0, 0) \<in> fst ` set (g_waiters sample_signals)"
    by (simp_all add: sample_signals_def enter_signals_def install_def shutdown_signals_def
        install_one_def owned_def live_def sample_table_def)
  have "\<exists>w \<in> fst ` set (g_waiters sample_signals). live sample_signals w" using w by blast
  with signal_reaches_someone [OF sample_signal_run o] w show ?thesis by (simp only: if_True) blast
qed

end
