(* ===== verification/Run_Forever.thy ===== *)
theory Run_Forever
  imports Client_Shutdown Shutdown_Signals
begin

text \<open>
  \<open>run_forever\<close> as a whole (\<open>supervisor.py\<close>): the wait for the supervisor or a signal, with the
  process's handlers around it, and what a signal that was taken leads to.
\<close>

section \<open>The wait\<close>

text \<open>
  Up to the wait. No waiter: the host owns its signals, or this is not the main thread.
  \<open>possible\<close>: the interpreter lets this thread take signals.
\<close>

definition run_forever_enter ::
  "bool \<Rightarrow> waiter option \<Rightarrow> supervisor \<Rightarrow> signals \<Rightarrow> exn + tid \<times> signals" where
  "run_forever_enter possible w v g =
     andThen (run_forever_begin v) (\<lambda>k.
       Inr (k, (case w of None \<Rightarrow> g | Some x \<Rightarrow> enter_signals possible x g)))"

text \<open>It goes on while neither the supervisor has ended nor the waiter's event is set.\<close>

definition run_forever_waiting :: "tid \<Rightarrow> bool \<Rightarrow> supervisor \<Rightarrow> bool" where
  "run_forever_waiting k signaled v \<longleftrightarrow> \<not> signaled \<and> \<not> task_done (v_client v) k"

text \<open>
  What follows the wait, up to the next one: an interruption is raised, a signal that was consumed
  starts a shutdown. \<open>signaled\<close> is whether the event is set; only a wait that was not
  interrupted consumes the signal. The inner sum is what \<open>run_forever\<close> raises, or the task it waits
  for.
\<close>

definition run_forever_leave ::
  "bool \<Rightarrow> waiter option \<Rightarrow> exn option \<Rightarrow> bool \<Rightarrow> tid option \<Rightarrow> supervisor \<Rightarrow> signals \<Rightarrow>
   exn + (exn + tid option) \<times> supervisor \<times> signals" where
  "run_forever_leave main w interrupt signaled me v g =
     andThen (case w of
                None \<Rightarrow> Inr g
              | Some x \<Rightarrow> leave_signals main (interrupt = None \<and> signaled) x g) (\<lambda>g1.
       Inr (case interrupt of
              Some e \<Rightarrow> (Inl e, v, g1)
            | None \<Rightarrow> (case run_forever_signaled signaled me v of (k, v1) \<Rightarrow> (Inr k, v1, g1))))"

section \<open>Who is left\<close>

lemma restore_one_keeps:
  "restore_one s g = Inr g' \<Longrightarrow> g_waiters g' = g_waiters g \<and> g_raised g' = g_raised g \<and> g_closed g' = g_closed g"
  by (auto simp: restore_one_def split: if_splits option.splits)

lemma restore_keeps:
  "restore g = Inr g' \<Longrightarrow> g_waiters g' = g_waiters g \<and> g_raised g' = g_raised g \<and> g_closed g' = g_closed g"
  by (auto simp: restore_def andThen_Inr_iff dest!: restore_one_keeps)

lemma unregister_rest:
  assumes "unregister main w g = Inr (r, g1)"
  shows "g_waiters g1 = filter (\<lambda>(x, _). live g x) (dict_pop w (g_waiters g)) \<and>
    g_raised g1 = g_raised g \<and> g_closed g1 = g_closed g \<and>
    r = (case dict_get (g_waiters g) w of None \<Rightarrow> None | Some x \<Rightarrow> x)"
  using assms
  by (auto simp: unregister_def Let_def andThen_Inr_iff split: if_splits dest!: restore_keeps)

lemma raise_keeps [simp]:
  "g_table (raise_signal sig g) = g_table g" "g_waiters (raise_signal sig g) = g_waiters g"
  "g_closed (raise_signal sig g) = g_closed g" "owned (raise_signal sig g) s \<longleftrightarrow> owned g s"
  "g_raised (raise_signal sig g) = g_raised g @ [(sig, g_table g sig)]"
  by (simp_all add: raise_signal_def owned_def)

text \<open>Another waiter that still waits, with what it has taken so far.\<close>

definition waits_beside :: "waiter \<Rightarrow> signals \<Rightarrow> waiter \<Rightarrow> signum option \<Rightarrow> bool" where
  "waits_beside w g x r \<longleftrightarrow> x \<noteq> w \<and> live g x \<and> (x, r) \<in> set (g_waiters g)"

lemma leave_taken:
  assumes "kept T H g" "dict_get (g_waiters g) w = Some (Some sig)"
  shows "\<exists>g'. leave_signals True consumed w g = Inr g' \<and>
    (if consumed then g_raised g' = g_raised g
     else g_raised g' = g_raised g @ [(sig, g_table g' sig)] \<and> \<not> owned g' sig \<or>
       owned g' sig \<and> (\<exists>x r. waits_beside w g' x r \<and> waits_beside w g x r))"
proof -
  obtain r g1 where u: "unregister True w g = Inr (r, g1)"
    "g_waiters g1 = [] \<longrightarrow> (\<forall>s. \<not> owned g1 s)"
    using kept_unregister [OF assms(1), of True w] by blast
  note e = unregister_rest [OF u(1)]
  have r: "r = Some sig" using e assms(2) by simp
  have "\<exists>x r. waits_beside w g1 x r \<and> waits_beside w g x r" if "owned g1 sig"
  proof -
    have "g_waiters g1 \<noteq> []" using u(2) that by blast
    then obtain x y where "(x, y) \<in> set (filter (\<lambda>(x, _). live g x) (dict_pop w (g_waiters g)))"
      using e by (metis list.set_intros(1) neq_Nil_conv surj_pair)
    then have "waits_beside w g1 x y" "waits_beside w g x y"
      using e by (auto simp: waits_beside_def live_def AList.delete_eq)
    then show ?thesis by blast
  qed
  moreover have "g_raised g1 = g_raised g" using e by blast
  moreover have "leave_signals True consumed w g =
      Inr (if \<not> consumed \<and> \<not> owned g1 sig then raise_signal sig g1 else g1)"
    using u(1) by (simp add: leave_signals_def r)
  ultimately show ?thesis by (cases "owned g1 sig") (auto simp: r)
qed

lemma shutdown_cases:
  assumes "reachable (v_client v)"
  shows "(if active_shutdown v = None \<and> is_fully_closed (v_client v) then shutdown me v = (None, v)
       else \<exists>k. fst (shutdown me v) = Some k \<and> active_shutdown (snd (shutdown me v)) = Some k) \<and>
    (active_shutdown v = None \<and> \<not> is_fully_closed (v_client v) \<longrightarrow>
       c_shutdown (v_client (snd (shutdown me v))) \<and>
       (\<forall>(n, s) \<in> set (c_registry (v_client v)). t_state (c_sub (v_client (snd (shutdown me v))) s) = LEFT))"
proof (cases "active_shutdown v")
  case None
  show ?thesis
  proof (cases "is_fully_closed (v_client v)")
    case True
    with None show ?thesis by (simp add: shutdown_def)
  next
    case False
    define c where "c = request_stop me (v_client v)"
    have s: "shutdown me v = (Some (c_next c), v\<lparr>v_initiator := me, v_client := snd (new_task Shutdown_Client c),
        v_shutdown_task := Some (c_next c)\<rparr>)"
      using None False
      by (simp add: shutdown_def start_task_def upd_client_def new_task_def c_def Let_def)
    have "active_shutdown (snd (shutdown me v)) = Some (c_next c)"
      by (simp add: s active_shutdown_def task_active_def task_done_def new_task_def)
    moreover have "t_state (c_sub c n) = LEFT" if "(m, n) \<in> set (c_registry (v_client v))" for m n
      using stop_ends_channels [OF assms, of me] that run.stay unfolding c_def by blast
    moreover have "c_shutdown c" using flags_request_stop [of me "v_client v"] by (simp add: c_def flags_def)
    ultimately show ?thesis using None False s by (auto simp: new_task_def)
  qed
next
  case (Some k)
  then show ?thesis by (simp add: shutdown_def)
qed

section \<open>What a signal leads to\<close>

text \<open>
  Claim C26: a signal that a waiting \<open>run_forever\<close> took is acted upon or passed on. When its wait
  ends with the event set, the signal is not raised again, and either the client was fully closed
  already or \<open>run_forever\<close> waits for a shutdown that is under way, in which every channel is left;
  when the wait is interrupted, or ends before the event is set, the client goes on as it is and
  the signal is raised again for a handler that is not the client's, unless the client's handler
  stays in place because another \<open>run_forever\<close> still waits.
\<close>

theorem signal_acted_upon_or_passed_on:
  assumes "\<forall>sig. T sig \<noteq> Some Ours" "signal_run T H g" "supervised (p, v)"
    and "dict_get (g_waiters g) w = Some (Some sig)"
  shows "\<exists>r v' g'. run_forever_leave True (Some w) interrupt signaled me v g = Inr (r, v', g') \<and>
    (if interrupt = None \<and> signaled
     then g_raised g' = g_raised g \<and>
       (if active_shutdown v = None \<and> is_fully_closed (v_client v) then r = Inr None \<and> v' = v
        else \<exists>k. r = Inr (Some k) \<and> active_shutdown v' = Some k \<and>
          (active_shutdown v = None \<longrightarrow> c_shutdown (v_client v') \<and>
            (\<forall>(n, s) \<in> set (c_registry (v_client v)). t_state (c_sub (v_client v') s) = LEFT)))
     else v' = v \<and> (r = (case interrupt of None \<Rightarrow> Inr None | Some e \<Rightarrow> Inl e)) \<and>
       (g_raised g' = g_raised g @ [(sig, g_table g' sig)] \<and> g_table g' sig \<noteq> Some Ours \<or>
        owned g' sig \<and> (\<exists>x r. waits_beside w g' x r \<and> waits_beside w g x r)))"
proof -
  obtain g' where g: "leave_signals True (interrupt = None \<and> signaled) w g = Inr g'"
    "if interrupt = None \<and> signaled then g_raised g' = g_raised g
     else g_raised g' = g_raised g @ [(sig, g_table g' sig)] \<and> \<not> owned g' sig \<or>
       owned g' sig \<and> (\<exists>x r. waits_beside w g' x r \<and> waits_beside w g x r)"
    using leave_taken [OF run_kept [OF assms(1,2)] assms(4)] by blast
  have "reachable (v_client v)" using supervised_reachable [OF assms(3)] by simp
  note s = shutdown_cases [OF this, of me]
  show ?thesis
  proof (cases "interrupt = None \<and> signaled")
    case True
    then have "run_forever_leave True (Some w) interrupt signaled me v g =
        Inr (Inr (fst (shutdown me v)), snd (shutdown me v), g')"
      using g(1) by (simp add: run_forever_leave_def run_forever_signaled_def case_prod_beta)
    with True g(2) s show ?thesis by (cases "active_shutdown v = None \<and> is_fully_closed (v_client v)") auto
  next
    case False
    then have "run_forever_leave True (Some w) interrupt signaled me v g =
        Inr (case interrupt of None \<Rightarrow> Inr None | Some e \<Rightarrow> Inl e, v, g')"
      using g(1) by (cases interrupt) (simp_all add: run_forever_leave_def run_forever_signaled_def)
    with False g(2) show ?thesis by (auto simp: owned_def)
  qed
qed

definition sample_signalled :: signals where
  "sample_signalled = sample_signals\<lparr>g_waiters := [((0, 0), Some SIGINT)], g_events := [(0, 0)]\<rparr>"

lemma sample_signalled_run: "signal_run sample_table {} sample_signalled"
proof (rule signal_run.signalled [OF sample_signal_run(2)])
  show "on_shutdown_signal SIGINT sample_signals = Inr sample_signalled"
    by (simp add: on_shutdown_signal_def sample_signalled_def sample_signals_def enter_signals_def
        install_def shutdown_signals_def install_one_def live_def sample_table_def owned_def)
qed

lemma signal_acted_upon_or_passed_on_witness:
  "\<exists>k v' g'. run_forever_leave True (Some (0, 0)) None True None sample_entered sample_signalled =
      Inr (Inr (Some k), v', g') \<and> c_shutdown (v_client v')"
proof -
  have "dict_get (g_waiters sample_signalled) (0, 0) = Some (Some SIGINT)"
    by (simp add: sample_signalled_def)
  moreover have "active_shutdown sample_entered = None" "\<not> is_fully_closed (v_client sample_entered)"
    by (simp_all add: sample_stop_simps)
  ultimately show ?thesis
    using signal_acted_upon_or_passed_on [OF sample_signal_run(1) sample_signalled_run
        sample_entered_supervised, of "(0, 0)" SIGINT None True None] by auto
qed

text \<open>
  The other way out is there: a second \<open>run_forever\<close> that begins after the signal was taken,
  before the first one ends unset, keeps the handler in place without having taken the signal.
\<close>

lemma signal_left_with_newcomer:
  "\<exists>g'. leave_signals True False (0, 0) (enter_signals True (0, 1) sample_signalled) = Inr g' \<and>
    g_waiters g' = [((0, 1), None)] \<and> owned g' SIGINT \<and> g_raised g' = []"
  by (simp add: leave_signals_def enter_signals_def unregister_def install_def shutdown_signals_def
      install_one_def live_def owned_def sample_signalled_def sample_signals_def sample_table_def)

end
