(* ===== verification/Host_Signals.thy ===== *)
theory Host_Signals
  imports Run_Forever
begin

text \<open>
  A host that owns its signals (\<open>src/examples/embedded_host_signals.py\<close>): the handlers it installs
  with the event loop around \<open>run_forever(install_signal_handlers=False)\<close>, and how it puts the
  previous ones back. The loop's own handler function and the defaults that asyncio resets to are
  arguments.
\<close>

section \<open>The loop's handlers\<close>

text \<open>The process's handler table, and the signals the loop has a callback for.\<close>

record host =
  h_signals :: signals
  h_callbacks :: "signum list"

definition set_signal :: "signum \<Rightarrow> handler option \<Rightarrow> host \<Rightarrow> exn + host" where
  "set_signal sig handler h =
     (case handler of
        None \<Rightarrow> Inl (OtherError (lit ''TypeError''))
      | Some x \<Rightarrow> Inr (h\<lparr>h_signals := (h_signals h)\<lparr>g_table := (g_table (h_signals h))(sig := Some x)\<rparr>\<rparr>))"

text \<open>\<open>loop.add_signal_handler\<close> and \<open>loop.remove_signal_handler\<close> of asyncio.\<close>

definition add_signal_handler :: "handler \<Rightarrow> signum \<Rightarrow> host \<Rightarrow> host" where
  "add_signal_handler noop sig h =
     h\<lparr>h_signals := (h_signals h)\<lparr>g_table := (g_table (h_signals h))(sig := Some noop)\<rparr>,
       h_callbacks := List.insert sig (h_callbacks h)\<rparr>"

definition remove_signal_handler :: "(signum \<Rightarrow> handler) \<Rightarrow> signum \<Rightarrow> host \<Rightarrow> host" where
  "remove_signal_handler reset sig h =
     (if sig \<notin> set (h_callbacks h) then h
      else h\<lparr>h_signals := (h_signals h)\<lparr>g_table := (g_table (h_signals h))(sig := Some (reset sig))\<rparr>,
             h_callbacks := removeAll sig (h_callbacks h)\<rparr>)"

section \<open>The host's block\<close>

definition host_signals :: "signum list" where
  "host_signals = [SIGTERM, SIGINT]"

text \<open>\<open>host_signal_handlers\<close> before its body: what was in place, and the handlers installed.\<close>

definition host_enter :: "handler \<Rightarrow> host \<Rightarrow> (signum, handler option) dict \<times> host" where
  "host_enter noop h =
     (map (\<lambda>sig. (sig, g_table (h_signals h) sig)) host_signals, fold (add_signal_handler noop) host_signals h)"

text \<open>After it: one signal after the other; an error ends the loop.\<close>

fun host_leave ::
  "(signum \<Rightarrow> handler) \<Rightarrow> (signum, handler option) dict \<Rightarrow> host \<Rightarrow> exn option \<times> host" where
  "host_leave reset [] h = (None, h)"
| "host_leave reset ((sig, handler) # ps) h =
     (let h1 = remove_signal_handler reset sig h
      in case set_signal sig handler h1 of
           Inl e \<Rightarrow> (Some e, h1)
         | Inr h2 \<Rightarrow> host_leave reset ps h2)"

text \<open>A signal that the loop's handler gets runs the host's callback, a task that stops the client.\<close>

definition host_signalled :: "handler \<Rightarrow> signum \<Rightarrow> tid option \<Rightarrow> host \<Rightarrow> supervisor \<Rightarrow> supervisor" where
  "host_signalled noop sig me h v =
     (if g_table (h_signals h) sig = Some noop \<and> sig \<in> set (h_callbacks h)
      then snd (shutdown me v) else v)"

text \<open>\<open>main\<close>'s wait: \<open>run_forever\<close> without signal handlers.\<close>

definition host_runs :: "supervisor \<Rightarrow> host \<Rightarrow> exn + tid \<times> signals" where
  "host_runs v h = run_forever_enter True None v (h_signals h)"

section \<open>What the host gets back\<close>

lemma all_signals: "(\<forall>sig. P sig) \<longleftrightarrow> P SIGTERM \<and> P SIGINT"
  by (metis signum.exhaust)

lemma host_enter_table:
  "host_enter noop h = (prev, h1) \<Longrightarrow>
   prev = [(SIGTERM, g_table (h_signals h) SIGTERM), (SIGINT, g_table (h_signals h) SIGINT)] \<and>
   g_table (h_signals h1) = (\<lambda>_. Some noop) \<and> set (h_callbacks h1) = {SIGTERM, SIGINT} \<and>
   g_waiters (h_signals h1) = g_waiters (h_signals h)"
  by (auto simp: host_enter_def host_signals_def add_signal_handler_def fun_eq_iff all_signals
      intro: signum.exhaust)

lemma last_leave_table:
  assumes "kept T {} g" "leave_signals True consumed w g = Inr g'" "g_waiters g' = []"
  shows "g_table g' = T"
proof -
  obtain r g1 where u: "unregister True w g = Inr (r, g1)" "kept T {} g1"
    "g_waiters g1 = [] \<longrightarrow> (\<forall>s. \<not> owned g1 s)"
    using kept_unregister [OF assms(1), of True w] by blast
  have "g_table g' = g_table g1 \<and> g_waiters g' = g_waiters g1"
    using assms(2) u(1) by (auto simp: leave_signals_def split: option.splits if_splits)
  with u assms(3) show ?thesis by (auto simp: kept_def)
qed

text \<open>
  Claim C27: a host gets its signal handlers back. Inside its block every signal goes to the loop's
  handler, so it stops the client and \<open>run_forever\<close> without signal handlers leaves the table alone;
  whichever other clients of the process waited with handlers of their own inside the block, and
  whatever they did, once the last of them has left, the end of the block fails only for a handler
  that was set outside Python, and otherwise leaves the table as the host found it.
\<close>

theorem host_gets_handlers_back:
  assumes "host_enter (Other n) h = (prev, h1)" "g_waiters (h_signals h) = []"
    and "signal_run (g_table (h_signals h1)) {} g" "leave_signals True consumed w g = Inr g'" "g_waiters g' = []"
  shows "host_signalled (Other n) sig me h1 v = snd (shutdown me v) \<and>
    (\<forall>k g2. host_runs v h1 = Inr (k, g2) \<longrightarrow> g2 = h_signals h1) \<and>
    (case host_leave reset prev (h1\<lparr>h_signals := g'\<rparr>) of
       (None, h2) \<Rightarrow> g_table (h_signals h2) = g_table (h_signals h) \<and> h_callbacks h2 = []
     | (Some e, h2) \<Rightarrow> \<exists>sig. g_table (h_signals h) sig = None)"
proof -
  note e = host_enter_table [OF assms(1)]
  have T: "\<forall>sig. g_table (h_signals h1) sig \<noteq> Some Ours" using e by simp
  have "g_table g' = (\<lambda>_. Some (Other n))"
    using last_leave_table [OF run_kept [OF T assms(3)] assms(4,5)] e by simp
  moreover have "removeAll SIGINT (removeAll SIGTERM (h_callbacks h1)) = []"
    using e by (auto simp: filter_empty_conv removeAll_filter_not_eq)
  ultimately have "case host_leave reset prev (h1\<lparr>h_signals := g'\<rparr>) of
       (None, h2) \<Rightarrow> g_table (h_signals h2) = g_table (h_signals h) \<and> h_callbacks h2 = []
     | (Some e, h2) \<Rightarrow> \<exists>sig. g_table (h_signals h) sig = None"
    using e by (auto simp: set_signal_def remove_signal_handler_def fun_eq_iff all_signals Let_def
        split: option.split)
  moreover have "sig \<in> set (h_callbacks h1)" using e by (cases sig) auto
  ultimately show ?thesis
    using e by (auto simp: host_signalled_def host_runs_def run_forever_enter_def andThen_Inr_iff)
qed

definition sample_host :: host where
  "sample_host = \<lparr>h_signals =
     \<lparr>g_table = sample_table, g_waiters = [], g_previous = [], g_closed = [], g_events = [], g_raised = []\<rparr>,
   h_callbacks = []\<rparr>"

lemma host_gets_handlers_back_witness:
  "\<exists>prev h1 h2. host_enter (Other 7) sample_host = (prev, h1) \<and>
    host_leave (\<lambda>_. Other 9) prev h1 = (None, h2) \<and> g_table (h_signals h2) = sample_table"
proof -
  obtain prev h1 where e: "host_enter (Other 7) sample_host = (prev, h1)" by force
  have w: "g_waiters (h_signals sample_host) = []" by (simp add: sample_host_def)
  note t = host_enter_table [OF e]
  have g: "signal_run (g_table (h_signals h1)) {} (h_signals h1)"
    using t w by (intro signal_run.start) simp_all
  have l0: "leave_signals True False (0, 0) (h_signals h1) = Inr (h_signals h1)"
    using t w by (simp add: leave_signals_def unregister_def restore_def restore_one_def owned_def)
  have w1: "g_waiters (h_signals h1) = []" using t w by simp
  note b = host_gets_handlers_back [OF e w g l0 w1,
      of SIGINT None sample_entered "\<lambda>_. Other 9"]
  obtain r h2 where l0: "host_leave (\<lambda>_. Other 9) prev h1 = (r, h2)" by force
  then have l: "host_leave (\<lambda>_. Other 9) prev (h1\<lparr>h_signals := h_signals h1\<rparr>) = (r, h2)" by simp
  have n: "\<nexists>s. g_table (h_signals sample_host) s = None"
    by (simp add: sample_host_def sample_table_def)
  have "r = None \<and> g_table (h_signals h2) = g_table (h_signals sample_host)"
    using b n unfolding l by (cases r; simp only: prod.case option.case) blast+
  with e l0 show ?thesis by (auto simp: sample_host_def)
qed

text \<open>A handler set outside Python makes the end of the block fail, and the next one is not put back.\<close>

lemma host_leave_stuck:
  "h_callbacks h = [SIGINT, SIGTERM] \<Longrightarrow>
   host_leave reset [(SIGTERM, None), (SIGINT, Some x)] h =
     (Some (OtherError (lit ''TypeError'')), remove_signal_handler reset SIGTERM h)"
  by (simp add: set_signal_def)

end
