(* ===== verification/Message_Loop.thy ===== *)
theory Message_Loop
  imports Supervisor_Behaviour
begin

text \<open>
  The routing task of a connection (\<open>_start_processing\<close> of \<open>supervisor.py\<close>): the loop of the
  protocol handler with the two callbacks of the client, one for heartbeat answers and one for
  control messages, over the frames the server sends.
\<close>

section \<open>The loop\<close>

text \<open>One decoded frame that arrived at a time of the clock.\<close>

definition dispatch :: "tid option \<Rightarrow> nat \<Rightarrow> real \<Rightarrow> decoded_message \<Rightarrow> supervisor \<Rightarrow> supervisor" where
  "dispatch me gen now d v =
     (if m_topic (d_message d) = phoenix_topic then handle_heartbeat_response now (d_message d) v
      else upd_client (\<lambda>c. snd (route_message (\<lambda>_ c. c) (handle_channel_control me) gen d c)) v)"

fun start_processing ::
  "tid option \<Rightarrow> (json \<Rightarrow> exn + pystr) \<Rightarrow> nat \<Rightarrow> (ws_frame \<times> real) list \<Rightarrow> supervisor \<Rightarrow>
   exn option \<times> supervisor" where
  "start_processing me coerce gen [] v = (None, v)"
| "start_processing me coerce gen ((fr, now) # frs) v =
     (case decode_message coerce fr (c_version (v_client v)) of
        Inl e \<Rightarrow> (Some e, v)
      | Inr d \<Rightarrow> start_processing me coerce gen frs (dispatch me gen now d v))"

section \<open>What the server can do\<close>

lemma dispatch_steps:
  assumes "decode_message coerce fr (c_version (v_client v)) = Inr d" "supervised (p, v)"
  shows "supervised (p, dispatch me gen now d v)"
proof (cases "m_topic (d_message d) = phoenix_topic")
  case True
  then show ?thesis using supervised.other [OF assms(2) other_step.answered] by (simp add: dispatch_def)
next
  case False
  define c where "c = snd (route_message (\<lambda>_ c. c) (handle_channel_control me) gen d (v_client v))"
  have "deliver me coerce gen fr (v_client v) = Inr c"
    using assms(1) by (simp add: deliver_def c_def)
  then have "task_step (v_client v) c" by (rule task_step.frame)
  then have "supervised (p, v\<lparr>v_client := c\<rparr>)"
    using supervised.other [OF assms(2) other_step.channels] by blast
  with False show ?thesis by (simp add: dispatch_def c_def upd_client_def)
qed

text \<open>What the supervisor's loop decides on.\<close>

definition steering ::
  "supervisor \<Rightarrow> (cid option \<times> nat \<times> bool \<times> protocol_version \<times> client_state \<times> options) \<times>
    fut option \<times> exn option \<times> bool \<times> bool" where
  "steering v = (env (v_client v), v_initial v, v_terminal v, v_connected v, v_forced_close v)"

lemma dispatch_steering: "steering (dispatch me gen now d v) = steering v"
  by (auto simp: dispatch_def steering_def upd_client_def env_view.routing.route_keeps handle_heartbeat_response_def
      acknowledge_heartbeat_def call_back_def Let_def split: option.split)

lemma dispatch_version [simp]: "c_version (v_client (dispatch me gen now d v)) = c_version (v_client v)"
  using dispatch_steering [of me gen now d v] by (simp add: steering_def env_def)

definition decodes :: "(json \<Rightarrow> exn + pystr) \<Rightarrow> protocol_version \<Rightarrow> ws_frame \<Rightarrow> bool" where
  "decodes coerce version fr \<longleftrightarrow> (\<exists>d. decode_message coerce fr version = Inr d)"

lemma processing_effect:
  assumes "start_processing me coerce gen frs v = (r, v')" "supervised (p, v)"
  shows "supervised (p, v') \<and> steering v' = steering v \<and>
    (case r of
       None \<Rightarrow> \<forall>(fr, now) \<in> set frs. decodes coerce (c_version (v_client v)) fr
     | Some e \<Rightarrow> \<exists>before fr now after. frs = before @ (fr, now) # after \<and>
         (\<forall>(x, t) \<in> set before. decodes coerce (c_version (v_client v)) x) \<and>
         decode_message coerce fr (c_version (v_client v)) = Inl e)"
  using assms
proof (induction frs arbitrary: v)
  case (Cons x frs)
  obtain fr now where x: "x = (fr, now)" by force
  show ?case
  proof (cases "decode_message coerce fr (c_version (v_client v))")
    case (Inl e)
    with Cons.prems x show ?thesis by fastforce
  next
    case (Inr d)
    then have "start_processing me coerce gen frs (dispatch me gen now d v) = (r, v')"
      using Cons.prems(1) x by simp
    note i = Cons.IH [OF this dispatch_steps [OF Inr Cons.prems(2)]]
    have "decodes coerce (c_version (v_client v)) fr" using Inr by (simp add: decodes_def)
    note d = this
    show ?thesis
    proof (cases r)
      case None
      with i d show ?thesis by (simp add: dispatch_steering x)
    next
      case (Some e)
      with i obtain before fr1 now1 after where b: "frs = before @ (fr1, now1) # after"
        "\<forall>(x, t) \<in> set before. decodes coerce (c_version (v_client v)) x"
        "decode_message coerce fr1 (c_version (v_client v)) = Inl e" by auto
      have "\<exists>before fr now after. x # frs = before @ (fr, now) # after \<and>
          (\<forall>(x, t) \<in> set before. decodes coerce (c_version (v_client v)) x) \<and>
          decode_message coerce fr (c_version (v_client v)) = Inl e"
        by (rule exI [of _ "x # before"], rule exI [of _ fr1], rule exI [of _ now1], rule exI [of _ after])
          (use b d x in simp)
      with i Some show ?thesis by (simp add: dispatch_steering)
    qed
  qed
qed simp

text \<open>
  Claim C21: nothing the server sends ends the routing but a frame that does not decode. Over any
  frames, at any times, the routing task of a supervised client does only what the client allows;
  it ends by an error exactly when some frame does not decode, with the decoder's error for the
  first such frame, and whatever the frames say, the connection, its generation, the client's
  state, the stop, the first wait, the recorded error and a forced close are as before.
\<close>

theorem routing_ends_on_bad_frame_only:
  assumes "supervised (p, v)" "start_processing me coerce gen frs v = (r, v')"
  shows "supervised (p, v') \<and> steering v' = steering v \<and>
    (r = None \<longleftrightarrow> (\<forall>(fr, now) \<in> set frs. decodes coerce (c_version (v_client v)) fr)) \<and>
    (\<forall>e. r = Some e \<longrightarrow> (\<exists>before fr now after. frs = before @ (fr, now) # after \<and>
       (\<forall>(x, t) \<in> set before. decodes coerce (c_version (v_client v)) x) \<and>
       decode_message coerce fr (c_version (v_client v)) = Inl e))"
proof -
  note e = processing_effect [OF assms(2,1)]
  show ?thesis
  proof (cases r)
    case None
    with e show ?thesis by simp
  next
    case (Some x)
    with e obtain before fr now after where "frs = before @ (fr, now) # after"
      "decode_message coerce fr (c_version (v_client v)) = Inl x" by auto
    then have "\<exists>y \<in> set frs. \<not> (case y of (fr, now) \<Rightarrow> decodes coerce (c_version (v_client v)) fr)"
      by (auto simp: decodes_def intro: bexI [of _ "(fr, now)"])
    with Some e show ?thesis by auto
  qed
qed

lemma routing_ends_on_bad_frame_only_witness:
  "\<exists>e. start_processing None (\<lambda>_. Inl TimeoutError) 1 [(BinaryFrame [], 0)] sample_entered = (Some e, sample_entered)
    \<and> \<not> decodes (\<lambda>_. Inl TimeoutError) (c_version (v_client sample_entered)) (BinaryFrame [])"
proof -
  obtain e where d: "decode_message (\<lambda>_. Inl TimeoutError) (BinaryFrame []) (c_version (v_client sample_entered)) = Inl e"
    by (cases "c_version (v_client sample_entered) = V2") (auto simp: decode_message_def decode_binary_def)
  then have "start_processing None (\<lambda>_. Inl TimeoutError) 1 [(BinaryFrame [], 0)] sample_entered = (Some e, sample_entered)"
    by simp
  with routing_ends_on_bad_frame_only [OF sample_entered_supervised this] show ?thesis by auto
qed

end
