(* ===== verification/Channel_Facade.thy ===== *)
theory Channel_Facade
  imports Channel_Runs
begin

text \<open>
  The handle an application holds (\<open>channel.py\<close>): each method is one operation of the channel
  runtime on the handle's subscription. Whatever an application does through handles is a run of
  channel steps, so that every property of the runs holds for it.
\<close>

section \<open>Methods\<close>

definition facade_topic :: "sid \<Rightarrow> client \<Rightarrow> pystr" where
  "facade_topic s c = t_name (c_sub c s)"

definition facade_joined :: "sid \<Rightarrow> client \<Rightarrow> bool" where
  "facade_joined s c \<longleftrightarrow> channel_joined c s"

text \<open>\<open>on\<close>, called with a handler, or the decorator it returns applied to one.\<close>

definition facade_on :: "sid \<Rightarrow> event \<Rightarrow> nat \<Rightarrow> client \<Rightarrow> exn + client" where
  "facade_on s e h c =
     andThen (add_event_handler (c_sub c s) e h) (\<lambda>t. Inr (upd_topic s (\<lambda>_. t) c))"

definition facade_off :: "sid \<Rightarrow> event \<Rightarrow> client \<Rightarrow> client" where
  "facade_off s e c = upd_topic s (\<lambda>t. remove_event_handler t e) c"

definition facade_on_any :: "sid \<Rightarrow> nat \<Rightarrow> client \<Rightarrow> client" where
  "facade_on_any s h c = upd_topic s (\<lambda>t. t\<lparr>t_async_callback := Some h\<rparr>) c"

definition facade_off_any :: "sid \<Rightarrow> client \<Rightarrow> client" where
  "facade_off_any s c = upd_topic s (\<lambda>t. t\<lparr>t_async_callback := None\<rparr>) c"

text \<open>\<open>join\<close>, \<open>push\<close> and \<open>leave\<close> up to their first wait; \<open>me\<close> is the task that calls \<open>leave\<close>.\<close>

definition facade_join :: "sid \<Rightarrow> client \<Rightarrow> (exn + fid) \<times> client" where
  "facade_join s c =
     (case reserve_name s c of Inl e \<Rightarrow> (Inl e, c) | Inr c1 \<Rightarrow> join_channel_begin s c1)"

definition facade_push ::
  "sid \<Rightarrow> event \<Rightarrow> pyval \<Rightarrow> pyfloat \<Rightarrow> client \<Rightarrow> (exn + pystr \<times> fid) \<times> client" where
  "facade_push s e v timeout c = push_begin s e v timeout c"

definition facade_leave :: "tid option \<Rightarrow> sid \<Rightarrow> client \<Rightarrow> tid option \<times> client" where
  "facade_leave me s c = leave_channel s me c"

text \<open>\<open>async with channel\<close> joins.\<close>

definition facade_enter :: "sid \<Rightarrow> client \<Rightarrow> (exn + fid) \<times> client" where
  "facade_enter s c = facade_join s c"

text \<open>
  What \<open>async with channel\<close> raises, from what its body raised and how \<open>leave\<close> ended: a failed
  leave wins, except that it never hides the cancellation of the body.
\<close>

definition with_outcome :: "exn option \<Rightarrow> exn + unit \<Rightarrow> exn option" where
  "with_outcome body leave =
     (case leave of
        Inr _ \<Rightarrow> body
      | Inl e \<Rightarrow> if is_exception e \<and> body = Some CancelledError then body else Some e)"

section \<open>The handle stays within the runtime\<close>

lemma facade_on_run: "facade_on s e h c = Inr c' \<Longrightarrow> run c c'"
  by (auto simp: facade_on_def andThen_Inr_iff channel_step_def intro!: run_step app_step.handler_on)

lemma facade_off_run: "run c (facade_off s e c)"
  by (auto simp: facade_off_def channel_step_def intro!: run_step app_step.handler_off)

lemma facade_any_run: "run c (facade_on_any s h c)" "run c (facade_off_any s c)"
  by (auto simp: facade_on_any_def facade_off_any_def channel_step_def intro!: run_step app_step.any_handler)

lemma facade_join_run: "s < c_next c \<Longrightarrow> run c (snd (facade_join s c))"
proof (cases "reserve_name s c")
  case (Inr c1)
  assume "s < c_next c"
  then have "channel_step c c1" using Inr by (simp add: channel_step_def app_step.reserved)
  moreover have "channel_step c1 (snd (join_channel_begin s c1))"
    by (simp add: channel_step_def app_step.join_sent)
  ultimately show ?thesis using Inr run.go [OF run_step] by (simp add: facade_join_def)
qed (simp add: facade_join_def run.stay)

lemma facade_enter_run: "s < c_next c \<Longrightarrow> run c (snd (facade_enter s c))"
  by (simp add: facade_enter_def facade_join_run)

lemma facade_push_run: "run c (snd (facade_push s e v timeout c))"
  by (auto simp: facade_push_def channel_step_def intro!: run_step app_step.pushed)

lemma facade_leave_run: "run c (snd (facade_leave me s c))"
  by (auto simp: facade_leave_def channel_step_def intro!: run_step app_step.left)

lemmas facade_runs =
  facade_on_run facade_off_run facade_any_run facade_join_run facade_enter_run facade_push_run
  facade_leave_run

text \<open>A handle keeps its topic, whatever happens.\<close>

lemma facade_topic_stays:
  "reachable c \<Longrightarrow> run c c' \<Longrightarrow> s < c_next c \<Longrightarrow> facade_topic s c' = facade_topic s c"
  using progressD(4) [OF run_progress, of c c' s] by (simp add: facade_topic_def topic_progress_def)

text \<open>Handlers: the last one registered for an event gets it, and removing it leaves the others.\<close>

lemma facade_on_registers:
  assumes "facade_on s e h c = Inr c'"
  shows "get_event_handler (c_sub c' s) e' =
      (if event_text e' = event_text e then Some h else get_event_handler (c_sub c s) e')"
    "\<not> client_lifecycle e"
  using assms
  by (auto simp: facade_on_def andThen_Inr_iff add_event_handler_def get_event_handler_def
      upd_topic_def simp del: map_of_eq_Some_iff split: if_splits)

lemma facade_off_removes:
  "get_event_handler (c_sub (facade_off s e c) s) e' =
    (if event_text e' = event_text e then None else get_event_handler (c_sub c s) e')"
  by (simp add: facade_off_def remove_event_handler_def get_event_handler_def upd_topic_def
      dict_get_pop del: map_of_eq_Some_iff)

lemma with_outcome_cancelled: "with_outcome (Some CancelledError) r = Some CancelledError \<longleftrightarrow>
    (\<forall>e. r = Inl e \<longrightarrow> is_exception e \<or> e = CancelledError)"
  by (cases r) (auto simp: with_outcome_def)

end
