(* ===== verification/Spec2Isabelle.thy ===== *)
theory Spec2Isabelle
  imports Client_Wellformed Channel_Losses Channel_Rejoin Recovery_Loop Channel_Joining
    Channel_Pushing Channel_Delivery Channel_Wire Host_Signals Message_Loop Channel_Facade
begin

text \<open>
  A verification library of \<open>phoenix_channels_python_client\<close>, an asyncio client of Phoenix
  channels: a websocket on which many topics are multiplexed, each joined, acknowledged, left,
  lost and rejoined on its own. File names are relative to
  \<open>src/phoenix_channels_python_client/\<close>, except the example in \<open>src/examples/\<close>.

  \<^bold>\<open>How the program is put together.\<close> \<open>Client\<close> (\<open>client.py\<close>) is one object made of three mixins:
  the connection supervisor (\<open>supervisor.py\<close>), the channel runtime (\<open>topic_runtime.py\<close>) and the
  reconnect controller (\<open>reconnect_controller.py\<close>). Entering it starts the supervisor's task, which
  connects, starts the routing loop (\<open>protocol_handler.py\<close>) and the heartbeats, rejoins the
  topics, waits for the connection to end, cleans up and asks a decider
  (\<open>default_decider.py\<close> or the consumer's own) whether to go on. The routing loop decodes each
  frame (\<open>codec.py\<close>) and either lets the runtime handle it as a control message or puts it into
  the bounded queue of its topic, from which the topic's processor task calls the handlers.
  A \<open>Channel\<close> (\<open>channel.py\<close>) is the application's handle of one \<open>TopicSubscription\<close>
  (\<open>topic_subscription.py\<close>); whatever it sends is owned by the \<open>SessionSends\<close> of the
  connection (\<open>send_session.py\<close>). \<open>run_forever\<close> waits for the end, with signal handlers shared
  by all clients of the process (\<open>shutdown_signals.py\<close>). Headers and log records go through
  \<open>authentication.py\<close> and \<open>diagnostics.py\<close>.

  \<^bold>\<open>How it is modelled.\<close> Text is a list of code points (so surrogates exist, as in Python), bytes
  are 8-bit words, a dictionary is an association list in insertion order, an exception is a value
  of \<open>exn\<close>, and code that can raise returns a sum. Objects that are shared and mutated (topics,
  futures, tasks, send sessions) live in the store of the record \<open>client\<close>, under numbers drawn from
  one counter, so aliasing is explicit. A coroutine is cut where it waits: each segment between two
  awaits is one function on the state, atomic as in asyncio, and what it waits for appears as
  the premise of the step that continues it. All interleavings of segments are the runs of a step
  relation. The relation allows more than the event loop does, so what holds of its runs holds of
  the program's. The clock, \<open>random.random()\<close>, the answers of consumer callbacks and what the
  network does are arguments or free choices of the steps. Floats are reals with infinities and
  NaN; rounding is not modelled, overflow of \<open>**\<close> is.

  \<^bold>\<open>Foundations.\<close>
  \<^item> \<^verbatim>\<open>Phx_Prelude\<close>: text, bytes, dictionaries (with their simplification rules), the sum
    monad \<open>andThen\<close>, and the collections of rules the proofs share.
  \<^item> \<^verbatim>\<open>Py_Text\<close>: UTF-8 as CPython does it, strict and with \<open>errors="ignore"\<close>, and decimal text;
    round trips, and what a decoder makes of an encoding cut in the middle (locale \<open>text_codec\<close>).
  \<^item> \<^verbatim>\<open>Json_Text\<close>: \<open>json.dumps\<close> and \<open>json.loads\<close>. The reader recurses on fuel \<open>loads_fuel s\<close>, twice the
    length of the text plus one: each level of nesting and each element consumes at least one
    character, and \<open>p_value_enough\<close> shows that more fuel never changes the result.
  \<^item> \<^verbatim>\<open>Url_Text\<close>: \<open>quote\<close>, \<open>quote_plus\<close>, \<open>urlencode\<close>, \<open>unquote\<close>, \<open>parse_qsl\<close> of \<open>urllib.parse\<close>, with the
    round trip of a query (locale \<open>query_codec\<close>).
\<close>

text \<open>
  \<^bold>\<open>Messages and frames.\<close>
  \<^item> \<^verbatim>\<open>Messages\<close>: \<open>exceptions.py\<close>, \<open>protocol.py\<close>, \<open>messages.py\<close>, \<open>utils.py\<close>, \<open>replies.py\<close>.
  \<^item> \<^verbatim>\<open>Codec\<close>: \<open>codec.py\<close>, both protocol versions, text and binary frames, every error. The lemmas give the
    round trip of text frames, the exact set of binary frames accepted (against the server's layout, written
    out field by field), and the layout and the
    encodability of binary pushes. It uses JSON through the locale \<open>json_codec\<close>.
  \<^item> \<^verbatim>\<open>Protocol_Handler\<close>: \<open>protocol_handler.py\<close>, with the bounded topic queue (locale \<open>bounded_queue\<close>) and
    the callbacks of the routing (locale \<open>frame_callbacks\<close>).

  \<^bold>\<open>Decisions.\<close>
  \<^item> \<^verbatim>\<open>Client_Types\<close>: \<open>client_types.py\<close> and the life cycle of \<open>client_state_machine.py\<close>.
  \<^item> \<^verbatim>\<open>Default_Decider\<close>: \<open>default_decider.py\<close>; the bounds of each wait, the churn window, and how long a run
    of failed attempts can be.
  \<^item> \<^verbatim>\<open>Reconnect_Controller\<close>: \<open>reconnect_controller.py\<close>; the contract of a decider is the locale
    \<open>reconnect_decider\<close>, interpreted by the built-in policy.

  \<^bold>\<open>The channel runtime.\<close>
  \<^item> \<^verbatim>\<open>Runtime_State\<close>: \<open>topic_subscription.py\<close> and the state of the client. A future that
    is given an outcome when it is done is marked, where asyncio raises \<open>InvalidStateError\<close>; that no
    run of the client does so is proved, not assumed.
  \<^item> \<^verbatim>\<open>Send_Session\<close>: \<open>send_session.py\<close>.
  \<^item> \<^verbatim>\<open>Channel_Transitions\<close>, \<^verbatim>\<open>Channel_Control\<close>, \<^verbatim>\<open>Channel_Lifecycle\<close>: \<open>topic_runtime.py\<close>, in this order the state
    machine of one channel, the control messages, and the operations that wait.
  \<^item> \<^verbatim>\<open>Connection\<close>: the parts of the supervisor and of the client that touch channels.
  \<^item> \<^verbatim>\<open>Channel_Invariants\<close>, \<^verbatim>\<open>Channel_Sound\<close>: \<open>progress\<close>, what every operation respects (no
    outcome is set twice, a name is released only when its join is over, what a call waits for is
    forgotten only once it is settled), and \<open>inv\<close>, what it keeps; an operation with both is
    \<open>sound\<close>, and soundness composes.
  \<^item> \<^verbatim>\<open>Channel_Runs\<close>: the steps, \<open>reachable\<close> and \<open>run\<close>; every step is sound.
  \<^item> \<^verbatim>\<open>Channel_Samples\<close>: a client with one joined channel, used by the witnesses.
  \<^item> \<^verbatim>\<open>Channel_Properties\<close>, \<^verbatim>\<open>Channel_Behaviour\<close>, \<^verbatim>\<open>Channel_Messages\<close>, \<^verbatim>\<open>Channel_Recovery\<close>: what holds of all runs, and
    what each message, loss, rejoin, send and stop does in any reachable state; the machine of
    phases that the runtime refines.
  \<^item> \<^verbatim>\<open>Channel_Frame\<close>: what the operations leave alone, as locales over a view of the client; its
    interpretations are \<^verbatim>\<open>Channel_Calm\<close> (the connection and the options), \<^verbatim>\<open>Channel_Queues\<close> (the
    queues, hence the order of delivery), \<^verbatim>\<open>Channel_Delivery\<close> (the join references: only messages of
    the current join are handled, and a steady channel loses none), \<^verbatim>\<open>Channel_Wire\<close> (what is
    written: each frame was allowed when it was), \<^verbatim>\<open>Channel_Stopping\<close> (the client's state and its
    shutdown flag: no work after a stop), \<^verbatim>\<open>Channel_Losses\<close> (the reported losses: at most one for
    each channel) and, for the options alone, \<^verbatim>\<open>Client_Wellformed\<close>.
  \<^item> \<^verbatim>\<open>Background\<close>: callbacks and their errors, the waits for tasks.
  \<^item> \<^verbatim>\<open>Coroutines\<close>: a coroutine as a whole, its own steps interleaved with everything the client does
    while it waits, and the locale \<open>coroutine\<close>, a rely-guarantee contract: its steps are runs of the
    client, they lead from fact to fact, and no run of the client breaks the fact of a place where
    it waits. It is interpreted by each of the following, which also bound the coroutine's own
    steps by a measure.
  \<^item> \<^verbatim>\<open>Rejoin_Attempt\<close>: one rejoin of one channel. Built from it, \<^verbatim>\<open>Channel_Rejoin\<close>: the rejoin of all
    channels after a reconnect, one after the other, at most six steps for each and one more; and
    \<^verbatim>\<open>Recovery_Loop\<close>: the attempts to recover one crashed channel, with the waits between them.
  \<^item> \<^verbatim>\<open>Channel_Leaving\<close>, \<^verbatim>\<open>Channel_Joining\<close>, \<^verbatim>\<open>Channel_Pushing\<close>: the task that leaves a channel, with its
    cleanup, and the calls \<open>join()\<close> and \<open>push()\<close>: how many steps of their own they need, that what
    they wait for is not forgotten, and how they can end.
  \<^item> \<^verbatim>\<open>Channel_Facade\<close>: \<open>channel.py\<close>.

  \<^bold>\<open>The client around it.\<close>
  \<^item> \<^verbatim>\<open>Close_Reason\<close>, \<^verbatim>\<open>Supervisor\<close>: \<open>supervisor.py\<close> and the life cycle of \<open>client.py\<close>.
  \<^item> \<^verbatim>\<open>Supervisor_Runs\<close>, \<^verbatim>\<open>Supervisor_Properties\<close>, \<^verbatim>\<open>Supervisor_Behaviour\<close>: where the supervisor waits, its steps
    among those of everything else, and what holds of them; each step is a run of the runtime. A
    cancellation may land in a cleanup and cut off its end.
  \<^item> \<^verbatim>\<open>Message_Loop\<close>: the routing loop over the frames of a connection, up to the first that does not
    decode, with the dispatch of control messages and heartbeats.
  \<^item> \<^verbatim>\<open>Client_Shutdown\<close>: the stages of \<open>_shutdown\<close>, with everything that runs between them, and
    entering and leaving the client as a context manager; both of its ends, with and without an
    error of a cleanup task.
  \<^item> \<^verbatim>\<open>Client_Setup\<close>: \<open>Client.__init__\<close> and the URLs. \<^verbatim>\<open>Client_Wellformed\<close>: what was checked there holds
    for ever, and the queues stay within the size it set.
  \<^item> \<^verbatim>\<open>Authentication\<close>, \<^verbatim>\<open>Diagnostics\<close>: \<open>authentication.py\<close> and \<open>diagnostics.py\<close>.
  \<^item> \<^verbatim>\<open>Shutdown_Signals\<close>: \<open>shutdown_signals.py\<close>. \<^verbatim>\<open>Run_Forever\<close>: \<open>run_forever\<close> around it; a signal is acted
    upon or passed on. \<^verbatim>\<open>Host_Signals\<close>: a host with handlers of its own
    (\<open>src/examples/embedded_host_signals.py\<close>).

  \<^bold>\<open>Not modelled.\<close> The websocket itself (\<open>websockets.connect\<close>, its transport) is the environment: it
  delivers frames, errors and closes at will. \<open>urlsplit\<close> and \<open>urlunsplit\<close> are arguments, as their
  results differ between versions of Python. What is written to the log is not modelled, only
  what redaction makes of it. The class declarations of the mixins, type aliases and the
  re-exports of \<open>__init__.py\<close> have no behaviour. \<open>topics_lock\<close> is held only over code that does not
  wait, so it is never contended and does not appear. The waits with a deadline are free choices
  between their outcomes; that a deadline passes in the end is not stated.
\<close>

end
